(* ===== verification/Prelude.thy ===== *)
theory Prelude
  imports Main "HOL-Library.Word"
begin

text \<open>
  Shared ground of the klibmsg development: how a run of the code can fail, the
  sequencing of steps that may fail, and the rules that carry state properties
  through such sequences.

  A glog \<open>CHECK\<close> that does not hold and \<open>LOG(FATAL)\<close> abort the process; following a
  null or freed pointer and indexing outside an array are undefined. Each of these
  is a value of \<open>failure\<close>, so that no branch of the source is silently totalised.
\<close>

section \<open>Failures and sequencing\<close>

datatype failure =
    CheckFailed string     \<comment> \<open>a CHECK whose condition is false\<close>
  | LogFatal string        \<comment> \<open>LOG(FATAL), e.g. through UNEXPECTED\_RUN()\<close>
  | BadPointer string      \<comment> \<open>a null or sentinel pointer is followed\<close>
  | UseAfterFree string    \<comment> \<open>an object that was deleted is accessed\<close>
  | OutOfBounds string     \<comment> \<open>an array is indexed outside its bounds\<close>
  | SelfDeadlock string    \<comment> \<open>a thread locks a mutex it already holds\<close>
  | Diverges string        \<comment> \<open>a loop does not end\<close>
  | FuelExhausted          \<comment> \<open>a bound of the model, never of the code\<close>

type_synonym 'a res = "failure + 'a"

fun andThen :: "'a res \<Rightarrow> ('a \<Rightarrow> 'b res) \<Rightarrow> 'b res" where
  "andThen (Inl e) k = Inl e"
| "andThen (Inr x) k = k x"

definition CHECK :: "string \<Rightarrow> bool \<Rightarrow> 'a \<Rightarrow> 'a res" where
  "CHECK msg b x = (if b then Inr x else Inl (CheckFailed msg))"

lemma CHECK_simps [simp]:
  "CHECK msg True x = Inr x"
  "CHECK msg False x = Inl (CheckFailed msg)"
  by (simp_all add: CHECK_def)

lemma CHECK_eq_Inr_iff [simp]: "CHECK msg b x = Inr y \<longleftrightarrow> b \<and> y = x"
  by (auto simp: CHECK_def)

lemma andThen_eq_Inr_iff: "andThen m k = Inr y \<longleftrightarrow> (\<exists>x. m = Inr x \<and> k x = Inr y)"
  by (cases m) auto

lemma andThen_assoc [simp]: "andThen (andThen m k) l = andThen m (\<lambda>x. andThen (k x) l)"
  by (cases m) auto

lemma andThen_Inr_right [simp]: "andThen m Inr = m"
  by (cases m) auto

lemma andThen_if: "andThen (if b then m else n) k = (if b then andThen m k else andThen n k)"
  by simp

lemma andThen_cong [fundef_cong]:
  "m = m' \<Longrightarrow> (\<And>x. m' = Inr x \<Longrightarrow> k x = k' x) \<Longrightarrow> andThen m k = andThen m' k'"
  by (cases m') auto

section \<open>What holds after a step that succeeds\<close>

text \<open>
  \<open>after Q m\<close>: if \<open>m\<close> succeeds, its result has \<open>Q\<close>. The rules in \<open>after_rules\<close> follow the
  way the code is built (sequencing, branches, checks), so that the invariance of a
  handler reduces to the invariance of the primitive updates it is made of.
\<close>

definition after :: "('a \<Rightarrow> bool) \<Rightarrow> 'a res \<Rightarrow> bool" where
  "after Q m \<longleftrightarrow> (\<forall>x. m = Inr x \<longrightarrow> Q x)"

named_theorems after_rules

lemma afterI: "(\<And>x. m = Inr x \<Longrightarrow> Q x) \<Longrightarrow> after Q m"
  by (simp add: after_def)

lemma afterD: "after Q m \<Longrightarrow> m = Inr x \<Longrightarrow> Q x"
  by (simp add: after_def)

lemma after_Inl [after_rules]: "after Q (Inl e)"
  by (simp add: after_def)

lemma after_Inr [after_rules]: "Q x \<Longrightarrow> after Q (Inr x)"
  by (simp add: after_def)

lemma after_CHECK [after_rules]: "(b \<Longrightarrow> Q x) \<Longrightarrow> after Q (CHECK msg b x)"
  by (simp add: after_def CHECK_def)

lemma after_if [after_rules]:
  "(b \<Longrightarrow> after Q m) \<Longrightarrow> (\<not> b \<Longrightarrow> after Q n) \<Longrightarrow> after Q (if b then m else n)"
  by simp

lemma after_option [after_rules]:
  "(x = None \<Longrightarrow> after Q m) \<Longrightarrow> (\<And>y. x = Some y \<Longrightarrow> after Q (f y)) \<Longrightarrow>
   after Q (case x of None \<Rightarrow> m | Some y \<Rightarrow> f y)"
  by (cases x) auto

lemma after_prod [after_rules]:
  "(\<And>a b. p = (a, b) \<Longrightarrow> after Q (f a b)) \<Longrightarrow> after Q (case p of (a, b) \<Rightarrow> f a b)"
  by (cases p) auto

lemma after_Let [after_rules]: "(\<And>x. x = v \<Longrightarrow> after Q (f x)) \<Longrightarrow> after Q (Let v f)"
  by simp

lemma after_andThen: "after P m \<Longrightarrow> (\<And>x. P x \<Longrightarrow> after Q (k x)) \<Longrightarrow> after Q (andThen m k)"
  by (cases m) (auto simp: after_def)

text \<open>Reading a value keeps what is known of the state.\<close>

lemma after_read: "(\<And>x. m = Inr x \<Longrightarrow> after Q (k x)) \<Longrightarrow> after Q (andThen m k)"
  by (cases m) (auto simp: after_def)

lemma after_mono: "after P m \<Longrightarrow> (\<And>x. P x \<Longrightarrow> Q x) \<Longrightarrow> after Q m"
  by (simp add: after_def)

section \<open>Words by their bits\<close>

lemma word_eq_iff_bits:
  fixes v w :: "'a::len word"
  shows "v = w \<longleftrightarrow> (\<forall>n<LENGTH('a). bit v n = bit w n)"
  by (auto intro: bit_word_eqI)

end
