(* ===== verification/Netqueue.thy ===== *)
theory Netqueue
  imports Prelude
begin

text \<open>
  The intrusive FIFO of \<open>src/utils.h\<close> and \<open>src/utils.cpp\<close>: \<open>NetQueueItem\<close> holds one
  pointer \<open>next_\<close>, which is the sentinel \<open>NETQUEUE_NOT_INQUEUE\<close> (address -1) while
  the item is in no queue; \<open>NetQueue\<close> holds \<open>head_\<close> and \<open>tail_\<close>. The \<open>next_\<close> fields of
  all items are one store, since several queues link items of the same kind.

  The theory gives the code's operations on pointers, the abstraction of a queue to
  the list of its items, and the interface \<open>fifo\<close> with its interpretation: the
  components that use a queue (contexts, workers, message buffers) rest on the
  interface's laws.
\<close>

section \<open>The code\<close>

datatype 'a nptr = NULL | NOT_IN_QUEUE | At 'a

type_synonym 'a links = "'a \<Rightarrow> 'a nptr"

record 'a netqueue =
  q_head :: "'a nptr"
  q_tail :: "'a nptr"

definition NetQueue_Init :: "'a netqueue" where
  "NetQueue_Init = \<lparr>q_head = NULL, q_tail = NULL\<rparr>"

definition NetQueue_Terminate :: "'a netqueue \<Rightarrow> 'a netqueue" where
  "NetQueue_Terminate q = q\<lparr>q_head := NULL, q_tail := NULL\<rparr>"

definition NetQueue_Empty :: "'a netqueue \<Rightarrow> int" where
  "NetQueue_Empty q = (if q_head q \<noteq> NULL then 0 else 1)"

definition NetQueue_Push :: "'a \<Rightarrow> 'a netqueue \<Rightarrow> 'a links \<Rightarrow> ('a netqueue \<times> 'a links) res" where
  "NetQueue_Push item q nx =
     (if nx item \<noteq> NOT_IN_QUEUE then Inr (q, nx)
      else
        let nx1 = nx(item := NULL);
            q1 = (if q_head q = NULL then q\<lparr>q_head := At item\<rparr> else q)
        in (case q_tail q1 of
              NULL \<Rightarrow> Inr (q1\<lparr>q_tail := At item\<rparr>, nx1)
            | NOT_IN_QUEUE \<Rightarrow> Inl (BadPointer ''NetQueue::Push'')
            | At t \<Rightarrow> Inr (q1\<lparr>q_tail := At item\<rparr>, nx1(t := At item))))"

partial_function (option) remove_loop ::
  "'a \<Rightarrow> 'a nptr \<Rightarrow> 'a nptr \<Rightarrow> 'a netqueue \<Rightarrow> 'a links \<Rightarrow> ('a netqueue \<times> 'a links) res option"
where
  "remove_loop item prev it q nx =
     (case it of
        NULL \<Rightarrow> Some (Inr (q, nx))
      | NOT_IN_QUEUE \<Rightarrow> Some (Inl (BadPointer ''NetQueue::Remove''))
      | At i \<Rightarrow>
          if i = item then
            let q1 = (if q_head q = it then q\<lparr>q_head := nx i\<rparr> else q);
                q2 = (if q_tail q1 = it then q1\<lparr>q_tail := prev\<rparr> else q1);
                nx1 = (case prev of At p \<Rightarrow> nx(p := nx i) | _ \<Rightarrow> nx)
            in Some (Inr (q2, nx1(item := NOT_IN_QUEUE)))
          else remove_loop item it (nx i) q nx)"

definition NetQueue_Remove ::
  "'a \<Rightarrow> 'a netqueue \<Rightarrow> 'a links \<Rightarrow> ('a netqueue \<times> 'a links) res option" where
  "NetQueue_Remove item q nx =
     (if nx item = NOT_IN_QUEUE then Some (Inr (q, nx))
      else remove_loop item NULL (q_head q) q nx)"

definition NetQueue_Pop :: "'a netqueue \<Rightarrow> 'a links \<Rightarrow> ('a option \<times> 'a netqueue \<times> 'a links) res" where
  "NetQueue_Pop q nx =
     (case q_head q of
        NULL \<Rightarrow> Inr (None, q, nx)
      | NOT_IN_QUEUE \<Rightarrow> Inl (BadPointer ''NetQueue::Pop'')
      | At r \<Rightarrow>
          let q1 = q\<lparr>q_head := nx r\<rparr>;
              q2 = (if q_head q1 = NULL then q1\<lparr>q_tail := NULL\<rparr> else q1)
          in Inr (Some r, q2, nx(r := NOT_IN_QUEUE)))"

definition NetQueueItem_Init :: "'a \<Rightarrow> 'a links \<Rightarrow> 'a links" where
  "NetQueueItem_Init item nx = nx(item := NOT_IN_QUEUE)"

definition NetQueueItem_Terminate :: "'a \<Rightarrow> 'a links \<Rightarrow> 'a links res" where
  "NetQueueItem_Terminate item nx =
     CHECK ''next() == NETQUEUE_NOT_INQUEUE'' (nx item = NOT_IN_QUEUE) nx"

definition NetQueueItem_IsInQueue :: "'a \<Rightarrow> 'a links \<Rightarrow> bool" where
  "NetQueueItem_IsInQueue item nx = (if nx item = NOT_IN_QUEUE then False else True)"

section \<open>Abstraction to lists\<close>

text \<open>
  \<open>chain nx p xs r\<close>: following \<open>next_\<close> from \<open>p\<close> visits exactly \<open>xs\<close> and arrives at \<open>r\<close>.
  \<open>queue_rep nx q xs\<close>: the queue \<open>q\<close> holds the items \<open>xs\<close>, front first.
\<close>

primrec chain :: "'a links \<Rightarrow> 'a nptr \<Rightarrow> 'a list \<Rightarrow> 'a nptr \<Rightarrow> bool" where
  "chain nx p [] r \<longleftrightarrow> p = r"
| "chain nx p (x # xs) r \<longleftrightarrow> p = At x \<and> chain nx (nx x) xs r"

definition queue_rep :: "'a links \<Rightarrow> 'a netqueue \<Rightarrow> 'a list \<Rightarrow> bool" where
  "queue_rep nx q xs \<longleftrightarrow>
     distinct xs \<and> chain nx (q_head q) xs NULL \<and>
     q_tail q = (if xs = [] then NULL else At (last xs))"

definition linked :: "'a links \<Rightarrow> 'a set" where
  "linked nx = {x. nx x \<noteq> NOT_IN_QUEUE}"

lemma linked_iff [simp]: "x \<in> linked nx \<longleftrightarrow> nx x \<noteq> NOT_IN_QUEUE"
  by (simp add: linked_def)

lemma chain_append: "chain nx p (xs @ ys) r \<longleftrightarrow> (\<exists>q. chain nx p xs q \<and> chain nx q ys r)"
  by (induction xs arbitrary: p) auto

lemma chain_frame: "(\<And>x. x \<in> set xs \<Longrightarrow> nx' x = nx x) \<Longrightarrow> chain nx' p xs r = chain nx p xs r"
  by (induction xs arbitrary: p) auto

lemma chain_upd [simp]: "x \<notin> set xs \<Longrightarrow> chain (nx(x := v)) p xs r = chain nx p xs r"
  by (rule chain_frame) auto

lemma chain_linked: "chain nx p xs NULL \<Longrightarrow> x \<in> set xs \<Longrightarrow> nx x \<noteq> NOT_IN_QUEUE"
proof (induction xs arbitrary: p)
  case (Cons y ys)
  then show ?case by (cases ys) auto
qed simp

lemma chain_snoc: "chain nx p (xs @ [x]) r \<longleftrightarrow> chain nx p xs (At x) \<and> nx x = r"
  by (auto simp: chain_append)

lemma queue_rep_NULL: "queue_rep nx q xs \<Longrightarrow> q_head q = NULL \<longleftrightarrow> xs = []"
  by (cases xs) (auto simp: queue_rep_def)

lemma queue_rep_linked: "queue_rep nx q xs \<Longrightarrow> set xs \<subseteq> linked nx"
  by (auto simp: queue_rep_def dest: chain_linked)

lemma queue_rep_frame:
  "(\<And>x. x \<in> set xs \<Longrightarrow> nx' x = nx x) \<Longrightarrow> queue_rep nx' q xs = queue_rep nx q xs"
  by (simp add: queue_rep_def cong: chain_frame)

lemma queue_rep_unique:
  "queue_rep nx q xs \<Longrightarrow> queue_rep nx q ys \<Longrightarrow> xs = ys"
proof -
  have "chain nx p xs NULL \<Longrightarrow> chain nx p ys NULL \<Longrightarrow> xs = ys" for p
  proof (induction xs arbitrary: p ys)
    case Nil
    then show ?case by (cases ys) auto
  next
    case (Cons x xs)
    then show ?case by (cases ys) auto
  qed
  then show "queue_rep nx q xs \<Longrightarrow> queue_rep nx q ys \<Longrightarrow> xs = ys"
    by (auto simp: queue_rep_def)
qed

section \<open>The operations on the abstraction\<close>

lemma Init_rep: "queue_rep nx NetQueue_Init []"
  by (simp add: queue_rep_def NetQueue_Init_def)

lemma Empty_rep: "queue_rep nx q xs \<Longrightarrow> NetQueue_Empty q = (if xs = [] then 1 else 0)"
  by (auto simp: NetQueue_Empty_def dest: queue_rep_NULL)

lemma Push_linked: "x \<in> linked nx \<Longrightarrow> NetQueue_Push x q nx = Inr (q, nx)"
  by (simp add: NetQueue_Push_def)

lemma Push_fresh_frame:
  assumes rep: "queue_rep nx q xs" and fresh: "x \<notin> linked nx"
  shows "\<exists>q' nx'. NetQueue_Push x q nx = Inr (q', nx') \<and> queue_rep nx' q' (xs @ [x]) \<and>
           linked nx' = insert x (linked nx) \<and> (\<forall>y. y \<notin> set xs \<longrightarrow> y \<noteq> x \<longrightarrow> nx' y = nx y)"
proof (cases xs rule: rev_cases)
  case Nil
  with rep fresh show ?thesis
    by (auto simp: NetQueue_Push_def queue_rep_def linked_def)
next
  case (snoc ys t)
  from fresh have nx: "nx x = NOT_IN_QUEUE" by simp
  from queue_rep_linked [OF rep] fresh have "x \<notin> set xs" by auto
  with rep snoc nx show ?thesis
    by (auto simp: NetQueue_Push_def queue_rep_def linked_def chain_snoc queue_rep_NULL[OF rep]
        chain_append)
qed

lemma Pop_nil: "queue_rep nx q [] \<Longrightarrow> NetQueue_Pop q nx = Inr (None, q, nx)"
  by (simp add: NetQueue_Pop_def queue_rep_def)

lemma Pop_cons_frame:
  assumes rep: "queue_rep nx q (x # xs)"
  shows "\<exists>q'. NetQueue_Pop q nx = Inr (Some x, q', nx(x := NOT_IN_QUEUE)) \<and>
           queue_rep (nx(x := NOT_IN_QUEUE)) q' xs"
  using rep by (cases xs) (auto simp: NetQueue_Pop_def queue_rep_def)

lemma remove_loop_absent:
  "chain nx it ys NULL \<Longrightarrow> item \<notin> set ys \<Longrightarrow> remove_loop item prev it q nx = Some (Inr (q, nx))"
proof (induction ys arbitrary: it prev)
  case Nil
  then show ?case by (simp add: remove_loop.simps)
next
  case (Cons y ys)
  then show ?case by (subst remove_loop.simps) auto
qed

lemma remove_loop_present:
  assumes "chain nx it (ys @ item # zs) NULL" and "item \<notin> set ys"
  shows "remove_loop item prev it q nx =
           remove_loop item (if ys = [] then prev else At (last ys)) (At item) q nx"
  using assms
proof (induction ys arbitrary: it prev)
  case Nil
  then show ?case by simp
next
  case (Cons y ys)
  then have "remove_loop item prev it q nx = remove_loop item (At y) (nx y) q nx"
    by (subst remove_loop.simps) auto
  with Cons show ?case by auto
qed

lemma Remove_frame:
  assumes rep: "queue_rep nx q xs"
  shows "\<exists>q' nx'. NetQueue_Remove x q nx = Some (Inr (q', nx')) \<and>
           queue_rep nx' q' (remove1 x xs) \<and>
           linked nx' = (if x \<in> set xs then linked nx - {x} else linked nx) \<and>
           (\<forall>y. y \<notin> set xs \<longrightarrow> nx' y = nx y)"
proof (cases "x \<in> set xs")
  case False
  then have "remove_loop x NULL (q_head q) q nx = Some (Inr (q, nx))"
    using rep by (auto simp: queue_rep_def intro: remove_loop_absent)
  with False rep show ?thesis
    by (auto simp: NetQueue_Remove_def remove1_idem)
next
  case True
  then obtain ys zs where xs: "xs = ys @ x # zs" and ys: "x \<notin> set ys"
    by (auto dest: split_list_first)
  from rep have c: "chain nx (q_head q) (ys @ x # zs) NULL" and d: "distinct (ys @ x # zs)"
    and t: "q_tail q = At (last (ys @ x # zs))"
    by (simp_all add: queue_rep_def xs)
  from queue_rep_linked [OF rep] True have "nx x \<noteq> NOT_IN_QUEUE" by auto
  with c ys have r: "NetQueue_Remove x q nx =
      remove_loop x (if ys = [] then NULL else At (last ys)) (At x) q nx"
    by (simp add: NetQueue_Remove_def remove_loop_present)
  show ?thesis
  proof (cases ys rule: rev_cases)
    case Nil
    from d have "zs \<noteq> [] \<Longrightarrow> last zs \<noteq> x" by (metis distinct.simps(2) distinct_append last_in_set)
    with Nil r c d t ys show ?thesis
      by (cases zs) (auto simp: xs remove_loop.simps [of _ _ "At x"] queue_rep_def linked_def Let_def)
  next
    case (snoc vs v)
    from d have "zs \<noteq> [] \<Longrightarrow> last zs \<noteq> x" by (metis distinct.simps(2) distinct_append last_in_set)
    moreover from snoc d c have "q_head q \<noteq> At x" by (cases vs) auto
    ultimately show ?thesis using snoc r c d t ys
      by (cases zs) (auto simp: xs remove_loop.simps [of _ _ "At x"] queue_rep_def linked_def Let_def
          chain_append remove1_append)
  qed
qed

section \<open>The queue interface\<close>

text \<open>
  What the clients of a queue use: an item is in at most one queue; pushing a linked
  item does nothing; pushing a fresh one appends it; popping takes the front; and an
  operation on one queue leaves the queues with other items alone.
\<close>

locale fifo =
  fixes empty :: 'q
    and push :: "'a \<Rightarrow> 'q \<Rightarrow> 's \<Rightarrow> ('q \<times> 's) res"
    and pop :: "'q \<Rightarrow> 's \<Rightarrow> ('a option \<times> 'q \<times> 's) res"
    and rep :: "'s \<Rightarrow> 'q \<Rightarrow> 'a list \<Rightarrow> bool"
    and members :: "'s \<Rightarrow> 'a set"
  assumes rep_empty: "rep s empty []"
    and rep_members: "rep s q xs \<Longrightarrow> distinct xs \<and> set xs \<subseteq> members s"
    and push_member: "x \<in> members s \<Longrightarrow> push x q s = Inr (q, s)"
    and push_fresh: "rep s q xs \<Longrightarrow> x \<notin> members s \<Longrightarrow>
          \<exists>q' s'. push x q s = Inr (q', s') \<and> rep s' q' (xs @ [x]) \<and>
            members s' = insert x (members s) \<and>
            (\<forall>q2 ys. rep s q2 ys \<longrightarrow> set ys \<inter> set xs = {} \<longrightarrow> rep s' q2 ys)"
    and pop_nil: "rep s q [] \<Longrightarrow> pop q s = Inr (None, q, s)"
    and pop_cons: "rep s q (x # xs) \<Longrightarrow>
          \<exists>q' s'. pop q s = Inr (Some x, q', s') \<and> rep s' q' xs \<and>
            members s' = members s - {x} \<and>
            (\<forall>q2 ys. rep s q2 ys \<longrightarrow> x \<notin> set ys \<longrightarrow> rep s' q2 ys)"

text \<open>The client loops: push a list of items; pop until the queue is empty.\<close>

primrec push_all ::
  "('a \<Rightarrow> 'q \<Rightarrow> 's \<Rightarrow> ('q \<times> 's) res) \<Rightarrow> 'a list \<Rightarrow> 'q \<Rightarrow> 's \<Rightarrow> ('q \<times> 's) res" where
  "push_all push [] q s = Inr (q, s)"
| "push_all push (x # xs) q s = andThen (push x q s) (\<lambda>(q', s'). push_all push xs q' s')"

primrec drain ::
  "('q \<Rightarrow> 's \<Rightarrow> ('a option \<times> 'q \<times> 's) res) \<Rightarrow> nat \<Rightarrow> 'q \<Rightarrow> 's \<Rightarrow> ('a list \<times> 'q \<times> 's) res" where
  "drain pop 0 q s = Inl FuelExhausted"
| "drain pop (Suc n) q s =
     andThen (pop q s) (\<lambda>(r, q', s'). case r of
         None \<Rightarrow> Inr ([], q', s')
       | Some x \<Rightarrow> andThen (drain pop n q' s') (\<lambda>(xs, q'', s''). Inr (x # xs, q'', s'')))"

text \<open>
  Any sequence of operations on several queues that share the links (the queues of all
  contexts, workers and sockets). \<open>qop\<close> names the queue by an index; \<open>lists_step\<close> is what the
  same operation does to lists.
\<close>

datatype ('i, 'a) qop = Push 'i 'a | Pop 'i | Remove 'i 'a

fun queues_step ::
  "('a \<Rightarrow> 'q \<Rightarrow> 's \<Rightarrow> ('q \<times> 's) res) \<Rightarrow> ('q \<Rightarrow> 's \<Rightarrow> ('a option \<times> 'q \<times> 's) res) \<Rightarrow>
   ('a \<Rightarrow> 'q \<Rightarrow> 's \<Rightarrow> ('q \<times> 's) res option) \<Rightarrow>
   ('i, 'a) qop \<Rightarrow> ('i \<Rightarrow> 'q) \<Rightarrow> 's \<Rightarrow> ('a option \<times> ('i \<Rightarrow> 'q) \<times> 's) res" where
  "queues_step push pop remove (Push i x) qs s =
     andThen (push x (qs i) s) (\<lambda>(q, s'). Inr (None, qs(i := q), s'))"
| "queues_step push pop remove (Pop i) qs s =
     andThen (pop (qs i) s) (\<lambda>(r, q, s'). Inr (r, qs(i := q), s'))"
| "queues_step push pop remove (Remove i x) qs s =
     (case remove x (qs i) s of
        None \<Rightarrow> Inl (Diverges ''Remove'')
      | Some r \<Rightarrow> andThen r (\<lambda>(q, s'). Inr (None, qs(i := q), s')))"

fun lists_step :: "('i, 'a) qop \<Rightarrow> ('i \<Rightarrow> 'a list) \<Rightarrow> 'a option \<times> ('i \<Rightarrow> 'a list)" where
  "lists_step (Push i x) ls =
     (None, if \<exists>j. x \<in> set (ls j) then ls else ls(i := ls i @ [x]))"
| "lists_step (Pop i) ls =
     (case ls i of [] \<Rightarrow> (None, ls) | x # xs \<Rightarrow> (Some x, ls(i := xs)))"
| "lists_step (Remove i x) ls = (None, ls(i := remove1 x (ls i)))"

primrec queues_run ::
  "('a \<Rightarrow> 'q \<Rightarrow> 's \<Rightarrow> ('q \<times> 's) res) \<Rightarrow> ('q \<Rightarrow> 's \<Rightarrow> ('a option \<times> 'q \<times> 's) res) \<Rightarrow>
   ('a \<Rightarrow> 'q \<Rightarrow> 's \<Rightarrow> ('q \<times> 's) res option) \<Rightarrow>
   ('i, 'a) qop list \<Rightarrow> ('i \<Rightarrow> 'q) \<Rightarrow> 's \<Rightarrow> ('a option list \<times> ('i \<Rightarrow> 'q) \<times> 's) res" where
  "queues_run push pop remove [] qs s = Inr ([], qs, s)"
| "queues_run push pop remove (c # cs) qs s =
     andThen (queues_step push pop remove c qs s) (\<lambda>(r, qs1, s1).
     andThen (queues_run push pop remove cs qs1 s1) (\<lambda>(rs, qs2, s2). Inr (r # rs, qs2, s2)))"

primrec lists_run :: "('i, 'a) qop list \<Rightarrow> ('i \<Rightarrow> 'a list) \<Rightarrow> 'a option list \<times> ('i \<Rightarrow> 'a list)" where
  "lists_run [] ls = ([], ls)"
| "lists_run (c # cs) ls =
     (let (r, ls1) = lists_step c ls; (rs, ls2) = lists_run cs ls1 in (r # rs, ls2))"

text \<open>The queues hold these lists, no item is in two of them, and nothing else is linked.\<close>

definition holds ::
  "('s \<Rightarrow> 'q \<Rightarrow> 'a list \<Rightarrow> bool) \<Rightarrow> ('s \<Rightarrow> 'a set) \<Rightarrow> 's \<Rightarrow> ('i \<Rightarrow> 'q) \<Rightarrow> ('i \<Rightarrow> 'a list) \<Rightarrow> bool" where
  "holds rep members s qs ls \<longleftrightarrow>
     (\<forall>i. rep s (qs i) (ls i)) \<and> (\<forall>i j. i \<noteq> j \<longrightarrow> set (ls i) \<inter> set (ls j) = {}) \<and>
     members s = (\<Union>i. set (ls i))"

context fifo begin

lemma push_all_fresh:
  "rep s q xs \<Longrightarrow> distinct ys \<Longrightarrow> set ys \<inter> members s = {} \<Longrightarrow>
   \<exists>q' s'. push_all push ys q s = Inr (q', s') \<and> rep s' q' (xs @ ys) \<and>
     members s' = set ys \<union> members s"
proof (induction ys arbitrary: q s xs)
  case Nil
  then show ?case by auto
next
  case (Cons y ys)
  then obtain q1 s1 where p: "push y q s = Inr (q1, s1)" "rep s1 q1 (xs @ [y])"
    "members s1 = insert y (members s)"
    using push_fresh [of s q xs y] by auto
  with Cons.prems have "distinct ys" "set ys \<inter> members s1 = {}" by auto
  with Cons.IH [OF p(2)] obtain q2 s2 where "push_all push ys q1 s1 = Inr (q2, s2)"
    "rep s2 q2 ((xs @ [y]) @ ys)" "members s2 = set ys \<union> members s1" by blast
  with p show ?case by auto
qed

lemma drain_all:
  "rep s q xs \<Longrightarrow> length xs < n \<Longrightarrow>
   \<exists>q' s'. drain pop n q s = Inr (xs, q', s') \<and> rep s' q' [] \<and> members s' = members s - set xs"
proof (induction n arbitrary: q s xs)
  case 0
  then show ?case by simp
next
  case (Suc n)
  show ?case
  proof (cases xs)
    case Nil
    with Suc.prems show ?thesis by (auto simp: pop_nil)
  next
    case (Cons x ys)
    with Suc.prems obtain q1 s1 where p: "pop q s = Inr (Some x, q1, s1)" "rep s1 q1 ys"
      "members s1 = members s - {x}" using pop_cons [of s q x ys] by auto
    from Suc.prems Cons have "length ys < n" by simp
    with Suc.IH [OF p(2)] obtain q2 s2 where "drain pop n q1 s1 = Inr (ys, q2, s2)"
      "rep s2 q2 []" "members s2 = members s1 - set ys" by blast
    with p Cons show ?thesis by auto
  qed
qed

lemma first_in_first_out:
  assumes "rep s q []" and "distinct ys" and "set ys \<inter> members s = {}"
  shows "\<exists>q1 s1 q2 s2. push_all push ys q s = Inr (q1, s1) \<and>
           drain pop (Suc (length ys)) q1 s1 = Inr (ys, q2, s2) \<and> rep s2 q2 [] \<and>
           members s2 = members s"
proof -
  from push_all_fresh [OF assms] obtain q1 s1 where p: "push_all push ys q s = Inr (q1, s1)"
    "rep s1 q1 ys" "members s1 = set ys \<union> members s" by auto
  from drain_all [OF p(2), of "Suc (length ys)"] obtain q2 s2 where
    "drain pop (Suc (length ys)) q1 s1 = Inr (ys, q2, s2)" "rep s2 q2 []"
    "members s2 = members s1 - set ys" by auto
  with p assms(3) show ?thesis by auto
qed

end

text \<open>A queue from which a given item can be taken out (\<open>NetWorker::Cancel\<close>).\<close>

locale removable_fifo = fifo empty push pop rep members
  for empty :: 'q
    and push :: "'a \<Rightarrow> 'q \<Rightarrow> 's \<Rightarrow> ('q \<times> 's) res"
    and pop :: "'q \<Rightarrow> 's \<Rightarrow> ('a option \<times> 'q \<times> 's) res"
    and rep :: "'s \<Rightarrow> 'q \<Rightarrow> 'a list \<Rightarrow> bool"
    and members :: "'s \<Rightarrow> 'a set" +
  fixes remove :: "'a \<Rightarrow> 'q \<Rightarrow> 's \<Rightarrow> ('q \<times> 's) res option"
  assumes remove_law: "rep s q xs \<Longrightarrow>
      \<exists>q' s'. remove x q s = Some (Inr (q', s')) \<and> rep s' q' (remove1 x xs) \<and>
        members s' = (if x \<in> set xs then members s - {x} else members s) \<and>
        (\<forall>q2 ys. rep s q2 ys \<longrightarrow> set ys \<inter> set xs = {} \<longrightarrow> rep s' q2 ys)"
begin

lemma holds_split: "holds rep members s qs ls \<Longrightarrow> members s = set (ls i) \<union> (\<Union>j\<in>-{i}. set (ls j))"
  unfolding holds_def by auto

lemma holds_update:
  fixes ls :: "'i \<Rightarrow> 'a list"
  assumes h: "holds rep members s qs ls" and r: "rep s' q' ys"
    and others: "\<And>j. j \<noteq> i \<Longrightarrow> rep s' (qs j) (ls j)"
    and disj: "\<And>j. j \<noteq> i \<Longrightarrow> set ys \<inter> set (ls j) = {}"
    and m: "members s' = set ys \<union> (\<Union>j\<in>-{i}. set (ls j))"
  shows "holds rep members s' (qs(i := q')) (ls(i := ys))"
  unfolding holds_def
proof (intro conjI allI impI)
  fix j
  show "rep s' ((qs(i := q')) j) ((ls(i := ys)) j)" using r others by simp
next
  fix j k :: 'i
  assume "j \<noteq> k"
  with h have "set (ls j) \<inter> set (ls k) = {}" by (simp add: holds_def)
  with disj [of j] disj [of k] \<open>j \<noteq> k\<close> show "set ((ls(i := ys)) j) \<inter> set ((ls(i := ys)) k) = {}"
    by (auto simp: Int_commute)
next
  show "members s' = (\<Union>j. set ((ls(i := ys)) j))" unfolding m by (auto split: if_splits)
qed

lemma holds_disj: "holds rep members s qs ls \<Longrightarrow> j \<noteq> i \<Longrightarrow> set (ls j) \<inter> set (ls i) = {}"
  by (simp add: holds_def)

lemma holds_rep: "holds rep members s qs ls \<Longrightarrow> rep s (qs i) (ls i)"
  by (simp add: holds_def)

lemma push_holds:
  assumes h: "holds rep members s qs ls" and x: "x \<notin> members s"
  shows "\<exists>q' s'. push x (qs i) s = Inr (q', s') \<and> holds rep members s' (qs(i := q')) (ls(i := ls i @ [x]))"
proof -
  from push_fresh [OF holds_rep [OF h] x, of i] obtain q' s' where p: "push x (qs i) s = Inr (q', s')"
    "rep s' q' (ls i @ [x])" "members s' = insert x (members s)"
    "\<And>q2 ys. rep s q2 ys \<Longrightarrow> set ys \<inter> set (ls i) = {} \<Longrightarrow> rep s' q2 ys" by blast
  have fresh: "\<And>j. x \<notin> set (ls j)" using x h by (simp add: holds_def)
  have "holds rep members s' (qs(i := q')) (ls(i := ls i @ [x]))"
  proof (rule holds_update [OF h p(2)])
    fix j assume "j \<noteq> i"
    with holds_disj [OF h] have d: "set (ls j) \<inter> set (ls i) = {}" by blast
    with holds_rep [OF h] show "rep s' (qs j) (ls j)" by (rule p(4))
    from d fresh show "set (ls i @ [x]) \<inter> set (ls j) = {}" by auto
  qed (use p(3) holds_split [OF h, of i] in auto)
  with p(1) show ?thesis by blast
qed

lemma pop_holds:
  assumes h: "holds rep members s qs ls" and i: "ls i = x # xs"
  shows "\<exists>q' s'. pop (qs i) s = Inr (Some x, q', s') \<and> holds rep members s' (qs(i := q')) (ls(i := xs))"
proof -
  note r = holds_rep [OF h, of i]
  with i pop_cons [of s "qs i" x xs] obtain q' s' where p: "pop (qs i) s = Inr (Some x, q', s')"
    "rep s' q' xs" "members s' = members s - {x}"
    "\<And>q2 ys. rep s q2 ys \<Longrightarrow> x \<notin> set ys \<Longrightarrow> rep s' q2 ys" by auto
  from rep_members [OF r] i have x: "x \<notin> set xs" by auto
  have "holds rep members s' (qs(i := q')) (ls(i := xs))"
  proof (rule holds_update [OF h p(2)])
    fix j assume "j \<noteq> i"
    with holds_disj [OF h] have d: "set (ls j) \<inter> set (ls i) = {}" by blast
    with i have "x \<notin> set (ls j)" by auto
    with holds_rep [OF h] show "rep s' (qs j) (ls j)" by (rule p(4))
    from d i show "set xs \<inter> set (ls j) = {}" by auto
  next
    have "x \<notin> (\<Union>j\<in>-{i}. set (ls j))" using i holds_disj [OF h, of _ i] by auto
    then show "members s' = set xs \<union> (\<Union>j\<in>-{i}. set (ls j))"
      using p(3) holds_split [OF h, of i] i x by auto
  qed
  with p(1) show ?thesis by blast
qed

lemma remove_holds:
  assumes h: "holds rep members s qs ls"
  shows "\<exists>q' s'. remove x (qs i) s = Some (Inr (q', s')) \<and>
           holds rep members s' (qs(i := q')) (ls(i := remove1 x (ls i)))"
proof -
  note r = holds_rep [OF h, of i]
  from remove_law [OF r, of x] obtain q' s' where p: "remove x (qs i) s = Some (Inr (q', s'))"
    "rep s' q' (remove1 x (ls i))"
    "members s' = (if x \<in> set (ls i) then members s - {x} else members s)"
    "\<And>q2 ys. rep s q2 ys \<Longrightarrow> set ys \<inter> set (ls i) = {} \<Longrightarrow> rep s' q2 ys" by blast
  from rep_members [OF r] have st: "set (remove1 x (ls i)) = set (ls i) - {x}"
    by (simp add: set_remove1_eq)
  have "holds rep members s' (qs(i := q')) (ls(i := remove1 x (ls i)))"
  proof (rule holds_update [OF h p(2)])
    fix j assume "j \<noteq> i"
    with holds_disj [OF h] have d: "set (ls j) \<inter> set (ls i) = {}" by blast
    with holds_rep [OF h] show "rep s' (qs j) (ls j)" by (rule p(4))
    from d st show "set (remove1 x (ls i)) \<inter> set (ls j) = {}" by auto
  next
    have "x \<in> set (ls i) \<Longrightarrow> x \<notin> (\<Union>j\<in>-{i}. set (ls j))" using holds_disj [OF h, of _ i] by auto
    then show "members s' = set (remove1 x (ls i)) \<union> (\<Union>j\<in>-{i}. set (ls j))"
      unfolding st p(3) using holds_split [OF h, of i] by auto
  qed
  with p(1) show ?thesis by blast
qed

lemma queues_step_holds:
  assumes h: "holds rep members s qs ls"
  shows "\<exists>qs' s'. queues_step push pop remove c qs s = Inr (fst (lists_step c ls), qs', s') \<and>
           holds rep members s' qs' (snd (lists_step c ls))"
proof (cases c)
  case (Push i x)
  show ?thesis
  proof (cases "x \<in> members s")
    case True
    then have "\<exists>j. x \<in> set (ls j)" using h by (simp add: holds_def)
    with True h Push show ?thesis by (simp add: push_member)
  next
    case False
    then have "\<And>j. x \<notin> set (ls j)" using h by (simp add: holds_def)
    with push_holds [OF h False, of i] Push show ?thesis by auto
  qed
next
  case (Pop i)
  show ?thesis
  proof (cases "ls i")
    case Nil
    with holds_rep [OF h, of i] Pop h show ?thesis by (auto simp: pop_nil)
  next
    case (Cons x xs)
    with pop_holds [OF h Cons] Pop show ?thesis by auto
  qed
next
  case (Remove i x)
  with remove_holds [OF h, of x i] show ?thesis by auto
qed

lemma queues_run_holds:
  "holds rep members s qs ls \<Longrightarrow>
   \<exists>qs' s'. queues_run push pop remove cs qs s = Inr (fst (lists_run cs ls), qs', s') \<and>
     holds rep members s' qs' (snd (lists_run cs ls))"
proof (induction cs arbitrary: qs s ls)
  case Nil
  then show ?case by simp
next
  case (Cons c cs)
  from queues_step_holds [OF Cons.prems, of c] obtain qs1 s1 where
    c: "queues_step push pop remove c qs s = Inr (fst (lists_step c ls), qs1, s1)"
    "holds rep members s1 qs1 (snd (lists_step c ls))" by blast
  from Cons.IH [OF c(2)] c(1) show ?case by (auto simp: Let_def split_beta)
qed

lemma cancelled_never_popped:
  assumes "rep s q xs" and "length xs < n"
  shows "\<exists>q1 s1 q2 s2 ys. remove x q s = Some (Inr (q1, s1)) \<and>
           drain pop n q1 s1 = Inr (ys, q2, s2) \<and> x \<notin> set ys \<and> ys = remove1 x xs"
proof -
  from remove_law [OF assms(1), of x] obtain q1 s1 where
    r: "remove x q s = Some (Inr (q1, s1))" "rep s1 q1 (remove1 x xs)" by auto
  from assms have "length (remove1 x xs) < n"
    by (auto simp: length_remove1)
  from drain_all [OF r(2) this] obtain q2 s2 where
    "drain pop n q1 s1 = Inr (remove1 x xs, q2, s2)" by auto
  moreover from rep_members [OF assms(1)] have "x \<notin> set (remove1 x xs)"
    by (simp add: set_remove1_eq)
  ultimately show ?thesis using r by blast
qed

end

interpretation nq: removable_fifo NetQueue_Init NetQueue_Push NetQueue_Pop queue_rep linked
  NetQueue_Remove
proof (unfold_locales, goal_cases)
  case 1
  show ?case by (rule Init_rep)
next
  case (2 s q xs)
  then show ?case using queue_rep_linked [OF 2] by (simp add: queue_rep_def)
next
  case (3 x s q)
  then show ?case by (rule Push_linked)
next
  case (4 s q xs x)
  from Push_fresh_frame [OF this] obtain q' nx' where p: "NetQueue_Push x q s = Inr (q', nx')"
    "queue_rep nx' q' (xs @ [x])" "linked nx' = insert x (linked s)"
    "\<And>y. y \<notin> set xs \<Longrightarrow> y \<noteq> x \<Longrightarrow> nx' y = s y" by auto
  have "queue_rep nx' q2 ys" if "queue_rep s q2 ys" "set ys \<inter> set xs = {}" for q2 ys
  proof -
    have "nx' y = s y" if "y \<in> set ys" for y
      using that \<open>set ys \<inter> set xs = {}\<close> 4(2) queue_rep_linked [OF \<open>queue_rep s q2 ys\<close>]
      by (intro p(4)) auto
    with that(1) show ?thesis using queue_rep_frame [of ys nx' s q2] by simp
  qed
  with p show ?case by blast
next
  case (5 s q)
  then show ?case by (rule Pop_nil)
next
  case (6 s q x xs)
  from Pop_cons_frame [OF this] obtain q' where
    "NetQueue_Pop q s = Inr (Some x, q', s(x := NOT_IN_QUEUE))"
    "queue_rep (s(x := NOT_IN_QUEUE)) q' xs" by blast
  moreover have "queue_rep (s(x := NOT_IN_QUEUE)) q2 ys"
    if "queue_rep s q2 ys" "x \<notin> set ys" for q2 ys
    using that by (auto simp: queue_rep_def)
  ultimately show ?case by (auto simp: linked_def)
next
  case (7 s q xs x)
  from Remove_frame [OF this, of x] obtain q' nx' where r:
    "NetQueue_Remove x q s = Some (Inr (q', nx'))" "queue_rep nx' q' (remove1 x xs)"
    "linked nx' = (if x \<in> set xs then linked s - {x} else linked s)"
    "\<And>y. y \<notin> set xs \<Longrightarrow> nx' y = s y" by auto
  have "queue_rep nx' q2 ys" if "queue_rep s q2 ys" "set ys \<inter> set xs = {}" for q2 ys
    using that r(4) queue_rep_frame [of ys nx' s q2] by auto
  with r show ?case by blast
qed

section \<open>Properties\<close>

text \<open>C10: Refinement of the intrusive queues. Take any number of queues that share the
  \<open>next_\<close> fields, holding pairwise disjoint lists of items that account for every linked item.
  Any sequence of Push, Pop and Remove on them returns exactly what the same operations
  on lists return (a push of an item that is in some queue does nothing; otherwise it
  appends; Pop takes the front; Remove deletes the item), never follows a bad pointer,
  always ends (Remove's loop included), and the queues again hold the resulting lists.\<close>

theorem queue_operations_refine_lists:
  assumes "holds queue_rep linked nx qs ls"
  shows "\<exists>qs' nx'. queues_run NetQueue_Push NetQueue_Pop NetQueue_Remove cs qs nx =
             Inr (fst (lists_run cs ls), qs', nx') \<and>
           holds queue_rep linked nx' qs' (snd (lists_run cs ls))"
  using assms by (rule nq.queues_run_holds)

lemma all_empty_holds: "holds queue_rep linked (\<lambda>_. NOT_IN_QUEUE) (\<lambda>_. NetQueue_Init) (\<lambda>_. [])"
  by (simp add: holds_def Init_rep linked_def)

theorem queue_operations_refine_lists_witness:
  "\<exists>qs' nx'. queues_run NetQueue_Push NetQueue_Pop NetQueue_Remove
       [Push True 1, Push True 2, Push False 1, Push True 3, Remove True (2::nat), Pop True, Pop False, Pop True]
       (\<lambda>_. NetQueue_Init) (\<lambda>_. NOT_IN_QUEUE) =
     Inr ([None, None, None, None, None, Some 1, None, Some 3], qs', nx')"
proof -
  let ?cs = "[Push True 1, Push True 2, Push False 1, Push True 3, Remove True (2::nat), Pop True, Pop False, Pop True]"
  have "fst (lists_run ?cs (\<lambda>_. [])) = [None, None, None, None, None, Some 1, None, Some 3]"
    by (auto split: if_splits)
  with queue_operations_refine_lists [OF all_empty_holds, of ?cs] show ?thesis by metis
qed

text \<open>First in, first out. Pushing fresh items on an empty queue and popping until Pop returns
  null gives the items in the order they were pushed; the queue is empty again and exactly
  the items that were linked before are linked after.\<close>

theorem queue_first_in_first_out:
  assumes "queue_rep nx q []" and "distinct ys" and "set ys \<inter> linked nx = {}"
  shows "\<exists>q1 nx1 q2 nx2. push_all NetQueue_Push ys q nx = Inr (q1, nx1) \<and>
           drain NetQueue_Pop (Suc (length ys)) q1 nx1 = Inr (ys, q2, nx2) \<and>
           queue_rep nx2 q2 [] \<and> linked nx2 = linked nx"
  using assms by (rule nq.first_in_first_out)

theorem queue_first_in_first_out_witness:
  "\<exists>q1 nx1 q2 nx2. push_all NetQueue_Push ''abc'' NetQueue_Init (\<lambda>_. NOT_IN_QUEUE) = Inr (q1, nx1) \<and>
     drain NetQueue_Pop 4 q1 nx1 = Inr (''abc'', q2, nx2)"
  using queue_first_in_first_out [of "\<lambda>_. NOT_IN_QUEUE" NetQueue_Init "''abc''"]
  by (auto simp: Init_rep linked_def eval_nat_numeral)

text \<open>A cancelled item is not popped. Remove ends and takes the item out of the queue; the pops
  that follow return the other items in their order and never the removed one.\<close>

theorem queue_removed_never_popped:
  assumes "queue_rep nx q xs" and "length xs < n"
  shows "\<exists>q1 nx1 q2 nx2 ys. NetQueue_Remove x q nx = Some (Inr (q1, nx1)) \<and>
           drain NetQueue_Pop n q1 nx1 = Inr (ys, q2, nx2) \<and> x \<notin> set ys \<and> ys = remove1 x xs"
  using assms by (rule nq.cancelled_never_popped)

theorem queue_removed_never_popped_witness:
  "\<exists>q1 nx1 q2 nx2.
     NetQueue_Remove 2 \<lparr>q_head = At 1, q_tail = At (3::nat)\<rparr>
       (\<lambda>x. if x = 1 then At 2 else if x = 2 then At 3 else if x = 3 then NULL else NOT_IN_QUEUE) =
       Some (Inr (q1, nx1)) \<and>
     drain NetQueue_Pop 4 q1 nx1 = Inr ([1, 3], q2, nx2)"
  using queue_removed_never_popped
    [of "\<lambda>x. if x = 1 then At 2 else if x = 2 then At 3 else if x = 3 then NULL else NOT_IN_QUEUE"
        "\<lparr>q_head = At 1, q_tail = At (3::nat)\<rparr>" "[1, 2, 3]" 4 2]
  by (auto simp: queue_rep_def)

end
