(* ===== verification/Constants.thy ===== *)
theory Constants
  imports Main
begin

text \<open>
  The named constants of \<open>src/utils.h\<close> (states, actions, sources and event types of
  the state machines, poller flags, sizes) at their values, and the Linux error
  numbers the code tests. The code dispatches on plain \<open>int\<close>s whose ranges overlap
  (an action type, a worker task type and a poller event share the value 1), so the
  constants stay integers here: the overlaps are part of the behaviour.
\<close>

section \<open>State machines (utils.h)\<close>

abbreviation (input) kNetFsmAction :: int where "kNetFsmAction \<equiv> - 2"
abbreviation (input) kNetFsmStart :: int where "kNetFsmStart \<equiv> - 2"
abbreviation (input) kNetFsmStop :: int where "kNetFsmStop \<equiv> - 3"

abbreviation (input) kNetFsmStateIdle :: int where "kNetFsmStateIdle \<equiv> 1"
abbreviation (input) kNetFsmStateActive :: int where "kNetFsmStateActive \<equiv> 2"
abbreviation (input) kNetFsmStateStopping :: int where "kNetFsmStateStopping \<equiv> 3"

abbreviation (input) kNetSockStateIdle :: int where "kNetSockStateIdle \<equiv> 1"
abbreviation (input) kNetSockStateStarting :: int where "kNetSockStateStarting \<equiv> 2"
abbreviation (input) kNetSockStateBeingAccepted :: int where "kNetSockStateBeingAccepted \<equiv> 3"
abbreviation (input) kNetSockStateAccepted :: int where "kNetSockStateAccepted \<equiv> 4"
abbreviation (input) kNetSockStateConnecting :: int where "kNetSockStateConnecting \<equiv> 5"
abbreviation (input) kNetSockStateActive :: int where "kNetSockStateActive \<equiv> 6"
abbreviation (input) kNetSockStateRemovingFd :: int where "kNetSockStateRemovingFd \<equiv> 7"
abbreviation (input) kNetSockStateDone :: int where "kNetSockStateDone \<equiv> 8"
abbreviation (input) kNetSockStateListening :: int where "kNetSockStateListening \<equiv> 9"
abbreviation (input) kNetSockStateAccepting :: int where "kNetSockStateAccepting \<equiv> 10"
abbreviation (input) kNetSockStateCancelling :: int where "kNetSockStateCancelling \<equiv> 11"
abbreviation (input) kNetSockStateStopping :: int where "kNetSockStateStopping \<equiv> 12"
abbreviation (input) kNetSockStateStoppingAccept :: int where "kNetSockStateStoppingAccept \<equiv> 13"
abbreviation (input) kNetSockStateAcceptingError :: int where "kNetSockStateAcceptingError \<equiv> 14"

abbreviation (input) kNetSockActionAccept :: int where "kNetSockActionAccept \<equiv> 1"
abbreviation (input) kNetSockActionBeingAccepted :: int where "kNetSockActionBeingAccepted \<equiv> 2"
abbreviation (input) kNetSockActionCancel :: int where "kNetSockActionCancel \<equiv> 3"
abbreviation (input) kNetSockActionListen :: int where "kNetSockActionListen \<equiv> 4"
abbreviation (input) kNetSockActionConnect :: int where "kNetSockActionConnect \<equiv> 5"
abbreviation (input) kNetSockActionActivate :: int where "kNetSockActionActivate \<equiv> 6"
abbreviation (input) kNetSockActionDone :: int where "kNetSockActionDone \<equiv> 7"
abbreviation (input) kNetSockActionError :: int where "kNetSockActionError \<equiv> 8"
abbreviation (input) kNetSockActionStarted :: int where "kNetSockActionStarted \<equiv> 9"

section \<open>Sources and event types\<close>

abbreviation (input) kNetSockSrcFd :: int where "kNetSockSrcFd \<equiv> 1"
abbreviation (input) kNetSockSrcTaskConnecting :: int where "kNetSockSrcTaskConnecting \<equiv> 2"
abbreviation (input) kNetSockSrcTaskConnected :: int where "kNetSockSrcTaskConnected \<equiv> 3"
abbreviation (input) kNetSockSrcTaskAccept :: int where "kNetSockSrcTaskAccept \<equiv> 4"
abbreviation (input) kNetSockSrcTaskSend :: int where "kNetSockSrcTaskSend \<equiv> 5"
abbreviation (input) kNetSockSrcTaskRecv :: int where "kNetSockSrcTaskRecv \<equiv> 6"
abbreviation (input) kNetSockSrcTaskStop :: int where "kNetSockSrcTaskStop \<equiv> 7"

abbreviation (input) kNetSockEventTypeConnected :: int where "kNetSockEventTypeConnected \<equiv> 1"
abbreviation (input) kNetSockEventTypeAccepted :: int where "kNetSockEventTypeAccepted \<equiv> 2"
abbreviation (input) kNetSockEventTypeSent :: int where "kNetSockEventTypeSent \<equiv> 3"
abbreviation (input) kNetSockEventTypeReceived :: int where "kNetSockEventTypeReceived \<equiv> 4"
abbreviation (input) kNetSockEventTypeError :: int where "kNetSockEventTypeError \<equiv> 5"
abbreviation (input) kNetSockEventTypeAcceptError :: int where "kNetSockEventTypeAcceptError \<equiv> 6"
abbreviation (input) kNetSockEventTypeStopped :: int where "kNetSockEventTypeStopped \<equiv> 7"
abbreviation (input) kNetSockEventTypeShutdown :: int where "kNetSockEventTypeShutdown \<equiv> 8"

section \<open>Poller, worker, device, pool\<close>

abbreviation (input) kNetSocketBufferSize :: nat where "kNetSocketBufferSize \<equiv> 128"

abbreviation (input) kNetPollerIn :: int where "kNetPollerIn \<equiv> 1"
abbreviation (input) kNetPollerOut :: int where "kNetPollerOut \<equiv> 2"
abbreviation (input) kNetPollerErr :: int where "kNetPollerErr \<equiv> 3"
abbreviation (input) kNetPollerMaxEvents :: int where "kNetPollerMaxEvents \<equiv> 32"

abbreviation (input) kNetWorkerFdIn :: int where "kNetWorkerFdIn \<equiv> kNetPollerIn"
abbreviation (input) kNetWorkerFdOut :: int where "kNetWorkerFdOut \<equiv> kNetPollerOut"
abbreviation (input) kNetWorkerFdErr :: int where "kNetWorkerFdErr \<equiv> kNetPollerErr"
abbreviation (input) kNetWorkerTaskExecute :: int where "kNetWorkerTaskExecute \<equiv> 1"

abbreviation (input) kNetDeviceSrcWorkerTaskExecute :: int where "kNetDeviceSrcWorkerTaskExecute \<equiv> 1"
abbreviation (input) kNetDeviceSrcSocketEvent :: int where "kNetDeviceSrcSocketEvent \<equiv> 2"
abbreviation (input) kListenBacklog :: int where "kListenBacklog \<equiv> 100"
abbreviation (input) kNetMsgCmdRead :: int where "kNetMsgCmdRead \<equiv> 1"
abbreviation (input) kNetWorkerNum :: nat where "kNetWorkerNum \<equiv> 4"

section \<open>Error numbers of Linux that the code compares with\<close>

abbreviation (input) EINTR :: int where "EINTR \<equiv> 4"
abbreviation (input) EAGAIN :: int where "EAGAIN \<equiv> 11"
abbreviation (input) EWOULDBLOCK :: int where "EWOULDBLOCK \<equiv> EAGAIN"
abbreviation (input) ENOMEM :: int where "ENOMEM \<equiv> 12"
abbreviation (input) ENFILE :: int where "ENFILE \<equiv> 23"
abbreviation (input) EMFILE :: int where "EMFILE \<equiv> 24"
abbreviation (input) ECONNABORTED :: int where "ECONNABORTED \<equiv> 103"
abbreviation (input) ECONNRESET :: int where "ECONNRESET \<equiv> 104"
abbreviation (input) ENOBUFS :: int where "ENOBUFS \<equiv> 105"
abbreviation (input) ETIMEDOUT :: int where "ETIMEDOUT \<equiv> 110"
abbreviation (input) EINPROGRESS :: int where "EINPROGRESS \<equiv> 115"

end
