(* ===== verification/Kernel.thy ===== *)
theory Kernel
  imports Prelude Constants
begin

unbundle bit_operations_syntax

text \<open>
  The boundary to the operating system and to the user of the library. The kernel is
  not part of the sources: a system call is recorded in a trace (newest first) and
  its result is asked from a parameter \<open>os\<close>, a function of the whole trace. A theorem
  about an arbitrary \<open>os\<close> therefore covers every sequence of results, and what a
  theorem needs of the kernel's documented behaviour is a named predicate on \<open>os\<close>.
\<close>

section \<open>System calls\<close>

type_synonym byte = "8 word"
type_synonym fd = int

text \<open>A pointer to a \<open>NetPollerHandle\<close>: the eventfd handle of a worker or the one
  inside the \<open>NetWorkerFd\<close> of a socket.\<close>

datatype hptr = HEfd nat | HSock nat

text \<open>\<open>struct sockaddr_in\<close>, the fields \<open>IsIpEqual\<close> compares.\<close>

record sockaddr =
  sin_family :: "16 word"
  sin_port :: "16 word"
  s_addr :: "32 word"

datatype fcntl_cmd = F_SETFD | F_GETFL | F_SETFL
datatype epoll_op = EPOLL_CTL_ADD | EPOLL_CTL_DEL | EPOLL_CTL_MOD

datatype syscall =
    Sys_close fd
  | Sys_eventfd
  | Sys_fcntl fd fcntl_cmd int
  | Sys_write fd "byte list"
  | Sys_read fd "64 word"
  | Sys_epoll_create
  | Sys_epoll_ctl fd epoll_op fd "(hptr \<times> 32 word) option"
  | Sys_epoll_wait fd int int
  | Sys_socket int int int
  | Sys_setsockopt fd int int
  | Sys_bind fd sockaddr
  | Sys_listen fd int
  | Sys_connect fd sockaddr
  | Sys_accept4 fd
  | Sys_getsockopt_error fd

text \<open>
  The result of a call: the returned value, \<open>errno\<close>, and what the kernel stored through
  the pointers of the call (bytes of a \<open>read\<close>, events of \<open>epoll_wait\<close>, the value of
  \<open>SO_ERROR\<close>).
\<close>

record sysres =
  sr_ret :: int
  sr_errno :: int
  sr_data :: "byte list"
  sr_events :: "(hptr \<times> 32 word) list"
  sr_opt :: int

type_synonym trace = "syscall list"
type_synonym os = "trace \<Rightarrow> sysres"

definition sysret :: "int \<Rightarrow> sysres" where
  "sysret n = \<lparr>sr_ret = n, sr_errno = 0, sr_data = [], sr_events = [], sr_opt = 0\<rparr>"

definition syserr :: "int \<Rightarrow> sysres" where
  "syserr e = \<lparr>sr_ret = - 1, sr_errno = e, sr_data = [], sr_events = [], sr_opt = 0\<rparr>"

definition sysdata :: "byte list \<Rightarrow> sysres" where
  "sysdata bs = \<lparr>sr_ret = int (length bs), sr_errno = 0, sr_data = bs, sr_events = [], sr_opt = 0\<rparr>"

section \<open>Flags of Linux\<close>

abbreviation (input) EPOLLIN :: "32 word" where "EPOLLIN \<equiv> 1"
abbreviation (input) EPOLLOUT :: "32 word" where "EPOLLOUT \<equiv> 4"
abbreviation (input) FD_CLOEXEC :: int where "FD_CLOEXEC \<equiv> 1"
abbreviation (input) O_NONBLOCK :: int where "O_NONBLOCK \<equiv> 2048"
abbreviation (input) SOCK_CLOEXEC :: int where "SOCK_CLOEXEC \<equiv> 524288"
abbreviation (input) AF_INET :: int where "AF_INET \<equiv> 2"
abbreviation (input) SOCK_STREAM :: int where "SOCK_STREAM \<equiv> 1"
abbreviation (input) SOL_SOCKET :: int where "SOL_SOCKET \<equiv> 1"
abbreviation (input) SO_REUSEADDR :: int where "SO_REUSEADDR \<equiv> 2"

section \<open>User memory\<close>

text \<open>The memory that messages are sent from and received into.\<close>

type_synonym addr = "64 word"
type_synonym memory = "addr \<Rightarrow> byte"

primrec read_mem :: "memory \<Rightarrow> addr \<Rightarrow> nat \<Rightarrow> byte list" where
  "read_mem m a 0 = []"
| "read_mem m a (Suc n) = m a # read_mem m (a + 1) n"

primrec write_mem :: "addr \<Rightarrow> byte list \<Rightarrow> memory \<Rightarrow> memory" where
  "write_mem a [] m = m"
| "write_mem a (b # bs) m = write_mem (a + 1) bs (m(a := b))"

lemma length_read_mem [simp]: "length (read_mem m a n) = n"
  by (induction n arbitrary: a) auto

lemma drop_read_mem: "drop k (read_mem m a n) = read_mem m (a + of_nat k) (n - k)"
proof (induction k arbitrary: a n)
  case (Suc k)
  then show ?case by (cases n) (simp_all add: algebra_simps)
qed simp

lemma write_mem_append:
  "write_mem a (xs @ ys) m = write_mem (a + of_nat (length xs)) ys (write_mem a xs m)"
  by (induction xs arbitrary: a m) (simp_all add: algebra_simps)

text \<open>
  What the code relies on when it opens an empty user record: the callbacks the user
  installs in \<open>NetDevice::Init\<close> (device.h, lines 36--39).
\<close>

record user =
  u_Token2Dptr :: "64 word \<Rightarrow> addr"
  u_Token2DptrSize :: "64 word \<Rightarrow> 64 word"
  u_Token2Ip :: "64 word \<Rightarrow> sockaddr"

section \<open>Closing a descriptor (utils.cpp)\<close>

definition NetCloseFd :: "os \<Rightarrow> fd \<Rightarrow> trace \<Rightarrow> trace res" where
  "NetCloseFd os f tr =
     (if f < 0 then Inr tr
      else
        let tr1 = Sys_close f # tr; r = os tr1 in
        if sr_ret r = 0 then Inr tr1
        else CHECK ''errno'' (sr_errno r = EINTR \<or> sr_errno r = ETIMEDOUT \<or> sr_errno r = EWOULDBLOCK
               \<or> sr_errno r = EINPROGRESS \<or> sr_errno r = ECONNRESET) tr1)"

end
