(* ===== verification/Netpoller.thy ===== *)
theory Netpoller
  imports Kernel
begin

unbundle bit_operations_syntax

text \<open>
  \<open>src/poller.h\<close> and \<open>src/poller.cpp\<close>: the epoll wrapper of a worker. A \<open>NetPollerHandle\<close>
  remembers the mask it asked the kernel for; \<open>NetPoller\<close> holds the epoll descriptor
  and the array the last \<open>epoll_wait\<close> filled, with the position of the next entry to
  report. The array has 32 entries and an access outside it is undefined.
\<close>

section \<open>State\<close>

record phandle =
  h_fd :: int
  h_events :: "32 word"

record npoller =
  p_ep :: int
  p_nevents :: int
  p_index :: int
  p_events :: "(hptr \<times> 32 word) list"

section \<open>Operations\<close>

definition NetPoller_Init :: "os \<Rightarrow> npoller \<Rightarrow> trace \<Rightarrow> (int \<times> npoller \<times> trace) res" where
  "NetPoller_Init os p tr =
     (let tr1 = Sys_epoll_create # tr; r1 = os tr1; ep = sr_ret r1;
          tr2 = Sys_fcntl ep F_SETFD FD_CLOEXEC # tr1; r2 = os tr2;
          p1 = p\<lparr>p_ep := ep\<rparr>
      in andThen (CHECK ''rc != -1'' (sr_ret r2 \<noteq> - 1) ()) (\<lambda>_.
         if ep = - 1 \<and> (sr_errno r1 = ENFILE \<or> sr_errno r1 = EMFILE) then Inr (- EMFILE, p1, tr2)
         else Inr (0, p1\<lparr>p_nevents := 0, p_index := 0\<rparr>, tr2)))"

definition NetPoller_Terminate :: "os \<Rightarrow> npoller \<Rightarrow> trace \<Rightarrow> trace res" where
  "NetPoller_Terminate os p tr = NetCloseFd os (p_ep p) tr"

definition NetPoller_Add :: "npoller \<Rightarrow> fd \<Rightarrow> hptr \<Rightarrow> phandle \<Rightarrow> trace \<Rightarrow> phandle \<times> trace" where
  "NetPoller_Add p f hp h tr =
     (h\<lparr>h_fd := f, h_events := 0\<rparr>,
      Sys_epoll_ctl (p_ep p) EPOLL_CTL_ADD f (Some (hp, 0)) # tr)"

definition set_mask :: "(32 word \<Rightarrow> 32 word) \<Rightarrow> int \<Rightarrow> npoller \<Rightarrow> npoller" where
  "set_mask f i p = p\<lparr>p_events := (p_events p)[nat i := map_prod id f (p_events p ! nat i)]\<rparr>"

definition in_bounds :: "int \<Rightarrow> npoller \<Rightarrow> bool" where
  "in_bounds i p \<longleftrightarrow> 0 \<le> i \<and> i < int (length (p_events p))"

text \<open>
  The two loops that invalidate pending events of a handle: \<open>for (i; i < nevents_; ++i)\<close>
  in Rm, \<open>for (i; i != nevents_; ++i)\<close> in ResetIn and ResetOut.
\<close>

function invalidate_lt :: "(32 word \<Rightarrow> 32 word) \<Rightarrow> hptr \<Rightarrow> int \<Rightarrow> npoller \<Rightarrow> npoller res" where
  "invalidate_lt f hp i p =
     (if i < p_nevents p then
        if in_bounds i p then
          invalidate_lt f hp (i + 1) (if fst (p_events p ! nat i) = hp then set_mask f i p else p)
        else Inl (OutOfBounds ''events_'')
      else Inr p)"
  by pat_completeness auto
termination
  by (relation "measure (\<lambda>(f, hp, i, p). nat (int (length (p_events p)) - i))")
    (auto simp: in_bounds_def set_mask_def)

function invalidate_ne :: "(32 word \<Rightarrow> 32 word) \<Rightarrow> hptr \<Rightarrow> int \<Rightarrow> npoller \<Rightarrow> npoller res" where
  "invalidate_ne f hp i p =
     (if i \<noteq> p_nevents p then
        if in_bounds i p then
          invalidate_ne f hp (i + 1) (if fst (p_events p ! nat i) = hp then set_mask f i p else p)
        else Inl (OutOfBounds ''events_'')
      else Inr p)"
  by pat_completeness auto
termination
  by (relation "measure (\<lambda>(f, hp, i, p). nat (int (length (p_events p)) - i))")
    (auto simp: in_bounds_def set_mask_def)

declare invalidate_lt.simps [simp del] invalidate_ne.simps [simp del]

definition NetPoller_Rm :: "npoller \<Rightarrow> hptr \<Rightarrow> phandle \<Rightarrow> trace \<Rightarrow> (npoller \<times> trace) res" where
  "NetPoller_Rm p hp h tr =
     andThen (invalidate_lt (\<lambda>_. 0) hp (p_index p) p) (\<lambda>p1.
     Inr (p1, Sys_epoll_ctl (p_ep p) EPOLL_CTL_DEL (h_fd h) None # tr))"

definition NetPoller_SetIn :: "npoller \<Rightarrow> hptr \<Rightarrow> phandle \<Rightarrow> trace \<Rightarrow> phandle \<times> trace" where
  "NetPoller_SetIn p hp h tr =
     (if h_events h AND EPOLLIN \<noteq> 0 then (h, tr)
      else
        let h1 = h\<lparr>h_events := h_events h OR EPOLLIN\<rparr>
        in (h1, Sys_epoll_ctl (p_ep p) EPOLL_CTL_MOD (h_fd h1) (Some (hp, h_events h1)) # tr))"

definition NetPoller_ResetIn ::
  "npoller \<Rightarrow> hptr \<Rightarrow> phandle \<Rightarrow> trace \<Rightarrow> (npoller \<times> phandle \<times> trace) res" where
  "NetPoller_ResetIn p hp h tr =
     (if \<not> (h_events h AND EPOLLIN \<noteq> 0) then Inr (p, h, tr)
      else
        let h1 = h\<lparr>h_events := h_events h AND NOT EPOLLIN\<rparr>;
            tr1 = Sys_epoll_ctl (p_ep p) EPOLL_CTL_MOD (h_fd h1) (Some (hp, h_events h1)) # tr
        in andThen (invalidate_ne (\<lambda>e. e AND NOT EPOLLIN) hp (p_index p) p) (\<lambda>p1.
           Inr (p1, h1, tr1)))"

definition NetPoller_SetOut :: "npoller \<Rightarrow> hptr \<Rightarrow> phandle \<Rightarrow> trace \<Rightarrow> phandle \<times> trace" where
  "NetPoller_SetOut p hp h tr =
     (if h_events h AND EPOLLOUT \<noteq> 0 then (h, tr)
      else
        let h1 = h\<lparr>h_events := h_events h OR EPOLLOUT\<rparr>
        in (h1, Sys_epoll_ctl (p_ep p) EPOLL_CTL_MOD (h_fd h1) (Some (hp, h_events h1)) # tr))"

definition NetPoller_ResetOut ::
  "npoller \<Rightarrow> hptr \<Rightarrow> phandle \<Rightarrow> trace \<Rightarrow> (npoller \<times> phandle \<times> trace) res" where
  "NetPoller_ResetOut p hp h tr =
     (if \<not> (h_events h AND EPOLLOUT \<noteq> 0) then Inr (p, h, tr)
      else
        let h1 = h\<lparr>h_events := h_events h AND NOT EPOLLOUT\<rparr>;
            tr1 = Sys_epoll_ctl (p_ep p) EPOLL_CTL_MOD (h_fd h1) (Some (hp, h_events h1)) # tr
        in andThen (invalidate_ne (\<lambda>e. e AND NOT EPOLLOUT) hp (p_index p) p) (\<lambda>p1.
           Inr (p1, h1, tr1)))"

text \<open>The retry loop of Wait: it goes on while \<open>epoll_wait\<close> is interrupted.\<close>

partial_function (option) wait_loop :: "os \<Rightarrow> int \<Rightarrow> int \<Rightarrow> trace \<Rightarrow> (sysres \<times> trace) option" where
  "wait_loop os ep timeout tr =
     (let tr1 = Sys_epoll_wait ep kNetPollerMaxEvents timeout # tr; r = os tr1 in
      if sr_ret r = - 1 \<and> sr_errno r = EINTR then wait_loop os ep timeout tr1
      else Some (r, tr1))"

text \<open>The kernel overwrites the front of the array with the events it reports.\<close>

definition fill_events :: "(hptr \<times> 32 word) list \<Rightarrow> npoller \<Rightarrow> npoller" where
  "fill_events es p = p\<lparr>p_events := es @ drop (length es) (p_events p)\<rparr>"

definition NetPoller_Wait :: "os \<Rightarrow> int \<Rightarrow> npoller \<Rightarrow> trace \<Rightarrow> (int \<times> npoller \<times> trace) res" where
  "NetPoller_Wait os timeout p tr =
     (let p1 = p\<lparr>p_nevents := 0, p_index := 0\<rparr> in
      case wait_loop os (p_ep p1) timeout tr of
        None \<Rightarrow> Inl (Diverges ''epoll_wait'')
      | Some (r, tr1) \<Rightarrow>
          let p2 = fill_events (sr_events r) p1 in
          andThen (CHECK ''nevents_ != -1'' (p_nevents p2 \<noteq> - 1) ()) (\<lambda>_.
          Inr (0, p2\<lparr>p_nevents := sr_ret r\<rparr>, tr1)))"

function skip_handled :: "npoller \<Rightarrow> npoller res" where
  "skip_handled p =
     (if p_index p < p_nevents p then
        if in_bounds (p_index p) p then
          if snd (p_events p ! nat (p_index p)) \<noteq> 0 then Inr p
          else skip_handled (p\<lparr>p_index := p_index p + 1\<rparr>)
        else Inl (OutOfBounds ''events_'')
      else Inr p)"
  by pat_completeness auto
termination
  by (relation "measure (\<lambda>p. nat (int (length (p_events p)) - p_index p))")
    (auto simp: in_bounds_def)

declare skip_handled.simps [simp del]

text \<open>The result of Event: the code, and for code 0 the event and the handle stored through the pointers.\<close>

definition NetPoller_Event :: "npoller \<Rightarrow> (int \<times> (int \<times> hptr) option \<times> npoller) res" where
  "NetPoller_Event p =
     andThen (skip_handled p) (\<lambda>p1.
       if p_index p1 \<ge> p_nevents p1 then Inr (- EAGAIN, None, p1)
       else
         let (hndl, mask) = p_events p1 ! nat (p_index p1) in
         if mask AND EPOLLIN \<noteq> 0 then
           Inr (0, Some (kNetPollerIn, hndl), set_mask (\<lambda>e. e AND NOT EPOLLIN) (p_index p1) p1)
         else if mask AND EPOLLOUT \<noteq> 0 then
           Inr (0, Some (kNetPollerOut, hndl), set_mask (\<lambda>e. e AND NOT EPOLLOUT) (p_index p1) p1)
         else
           Inr (0, Some (kNetPollerErr, hndl), p1\<lparr>p_index := p_index p1 + 1\<rparr>))"

section \<open>What is still to be reported\<close>

text \<open>
  One entry of the array stands for up to three reports, in this order: input, output,
  and an error for any other flag. \<open>pending p\<close> is the list of the reports that the
  calls of Event still have to make.
\<close>

definition reports :: "hptr \<times> 32 word \<Rightarrow> (int \<times> hptr) list" where
  "reports e = (case e of (h, m) \<Rightarrow>
     (if m AND EPOLLIN \<noteq> 0 then [(kNetPollerIn, h)] else []) @
     (if m AND EPOLLOUT \<noteq> 0 then [(kNetPollerOut, h)] else []) @
     (if m AND NOT EPOLLIN AND NOT EPOLLOUT \<noteq> 0 then [(kNetPollerErr, h)] else []))"

definition pending :: "npoller \<Rightarrow> (int \<times> hptr) list" where
  "pending p = concat (map reports (drop (nat (p_index p)) (take (nat (p_nevents p)) (p_events p))))"

definition poller_ok :: "npoller \<Rightarrow> bool" where
  "poller_ok p \<longleftrightarrow> length (p_events p) = 32 \<and> 0 \<le> p_index p \<and> p_index p \<le> p_nevents p \<and> p_nevents p \<le> 32"

lemma bit_1_32: "bit (1 :: 32 word) n \<longleftrightarrow> n = 0"
  by (simp add: bit_1_iff)

lemma bit_4_32: "bit (4 :: 32 word) n \<longleftrightarrow> n = 2"
proof -
  have e: "(4 :: 32 word) = push_bit 2 1" by simp
  show ?thesis unfolding e bit_push_bit_iff bit_1_iff by auto
qed

lemma in_mask_iff: "(m :: 32 word) AND 1 \<noteq> 0 \<longleftrightarrow> bit m 0"
  by (auto simp: word_eq_iff_bits bit_simps)

lemma out_mask_iff: "(m :: 32 word) AND 4 \<noteq> 0 \<longleftrightarrow> bit m 2"
proof -
  have "(m AND 4 \<noteq> 0) \<longleftrightarrow> (\<exists>n<32. bit (m AND 4) n)"
    by (simp add: word_eq_iff_bits)
  then show ?thesis unfolding bit_and_iff bit_4_32 by auto
qed

lemma err_mask_iff: "(m :: 32 word) AND NOT 1 AND NOT 4 \<noteq> 0 \<longleftrightarrow> (\<exists>n. bit m n \<and> n \<noteq> 0 \<and> n \<noteq> 2)"
proof -
  have "(m AND NOT 1 AND NOT 4 \<noteq> 0) \<longleftrightarrow> (\<exists>n<32. bit (m AND NOT 1 AND NOT 4) n)"
    by (simp add: word_eq_iff_bits)
  also have "\<dots> \<longleftrightarrow> (\<exists>n<32. bit m n \<and> n \<noteq> 0 \<and> n \<noteq> 2)"
    unfolding bit_and_iff bit_not_iff bit_4_32 bit_1_32 by auto
  also have "\<dots> \<longleftrightarrow> (\<exists>n. bit m n \<and> n \<noteq> 0 \<and> n \<noteq> 2)"
    using bit_imp_le_length [of m] by auto
  finally show ?thesis .
qed

lemma clear_in_bit: "bit ((m :: 32 word) AND NOT 1) n \<longleftrightarrow> bit m n \<and> n \<noteq> 0"
  unfolding bit_and_iff bit_not_iff bit_1_32 using bit_imp_le_length [of m n] by auto

lemma clear_out_bit: "bit ((m :: 32 word) AND NOT 4) n \<longleftrightarrow> bit m n \<and> n \<noteq> 2"
  unfolding bit_and_iff bit_not_iff bit_4_32 using bit_imp_le_length [of m n] by auto

lemmas mask_iffs = in_mask_iff out_mask_iff err_mask_iff
lemmas clear_bits = clear_in_bit clear_out_bit

lemma reports_zero [simp]: "reports (h, 0) = []"
  by (simp add: reports_def)

lemma reports_bits:
  "reports (h, m) =
     (if bit m 0 then [(kNetPollerIn, h)] else []) @
     (if bit m 2 then [(kNetPollerOut, h)] else []) @
     (if \<exists>n. bit m n \<and> n \<noteq> 0 \<and> n \<noteq> 2 then [(kNetPollerErr, h)] else [])"
  unfolding reports_def prod.case mask_iffs ..

lemma reports_in: "m AND 1 \<noteq> 0 \<Longrightarrow> reports (h, m) = (kNetPollerIn, h) # reports (h, m AND NOT 1)"
  unfolding reports_bits mask_iffs clear_bits by auto

lemma reports_out:
  assumes "m AND 1 = 0" and "m AND 4 \<noteq> 0"
  shows "reports (h, m) = (kNetPollerOut, h) # reports (h, m AND NOT 4)"
proof -
  have "\<not> bit m 0" "bit m 2" using assms in_mask_iff [of m] out_mask_iff [of m] by auto
  then show ?thesis unfolding reports_bits clear_bits by auto
qed

lemma reports_err:
  assumes "m AND 1 = 0" and "m AND 4 = 0" and "m \<noteq> 0"
  shows "reports (h, m) = [(kNetPollerErr, h)]"
proof -
  have "\<exists>n. bit m n" using assms(3) by (auto simp: word_eq_iff_bits)
  moreover have "\<not> bit m 0" "\<not> bit m 2"
    using assms(1,2) in_mask_iff [of m] out_mask_iff [of m] by auto
  ultimately have "m AND NOT 1 AND NOT 4 \<noteq> 0" unfolding err_mask_iff by metis
  with assms show ?thesis by (simp add: reports_def)
qed

lemma pending_cons:
  assumes "poller_ok p" and "p_index p < p_nevents p"
  shows "pending p = reports (p_events p ! nat (p_index p)) @ pending (p\<lparr>p_index := p_index p + 1\<rparr>)"
proof -
  let ?i = "nat (p_index p)" and ?xs = "take (nat (p_nevents p)) (p_events p)"
  from assms have "?i < length ?xs" by (auto simp: poller_ok_def)
  then have "drop ?i ?xs = ?xs ! ?i # drop (Suc ?i) ?xs"
    by (rule Cons_nth_drop_Suc [symmetric])
  moreover have "nat (p_index p + 1) = Suc ?i" using assms by (auto simp: poller_ok_def)
  moreover have "?xs ! ?i = p_events p ! ?i" using assms by (auto simp: poller_ok_def)
  ultimately show ?thesis by (simp add: pending_def)
qed

lemma pending_set_mask:
  assumes "poller_ok p" and "p_index p < p_nevents p"
  shows "pending (set_mask f (p_index p) p) =
           reports (map_prod id f (p_events p ! nat (p_index p))) @ pending (p\<lparr>p_index := p_index p + 1\<rparr>)"
proof -
  have "poller_ok (set_mask f (p_index p) p)" using assms by (simp add: poller_ok_def set_mask_def)
  from pending_cons [OF this] assms show ?thesis
    by (auto simp: set_mask_def poller_ok_def pending_def nat_add_distrib take_update_swap)
qed

lemma skip_handled_law:
  "poller_ok p \<Longrightarrow> \<exists>p'. skip_handled p = Inr p' \<and> poller_ok p' \<and> pending p' = pending p \<and>
     (p_index p' < p_nevents p' \<longrightarrow> snd (p_events p' ! nat (p_index p')) \<noteq> 0)"
proof (induction p rule: skip_handled.induct)
  case (1 p)
  show ?case
  proof (cases "p_index p < p_nevents p \<and> snd (p_events p ! nat (p_index p)) = 0")
    case False
    with 1 show ?thesis
      by (subst skip_handled.simps) (auto simp: in_bounds_def poller_ok_def)
  next
    case True
    let ?p = "p\<lparr>p_index := p_index p + 1\<rparr>"
    from True 1 have b: "in_bounds (p_index p) p" by (auto simp: in_bounds_def poller_ok_def)
    from True 1 have ok: "poller_ok ?p" by (auto simp: poller_ok_def)
    from True have "reports (p_events p ! nat (p_index p)) = []"
      by (cases "p_events p ! nat (p_index p)") auto
    with True 1 have "pending ?p = pending p" by (simp add: pending_cons [of p])
    with "1.IH" True b ok show ?thesis
      by (subst skip_handled.simps) auto
  qed
qed

lemma Event_law:
  assumes "poller_ok p"
  shows "\<exists>p'. poller_ok p' \<and> pending p' = tl (pending p) \<and>
           NetPoller_Event p = (case pending p of
               [] \<Rightarrow> Inr (- EAGAIN, None, p')
             | r # rs \<Rightarrow> Inr (0, Some r, p'))"
proof -
  from skip_handled_law [OF assms] obtain p1 where p1: "skip_handled p = Inr p1" "poller_ok p1"
    "pending p1 = pending p"
    "p_index p1 < p_nevents p1 \<Longrightarrow> snd (p_events p1 ! nat (p_index p1)) \<noteq> 0" by auto
  show ?thesis
  proof (cases "p_index p1 < p_nevents p1")
    case False
    then have "pending p = []" using p1(2,3) by (auto simp: pending_def poller_ok_def)
    with False p1 show ?thesis by (auto simp: NetPoller_Event_def)
  next
    case True
    obtain h m where e: "p_events p1 ! nat (p_index p1) = (h, m)" by fastforce
    with p1(4) True have m: "m \<noteq> 0" by auto
    let ?next = "pending (p1\<lparr>p_index := p_index p1 + 1\<rparr>)"
    have ok: "poller_ok (set_mask f (p_index p1) p1)" for f
      using p1(2) by (simp add: poller_ok_def set_mask_def)
    have ok': "poller_ok (p1\<lparr>p_index := p_index p1 + 1\<rparr>)"
      using p1(2) True by (simp add: poller_ok_def)
    have P: "pending p = reports (h, m) @ ?next"
      using pending_cons [OF p1(2) True] p1(3) e by simp
    consider "m AND 1 \<noteq> 0" | "m AND 1 = 0" "m AND 4 \<noteq> 0" | "m AND 1 = 0" "m AND 4 = 0" by blast
    then show ?thesis
    proof cases
      case 1
      then show ?thesis
        using p1(1) True e P ok pending_set_mask [OF p1(2) True] reports_in [OF 1, of h]
        by (auto simp: NetPoller_Event_def intro!: exI [of _ "set_mask (\<lambda>e. e AND NOT 1) (p_index p1) p1"])
    next
      case 2
      then show ?thesis
        using p1(1) True e P ok pending_set_mask [OF p1(2) True] reports_out [OF 2, of h]
        by (auto simp: NetPoller_Event_def intro!: exI [of _ "set_mask (\<lambda>e. e AND NOT 4) (p_index p1) p1"])
    next
      case 3
      then show ?thesis
        using p1(1) True e P ok' reports_err [OF 3 m, of h]
        by (auto simp: NetPoller_Event_def intro!: exI [of _ "p1\<lparr>p_index := p_index p1 + 1\<rparr>"])
    qed
  qed
qed

section \<open>Invalidation\<close>

text \<open>\<open>invalidated f hp i p\<close>: the array after a loop from \<open>i\<close> has applied \<open>f\<close> to the masks of \<open>hp\<close>.\<close>

definition hit :: "(32 word \<Rightarrow> 32 word) \<Rightarrow> hptr \<Rightarrow> hptr \<times> 32 word \<Rightarrow> hptr \<times> 32 word" where
  "hit f hp e = (if fst e = hp then map_prod id f e else e)"

lemma fst_hit [simp]: "fst (hit f hp e) = fst e"
  by (simp add: hit_def)

definition invalidated :: "(32 word \<Rightarrow> 32 word) \<Rightarrow> hptr \<Rightarrow> int \<Rightarrow> npoller \<Rightarrow> npoller" where
  "invalidated f hp i p =
     p\<lparr>p_events := take (nat i) (p_events p) @
         map (hit f hp) (drop (nat i) (take (nat (p_nevents p)) (p_events p))) @
         drop (nat (p_nevents p)) (p_events p)\<rparr>"

lemma invalidated_end:
  "0 \<le> i \<Longrightarrow> i = p_nevents p \<Longrightarrow> invalidated f hp i p = p"
  by (simp add: invalidated_def)

lemma invalidated_step:
  assumes "0 \<le> i" and "i < p_nevents p" and "p_nevents p \<le> int (length (p_events p))"
  shows "invalidated f hp (i + 1) (if fst (p_events p ! nat i) = hp then set_mask f i p else p) =
           invalidated f hp i p"
proof -
  let ?k = "nat i" and ?n = "nat (p_nevents p)" and ?es = "p_events p"
  let ?es' = "?es[?k := hit f hp (?es ! ?k)]"
  from assms have k: "?k < ?n" "?k < length ?es" "nat (i + 1) = Suc ?k" by auto
  have "(if fst (?es ! ?k) = hp then set_mask f i p else p) = p\<lparr>p_events := ?es'\<rparr>"
    using k by (simp add: set_mask_def hit_def)
  moreover have "take (Suc ?k) ?es' = take ?k ?es @ [hit f hp (?es ! ?k)]"
    using k by (simp add: take_Suc_conv_app_nth)
  moreover have "drop ?k (take ?n ?es) = ?es ! ?k # drop (Suc ?k) (take ?n ?es)"
    using k Cons_nth_drop_Suc [of ?k "take ?n ?es"] by simp
  moreover have "drop (Suc ?k) (take ?n ?es') = drop (Suc ?k) (take ?n ?es)"
    using k by (simp add: take_update_swap)
  ultimately show ?thesis using k by (simp add: invalidated_def)
qed

lemma invalidate_lt_eq:
  "0 \<le> i \<Longrightarrow> i \<le> p_nevents p \<Longrightarrow> p_nevents p \<le> int (length (p_events p)) \<Longrightarrow>
   invalidate_lt f hp i p = Inr (invalidated f hp i p)"
proof (induction f hp i p rule: invalidate_lt.induct)
  case (1 f hp i p)
  then show ?case
    by (subst invalidate_lt.simps)
      (auto simp: in_bounds_def invalidated_end invalidated_step [symmetric] set_mask_def)
qed

lemma invalidate_ne_eq:
  "0 \<le> i \<Longrightarrow> i \<le> p_nevents p \<Longrightarrow> p_nevents p \<le> int (length (p_events p)) \<Longrightarrow>
   invalidate_ne f hp i p = Inr (invalidated f hp i p)"
proof (induction f hp i p rule: invalidate_ne.induct)
  case (1 f hp i p)
  then show ?case
    by (subst invalidate_ne.simps)
      (auto simp: in_bounds_def invalidated_end invalidated_step [symmetric] set_mask_def)
qed

lemma poller_ok_invalidated: "poller_ok p \<Longrightarrow> poller_ok (invalidated f hp (p_index p) p)"
  by (auto simp: poller_ok_def invalidated_def)

lemma pending_invalidated:
  assumes "poller_ok p" and "\<And>e. reports (hit f hp e) = filter P (reports e)"
  shows "pending (invalidated f hp (p_index p) p) = filter P (pending p)"
proof -
  let ?i = "nat (p_index p)" and ?n = "nat (p_nevents p)"
  let ?A = "take ?i (p_events p)" and ?B = "map (hit f hp) (drop ?i (take ?n (p_events p)))"
  from assms(1) have le: "?i \<le> ?n" "?n \<le> length (p_events p)" by (auto simp: poller_ok_def)
  then have "length ?A = ?i" "length ?B = ?n - ?i" by simp_all
  with le have "drop ?i (take ?n (?A @ ?B @ drop ?n (p_events p))) = ?B" by simp
  then show ?thesis
    by (simp add: pending_def filter_concat invalidated_def assms(2) comp_def)
qed

lemma reports_hit_clear: "reports (hit (\<lambda>_. 0) hp e) = filter (\<lambda>r. snd r \<noteq> hp) (reports e)"
  by (cases e) (auto simp: hit_def reports_bits)

lemma reports_clear_in:
  "reports (h, m AND NOT EPOLLIN) = filter (\<lambda>r. r \<noteq> (kNetPollerIn, h)) (reports (h, m))"
  unfolding reports_bits clear_bits by auto

lemma reports_clear_out:
  "reports (h, m AND NOT EPOLLOUT) = filter (\<lambda>r. r \<noteq> (kNetPollerOut, h)) (reports (h, m))"
  unfolding reports_bits clear_bits by auto

lemma reports_other: "fst e \<noteq> hp \<Longrightarrow> filter (\<lambda>r. r \<noteq> (k, hp)) (reports e) = reports e"
  by (cases e) (auto simp: reports_bits)

lemma reports_hit_in:
  "reports (hit (\<lambda>e. e AND NOT EPOLLIN) hp e) = filter (\<lambda>r. r \<noteq> (kNetPollerIn, hp)) (reports e)"
proof (cases "fst e = hp")
  case True
  then show ?thesis using reports_clear_in [of hp "snd e"] by (cases e) (simp only: hit_def if_True
      fst_conv snd_conv map_prod_simp id_apply simp_thms)
qed (simp add: hit_def reports_other)

lemma reports_hit_out:
  "reports (hit (\<lambda>e. e AND NOT EPOLLOUT) hp e) = filter (\<lambda>r. r \<noteq> (kNetPollerOut, hp)) (reports e)"
proof (cases "fst e = hp")
  case True
  then show ?thesis using reports_clear_out [of hp "snd e"] by (cases e) (simp only: hit_def if_True
      fst_conv snd_conv map_prod_simp id_apply simp_thms)
qed (simp add: hit_def reports_other)

lemma Rm_law:
  assumes "poller_ok p"
  shows "\<exists>p'. NetPoller_Rm p hp h tr =
             Inr (p', Sys_epoll_ctl (p_ep p) EPOLL_CTL_DEL (h_fd h) None # tr) \<and>
           poller_ok p' \<and> pending p' = filter (\<lambda>r. snd r \<noteq> hp) (pending p)"
  using assms poller_ok_invalidated [OF assms]
  by (auto simp: NetPoller_Rm_def invalidate_lt_eq poller_ok_def pending_invalidated [OF assms reports_hit_clear])

text \<open>The loops of ResetIn and ResetOut test \<open>i != nevents_\<close>, that of Rm \<open>i < nevents_\<close>; on a poller in order they agree.\<close>

lemma invalidate_ne_lt: "poller_ok p \<Longrightarrow> invalidate_ne f hp (p_index p) p = invalidate_lt f hp (p_index p) p"
  by (simp add: poller_ok_def invalidate_lt_eq invalidate_ne_eq)

section \<open>The interest the kernel holds\<close>

text \<open>
  \<open>epoll_ctl\<close> as documented: ADD and MOD set the mask registered for a descriptor, DEL
  drops it. \<open>interest ep tr f\<close> is the registration of \<open>f\<close> after the calls of \<open>tr\<close>.
\<close>

fun interest :: "fd \<Rightarrow> trace \<Rightarrow> fd \<Rightarrow> (hptr \<times> 32 word) option" where
  "interest ep [] f = None"
| "interest ep (Sys_epoll_ctl ep' op f' a # tr) f =
     (if ep' = ep \<and> f' = f then (if op = EPOLL_CTL_DEL then None else a) else interest ep tr f)"
| "interest ep (_ # tr) f = interest ep tr f"

text \<open>The mask a handle remembers is the mask the kernel holds for its descriptor.\<close>

definition in_sync :: "fd \<Rightarrow> hptr \<Rightarrow> phandle \<Rightarrow> trace \<Rightarrow> bool" where
  "in_sync ep hp h tr \<longleftrightarrow> interest ep tr (h_fd h) = Some (hp, h_events h)"

text \<open>
  What the four operations that change the interest in a descriptor share: they succeed,
  keep the registration of the kernel equal to the remembered mask, apply \<open>mask\<close>, and, if that
  changes the mask, make the one system call that tells the kernel so and drop the pending
  reports that are no longer wanted. If it changes nothing they make no system call.
\<close>

definition told :: "fd \<Rightarrow> fd \<Rightarrow> hptr \<Rightarrow> 32 word \<Rightarrow> 32 word \<Rightarrow> trace" where
  "told ep f hp m m' = (if m' = m then [] else [Sys_epoll_ctl ep EPOLL_CTL_MOD f (Some (hp, m'))])"

locale interest_op =
  fixes run :: "npoller \<Rightarrow> hptr \<Rightarrow> phandle \<Rightarrow> trace \<Rightarrow> (npoller \<times> phandle \<times> trace) res"
    and mask :: "32 word \<Rightarrow> 32 word"
    and unwanted :: "int \<Rightarrow> bool"
  assumes op_law: "poller_ok p \<Longrightarrow> in_sync (p_ep p) hp h tr \<Longrightarrow>
      \<exists>p' h' tr'. run p hp h tr = Inr (p', h', tr') \<and> poller_ok p' \<and> p_ep p' = p_ep p \<and>
        in_sync (p_ep p) hp h' tr' \<and> h_fd h' = h_fd h \<and> h_events h' = mask (h_events h) \<and>
        pending p' = (if mask (h_events h) = h_events h then pending p
                      else filter (\<lambda>r. \<not> (unwanted (fst r) \<and> snd r = hp)) (pending p)) \<and>
        tr' = told (p_ep p) (h_fd h) hp (h_events h) (mask (h_events h)) @ tr"
begin

lemma other_in_sync:
  assumes "poller_ok p" and "in_sync (p_ep p) hp h tr" and "in_sync (p_ep p) hp2 h2 tr" and "h_fd h2 \<noteq> h_fd h"
  shows "\<exists>p' h' tr'. run p hp h tr = Inr (p', h', tr') \<and> in_sync (p_ep p') hp2 h2 tr'"
proof -
  from op_law [OF assms(1,2)] obtain p' h' tr' where "run p hp h tr = Inr (p', h', tr')" "p_ep p' = p_ep p"
    "tr' = told (p_ep p) (h_fd h) hp (h_events h) (mask (h_events h)) @ tr" by metis
  with assms(3,4) show ?thesis by (simp add: in_sync_def told_def)
qed

end

lemma mask_set:
  "(m :: 32 word) AND EPOLLIN \<noteq> 0 \<Longrightarrow> m OR EPOLLIN = m"
  "(m :: 32 word) AND EPOLLOUT \<noteq> 0 \<Longrightarrow> m OR EPOLLOUT = m"
  unfolding mask_iffs by (rule bit_word_eqI, auto simp only: bit_or_iff bit_1_32 bit_4_32)+

lemma mask_kept:
  "(m :: 32 word) AND EPOLLIN = 0 \<Longrightarrow> m OR EPOLLIN \<noteq> m"
  "(m :: 32 word) AND EPOLLOUT = 0 \<Longrightarrow> m OR EPOLLOUT \<noteq> m"
  using bit_or_iff [of m EPOLLIN 0] bit_or_iff [of m EPOLLOUT 2] mask_iffs [of m] by (auto simp: bit_1_32 bit_4_32)

lemma clear_eq_iff:
  "(m :: 32 word) AND NOT EPOLLIN = m \<longleftrightarrow> \<not> bit m 0"
  "(m :: 32 word) AND NOT EPOLLOUT = m \<longleftrightarrow> \<not> bit m 2"
  unfolding word_eq_iff_bits clear_bits
  by (auto dest: spec [of _ 0] spec [of _ "2 :: nat"] intro: Suc_leI) (metis neq0_conv)

lemma mask_reset:
  "(m :: 32 word) AND NOT EPOLLIN = m \<longleftrightarrow> m AND EPOLLIN = 0"
  "(m :: 32 word) AND NOT EPOLLOUT = m \<longleftrightarrow> m AND EPOLLOUT = 0"
  unfolding clear_eq_iff mask_iffs [symmetric] by (rule not_not)+

lemma in_sync_MOD:
  "in_sync ep hp h (Sys_epoll_ctl ep EPOLL_CTL_MOD (h_fd h) (Some (hp, h_events h)) # tr)"
  by (simp add: in_sync_def)

definition run_SetIn where "run_SetIn p hp h tr = (let (h', tr') = NetPoller_SetIn p hp h tr in Inr (p, h', tr') :: (npoller \<times> phandle \<times> trace) res)"
definition run_SetOut where "run_SetOut p hp h tr = (let (h', tr') = NetPoller_SetOut p hp h tr in Inr (p, h', tr') :: (npoller \<times> phandle \<times> trace) res)"

interpretation setin: interest_op run_SetIn "\<lambda>m. m OR EPOLLIN" "\<lambda>_. False"
  by unfold_locales (auto simp: run_SetIn_def NetPoller_SetIn_def Let_def mask_set in_sync_def told_def mask_kept)

interpretation setout: interest_op run_SetOut "\<lambda>m. m OR EPOLLOUT" "\<lambda>_. False"
  by unfold_locales (auto simp: run_SetOut_def NetPoller_SetOut_def Let_def mask_set in_sync_def told_def mask_kept)

lemma invalidate_ne_ok:
  "poller_ok p \<Longrightarrow> invalidate_ne f hp (p_index p) p = Inr (invalidated f hp (p_index p) p)"
  by (simp add: poller_ok_def invalidate_ne_eq)

lemma invalidated_ep [simp]: "p_ep (invalidated f hp i p) = p_ep p"
  by (simp add: invalidated_def)

lemma filter_in: "filter (\<lambda>r. \<not> (fst r = kNetPollerIn \<and> snd r = hp)) = filter (\<lambda>r. r \<noteq> (kNetPollerIn, hp))"
  by (rule arg_cong [of _ _ filter]) (auto simp: prod_eq_iff)

lemma filter_out: "filter (\<lambda>r. \<not> (fst r = kNetPollerOut \<and> snd r = hp)) = filter (\<lambda>r. r \<noteq> (kNetPollerOut, hp))"
  by (rule arg_cong [of _ _ filter]) (auto simp: prod_eq_iff)

interpretation resetin: interest_op NetPoller_ResetIn "\<lambda>m. m AND NOT EPOLLIN" "\<lambda>k. k = kNetPollerIn"
proof (unfold_locales, goal_cases)
  case (1 p hp h tr)
  show ?case
  proof (cases "h_events h AND EPOLLIN = 0")
    case True
    with 1 mask_reset(1) [of "h_events h"] show ?thesis by (simp add: NetPoller_ResetIn_def told_def)
  next
    case False
    with 1 mask_reset(1) [of "h_events h"] poller_ok_invalidated [OF 1(1)] pending_invalidated [OF 1(1) reports_hit_in]
    show ?thesis unfolding filter_in
      by (simp add: NetPoller_ResetIn_def invalidate_ne_ok in_sync_def told_def Let_def)
  qed
qed

interpretation resetout: interest_op NetPoller_ResetOut "\<lambda>m. m AND NOT EPOLLOUT" "\<lambda>k. k = kNetPollerOut"
proof (unfold_locales, goal_cases)
  case (1 p hp h tr)
  show ?case
  proof (cases "h_events h AND EPOLLOUT = 0")
    case True
    with 1 mask_reset(2) [of "h_events h"] show ?thesis by (simp add: NetPoller_ResetOut_def told_def)
  next
    case False
    with 1 mask_reset(2) [of "h_events h"] poller_ok_invalidated [OF 1(1)] pending_invalidated [OF 1(1) reports_hit_out]
    show ?thesis unfolding filter_out
      by (simp add: NetPoller_ResetOut_def invalidate_ne_ok in_sync_def told_def Let_def)
  qed
qed

section \<open>Sequences of operations\<close>

datatype interest_call = CallSetIn | CallResetIn | CallSetOut | CallResetOut

fun interest_step ::
  "interest_call \<Rightarrow> npoller \<Rightarrow> hptr \<Rightarrow> phandle \<Rightarrow> trace \<Rightarrow> (npoller \<times> phandle \<times> trace) res" where
  "interest_step CallSetIn = run_SetIn"
| "interest_step CallResetIn = NetPoller_ResetIn"
| "interest_step CallSetOut = run_SetOut"
| "interest_step CallResetOut = NetPoller_ResetOut"

fun interest_mask :: "interest_call \<Rightarrow> 32 word \<Rightarrow> 32 word" where
  "interest_mask CallSetIn m = m OR EPOLLIN"
| "interest_mask CallResetIn m = m AND NOT EPOLLIN"
| "interest_mask CallSetOut m = m OR EPOLLOUT"
| "interest_mask CallResetOut m = m AND NOT EPOLLOUT"

primrec interest_run ::
  "interest_call list \<Rightarrow> npoller \<Rightarrow> hptr \<Rightarrow> phandle \<Rightarrow> trace \<Rightarrow> (npoller \<times> phandle \<times> trace) res" where
  "interest_run [] p hp h tr = Inr (p, h, tr)"
| "interest_run (c # cs) p hp h tr =
     andThen (interest_step c p hp h tr) (\<lambda>(p1, h1, tr1). interest_run cs p1 hp h1 tr1)"

text \<open>The system calls a sequence of operations makes, one for each change of the mask, in order.\<close>

primrec mask_calls :: "fd \<Rightarrow> fd \<Rightarrow> hptr \<Rightarrow> interest_call list \<Rightarrow> 32 word \<Rightarrow> syscall list" where
  "mask_calls ep f hp [] m = []"
| "mask_calls ep f hp (c # cs) m =
     told ep f hp m (interest_mask c m) @ mask_calls ep f hp cs (interest_mask c m)"

lemma interest_step_law:
  assumes "poller_ok p" and "in_sync (p_ep p) hp h tr"
  shows "\<exists>p' h' tr'. interest_step c p hp h tr = Inr (p', h', tr') \<and> poller_ok p' \<and> p_ep p' = p_ep p \<and>
     in_sync (p_ep p) hp h' tr' \<and> h_fd h' = h_fd h \<and> h_events h' = interest_mask c (h_events h) \<and>
     tr' = told (p_ep p) (h_fd h) hp (h_events h) (interest_mask c (h_events h)) @ tr"
  using setin.op_law [OF assms] setout.op_law [OF assms] resetin.op_law [OF assms] resetout.op_law [OF assms]
  by (cases c) (simp_all, blast+)

lemma interest_run_law:
  "poller_ok p \<Longrightarrow> in_sync (p_ep p) hp h tr \<Longrightarrow>
   \<exists>p' h' tr'. interest_run cs p hp h tr = Inr (p', h', tr') \<and> poller_ok p' \<and> p_ep p' = p_ep p \<and>
     in_sync (p_ep p) hp h' tr' \<and> h_fd h' = h_fd h \<and> h_events h' = fold interest_mask cs (h_events h) \<and>
     tr' = rev (mask_calls (p_ep p) (h_fd h) hp cs (h_events h)) @ tr"
proof (induction cs arbitrary: p h tr)
  case (Cons c cs)
  from interest_step_law [OF Cons.prems, of c] obtain p1 h1 tr1 where
    c: "interest_step c p hp h tr = Inr (p1, h1, tr1)" "poller_ok p1" "p_ep p1 = p_ep p"
      "in_sync (p_ep p1) hp h1 tr1" "h_fd h1 = h_fd h" "h_events h1 = interest_mask c (h_events h)"
      "tr1 = told (p_ep p) (h_fd h) hp (h_events h) (interest_mask c (h_events h)) @ tr" by metis
  have "rev (told ep f q m m') = told ep f q m m'" for ep f q m m' by (simp add: told_def)
  with Cons.IH [OF c(2,4)] c show ?case by simp
qed simp

text \<open>The loop of the worker over \<open>Event\<close> until it returns -EAGAIN.\<close>

primrec event_run :: "nat \<Rightarrow> npoller \<Rightarrow> ((int \<times> hptr) list \<times> npoller) res" where
  "event_run 0 p = Inl FuelExhausted"
| "event_run (Suc n) p =
     andThen (NetPoller_Event p) (\<lambda>(rc, ev, p1). case ev of
         None \<Rightarrow> Inr ([], p1)
       | Some e \<Rightarrow> andThen (event_run n p1) (\<lambda>(es, p2). Inr (e # es, p2)))"

lemma event_run_law:
  "poller_ok p \<Longrightarrow> length (pending p) < n \<Longrightarrow>
   \<exists>p'. event_run n p = Inr (pending p, p') \<and> poller_ok p' \<and> pending p' = []"
proof (induction n arbitrary: p)
  case (Suc n)
  from Event_law [OF Suc.prems(1)] obtain p1 where p1: "poller_ok p1" "pending p1 = tl (pending p)"
    "NetPoller_Event p = (case pending p of [] \<Rightarrow> Inr (- EAGAIN, None, p1) | r # rs \<Rightarrow> Inr (0, Some r, p1))"
    by blast
  show ?case
  proof (cases "pending p")
    case (Cons r rs)
    with Suc.prems p1 have "length (pending p1) < n" by simp
    from Suc.IH [OF p1(1) this] p1 Cons show ?thesis by auto
  qed (use p1 in auto)
qed simp

lemma length_reports: "length (reports e) \<le> 3"
  by (cases e) (simp add: reports_bits)

lemma length_concat_reports: "length (concat (map reports es)) \<le> 3 * length es"
proof (induction es)
  case (Cons e es)
  with length_reports [of e] show ?case by simp
qed simp

text \<open>\<open>epoll_wait\<close> is called again while it is interrupted: the trace after \<open>k\<close> calls.\<close>

definition waits :: "int \<Rightarrow> int \<Rightarrow> nat \<Rightarrow> trace \<Rightarrow> trace" where
  "waits ep t k tr = replicate k (Sys_epoll_wait ep kNetPollerMaxEvents t) @ tr"

definition interrupted :: "sysres \<Rightarrow> bool" where
  "interrupted r \<longleftrightarrow> sr_ret r = - 1 \<and> sr_errno r = EINTR"

lemma wait_loop_law:
  assumes "\<And>j. j < k \<Longrightarrow> interrupted (os (waits ep t (Suc j) tr))"
    and "\<not> interrupted (os (waits ep t (Suc k) tr))"
  shows "wait_loop os ep t tr = Some (os (waits ep t (Suc k) tr), waits ep t (Suc k) tr)"
  using assms
proof (induction k arbitrary: tr)
  case 0
  then show ?case by (subst wait_loop.simps) (auto simp: waits_def interrupted_def Let_def)
next
  case (Suc k)
  let ?tr = "Sys_epoll_wait ep kNetPollerMaxEvents t # tr"
  have sh: "waits ep t j ?tr = waits ep t (Suc j) tr" for j
    by (simp add: waits_def replicate_app_Cons_same)
  have "wait_loop os ep t ?tr = Some (os (waits ep t (Suc k) ?tr), waits ep t (Suc k) ?tr)"
    using Suc.prems by (intro Suc.IH) (simp_all add: sh)
  moreover have "interrupted (os ?tr)" using Suc.prems(1) [of 0] by (simp add: waits_def)
  ultimately show ?case by (subst wait_loop.simps) (auto simp: interrupted_def sh Let_def)
qed

lemma Wait_law:
  assumes "\<And>j. j < k \<Longrightarrow> interrupted (os (waits (p_ep p) t (Suc j) tr))"
    and "r = os (waits (p_ep p) t (Suc k) tr)" and "\<not> interrupted r"
  shows "NetPoller_Wait os t p tr =
           Inr (0, (fill_events (sr_events r) (p\<lparr>p_nevents := 0, p_index := 0\<rparr>))\<lparr>p_nevents := sr_ret r\<rparr>,
                waits (p_ep p) t (Suc k) tr)"
  using wait_loop_law [of k os "p_ep p" t tr] assms
  by (simp add: NetPoller_Wait_def fill_events_def Let_def)

lemma Event_nothing: "p_nevents p \<le> p_index p \<Longrightarrow> NetPoller_Event p = Inr (- EAGAIN, None, p)"
  unfolding NetPoller_Event_def by (subst skip_handled.simps) simp

section \<open>Properties\<close>

text \<open>C22: A wait reports everything once. If \<open>epoll_wait\<close> is interrupted any number of times and then
  returns events for at most 32 entries, Wait returns 0 and the loop over Event reports, in
  the order of the entries, input before output before error for each, every flag that the
  kernel set, once, then says -EAGAIN; no index leaves the array.\<close>

theorem wait_and_events_report_everything:
  assumes "length (p_events p) = 32" and "\<forall>j<k. interrupted (os (waits (p_ep p) t (Suc j) tr))"
    and "r = os (waits (p_ep p) t (Suc k) tr)" and "sr_ret r = int (length (sr_events r))"
    and "length (sr_events r) \<le> 32"
  shows "\<exists>p1 p2 p3. NetPoller_Wait os t p tr = Inr (0, p1, waits (p_ep p) t (Suc k) tr) \<and>
           event_run 97 p1 = Inr (concat (map reports (sr_events r)), p2) \<and>
           NetPoller_Event p2 = Inr (- EAGAIN, None, p3)"
proof -
  let ?p = "(fill_events (sr_events r) (p\<lparr>p_nevents := 0, p_index := 0\<rparr>))\<lparr>p_nevents := sr_ret r\<rparr>"
  have "\<not> interrupted r" using assms(4) by (simp add: interrupted_def)
  with assms(2,3) have w: "NetPoller_Wait os t p tr = Inr (0, ?p, waits (p_ep p) t (Suc k) tr)"
    by (intro Wait_law) auto
  have ok: "poller_ok ?p" using assms by (simp add: poller_ok_def fill_events_def)
  have pend: "pending ?p = concat (map reports (sr_events r))"
    using assms by (simp add: pending_def fill_events_def)
  have "length (pending ?p) < 97" unfolding pend using length_concat_reports [of "sr_events r"] assms(5) by linarith
  from event_run_law [OF ok this] obtain p2 where p2: "event_run 97 ?p = Inr (pending ?p, p2)" "poller_ok p2" "pending p2 = []"
    by blast
  from Event_law [OF p2(2)] p2(3) obtain p3 where "NetPoller_Event p2 = Inr (- EAGAIN, None, p3)" by auto
  with w p2 pend show ?thesis by metis
qed

text \<open>A poller that has just been made, and a kernel that is interrupted once and then reports two descriptors.\<close>

definition new_poller :: npoller where
  "new_poller = \<lparr>p_ep = 4, p_nevents = 0, p_index = 0, p_events = replicate 32 (HEfd 0, 0)\<rparr>"

definition two_events_os :: os where
  "two_events_os tr = (if length tr < 2 then syserr EINTR
     else (sysret 2)\<lparr>sr_events := [(HSock 1, 5), (HEfd 0, 8)]\<rparr>)"

theorem wait_and_events_report_everything_witness:
  "\<exists>p1 p2 p3. NetPoller_Wait two_events_os (- 1) new_poller [] = Inr (0, p1, waits 4 (- 1) 2 []) \<and>
     event_run 97 p1 = Inr ([(kNetPollerIn, HSock 1), (kNetPollerOut, HSock 1), (kNetPollerErr, HEfd 0)], p2) \<and>
     NetPoller_Event p2 = Inr (- EAGAIN, None, p3)"
proof -
  have r: "two_events_os (waits 4 (- 1) (Suc 1) []) = (sysret 2)\<lparr>sr_events := [(HSock 1, 5), (HEfd 0, 8)]\<rparr>"
    by (simp add: two_events_os_def waits_def)
  have "interrupted (two_events_os (waits 4 (- 1) (Suc 0) []))"
    by (simp add: two_events_os_def waits_def interrupted_def syserr_def)
  moreover have "concat (map reports [(HSock 1, 5), (HEfd 0, 8)]) =
      [(kNetPollerIn, HSock 1), (kNetPollerOut, HSock 1), (kNetPollerErr, HEfd 0)]"
    by (simp add: reports_def)
  ultimately show ?thesis
    using wait_and_events_report_everything [of new_poller 1 two_events_os "- 1" "[]"] r
    by (simp add: new_poller_def sysret_def numeral_2_eq_2 del: event_run.simps)
qed

text \<open>A failing wait is taken for success. When \<open>epoll_wait\<close> fails for another reason than an
  interrupt, the check tests the member \<open>nevents_\<close>, which was just set to 0, and not the
  result; Wait returns 0, stores -1 as the number of events, and Event says that there is
  nothing to report, so the worker's loop calls Wait again at once.\<close>

theorem wait_failure_unnoticed:
  assumes "sr_ret (os (Sys_epoll_wait (p_ep p) kNetPollerMaxEvents t # tr)) = - 1"
    and "sr_errno (os (Sys_epoll_wait (p_ep p) kNetPollerMaxEvents t # tr)) \<noteq> EINTR"
  shows "\<exists>p1 tr1. NetPoller_Wait os t p tr = Inr (0, p1, tr1) \<and> p_nevents p1 = - 1 \<and>
           NetPoller_Event p1 = Inr (- EAGAIN, None, p1)"
proof -
  let ?p = "(fill_events (sr_events (os (waits (p_ep p) t 1 tr))) (p\<lparr>p_nevents := 0, p_index := 0\<rparr>))\<lparr>p_nevents := - 1\<rparr>"
  from assms have "\<not> interrupted (os (waits (p_ep p) t (Suc 0) tr))" "sr_ret (os (waits (p_ep p) t (Suc 0) tr)) = - 1"
    by (simp_all add: interrupted_def waits_def)
  with Wait_law [of 0 os p t tr] have "NetPoller_Wait os t p tr = Inr (0, ?p, waits (p_ep p) t 1 tr)" by simp
  moreover have "NetPoller_Event ?p = Inr (- EAGAIN, None, ?p)"
    by (rule Event_nothing) (simp add: fill_events_def)
  ultimately show ?thesis by auto
qed

theorem wait_failure_unnoticed_witness:
  "\<exists>p1 tr1. NetPoller_Wait (\<lambda>_. syserr 9) (- 1) new_poller [] = Inr (0, p1, tr1) \<and> p_nevents p1 = - 1 \<and>
     NetPoller_Event p1 = Inr (- EAGAIN, None, p1)"
  by (rule wait_failure_unnoticed) (simp_all add: syserr_def)

text \<open>C23: The kernel's interest is the remembered one. Once a descriptor is registered with the mask
  that its handle remembers, any sequence of SetIn, ResetIn, SetOut and ResetOut succeeds,
  leaves the registration equal to the remembered mask, and that mask is the one the
  sequence of set and clear operations asks for. The system calls made are one \<open>epoll_ctl\<close> for
  each operation that changes the mask, with the new mask, in this order, and no others: an
  operation that would change nothing makes no system call.\<close>

theorem interest_follows_handle:
  assumes "poller_ok p" and "in_sync (p_ep p) hp h tr"
  shows "\<exists>p' h' tr'. interest_run cs p hp h tr = Inr (p', h', tr') \<and> poller_ok p' \<and>
           p_ep p' = p_ep p \<and> in_sync (p_ep p) hp h' tr' \<and> h_fd h' = h_fd h \<and>
           h_events h' = fold interest_mask cs (h_events h) \<and>
           tr' = rev (mask_calls (p_ep p) (h_fd h) hp cs (h_events h)) @ tr"
  using interest_run_law [OF assms, of cs] by auto

theorem interest_follows_handle_witness:
  "\<exists>p' h' tr'. interest_run [CallSetIn, CallSetOut, CallSetIn, CallResetIn] new_poller (HSock 1)
       \<lparr>h_fd = 9, h_events = 0\<rparr> [Sys_epoll_ctl 4 EPOLL_CTL_ADD 9 (Some (HSock 1, 0))] = Inr (p', h', tr') \<and>
     interest 4 tr' 9 = Some (HSock 1, EPOLLOUT)"
proof -
  let ?h = "\<lparr>h_fd = 9, h_events = 0\<rparr>" and ?tr = "[Sys_epoll_ctl 4 EPOLL_CTL_ADD 9 (Some (HSock 1, 0))]"
  have "poller_ok new_poller" "in_sync (p_ep new_poller) (HSock 1) ?h ?tr"
    by (simp_all add: poller_ok_def in_sync_def new_poller_def)
  from interest_follows_handle [OF this, of "[CallSetIn, CallSetOut, CallSetIn, CallResetIn]"]
  show ?thesis by (auto simp: in_sync_def new_poller_def simp del: interest_run.simps)
qed

text \<open>C24: Nothing is reported for a removed descriptor. Rm drops every pending report of its handle
  and no other one, keeps the poller in order, and unregisters the descriptor.\<close>

theorem removed_descriptor_not_reported:
  assumes "poller_ok p" and "length (pending p) < n"
  shows "\<exists>p1 tr1 p2. NetPoller_Rm p hp h tr = Inr (p1, tr1) \<and> interest (p_ep p) tr1 (h_fd h) = None \<and>
           event_run n p1 = Inr (filter (\<lambda>r. snd r \<noteq> hp) (pending p), p2)"
proof -
  from Rm_law [OF assms(1), of hp h tr] obtain p1 where
    r: "NetPoller_Rm p hp h tr = Inr (p1, Sys_epoll_ctl (p_ep p) EPOLL_CTL_DEL (h_fd h) None # tr)"
      "poller_ok p1" "pending p1 = filter (\<lambda>r. snd r \<noteq> hp) (pending p)" by blast
  have "length (pending p1) < n" unfolding r(3) using assms(2) length_filter_le le_less_trans by blast
  from event_run_law [OF r(2) this] r show ?thesis by auto
qed

theorem removed_descriptor_not_reported_witness:
  "let p = new_poller\<lparr>p_nevents := 2, p_events := [(HSock 1, 5), (HEfd 0, 1)] @ replicate 30 (HEfd 0, 0)\<rparr> in
   \<exists>p1 tr1 p2. NetPoller_Rm p (HSock 1) \<lparr>h_fd = 9, h_events = 5\<rparr> [] = Inr (p1, tr1) \<and>
     event_run 4 p1 = Inr ([(kNetPollerIn, HEfd 0)], p2)"
proof -
  let ?p = "new_poller\<lparr>p_nevents := 2, p_events := [(HSock 1, 5), (HEfd 0, 1)] @ replicate 30 (HEfd 0, 0)\<rparr>"
  have "pending ?p = [(kNetPollerIn, HSock 1), (kNetPollerOut, HSock 1), (kNetPollerIn, HEfd 0)]"
    by (simp add: pending_def reports_def new_poller_def)
  moreover have "poller_ok ?p" by (simp add: poller_ok_def new_poller_def)
  ultimately show ?thesis
    using removed_descriptor_not_reported [of ?p 4 "HSock 1" "\<lparr>h_fd = 9, h_events = 5\<rparr>" "[]"]
    by (auto simp: Let_def simp del: event_run.simps)
qed

end
