(* ===== verification/Netmsg.thy ===== *)
theory Netmsg
  imports Kernel
begin

unbundle bit_operations_syntax

text \<open>
  The message of \<open>src/utils.h\<close>: \<open>NetMsg\<close>, its 32-byte memory image (what \<open>memcpy\<close> and
  the socket move), and the wrapper that queues it. The three unions of the struct are
  64-bit cells; \<open>token\<close>/\<open>address\<close> and \<open>data_len\<close>/\<open>cmd\<close> are readings of the same cell. The
  bit-field \<open>msg_type\<close> is two bits wide and signed. The layout is that of the x86-64
  ABI: the bit-field in the low bits of byte 0, padding up to byte 8, then the three
  cells in little-endian order.
\<close>

record netmsg =
  msg_type :: "2 word"
  m_src :: "64 word"
  m_dst :: "64 word"
  m_extra :: "64 word"

text \<open>The constructor clears the whole object with \<open>memset\<close>.\<close>

definition NetMsg_new :: netmsg where
  "NetMsg_new = \<lparr>msg_type = 0, m_src = 0, m_dst = 0, m_extra = 0\<rparr>"

abbreviation (input) sizeof_NetMsg :: nat where "sizeof_NetMsg \<equiv> 32"

primrec le_bytes :: "nat \<Rightarrow> 64 word \<Rightarrow> byte list" where
  "le_bytes 0 w = []"
| "le_bytes (Suc n) w = ucast w # le_bytes n (drop_bit 8 w)"

primrec le_word :: "byte list \<Rightarrow> 64 word" where
  "le_word [] = 0"
| "le_word (b # bs) = ucast b OR push_bit 8 (le_word bs)"

definition NetMsg_bytes :: "netmsg \<Rightarrow> byte list" where
  "NetMsg_bytes m =
     ucast (msg_type m) # replicate 7 0 @
     le_bytes 8 (m_src m) @ le_bytes 8 (m_dst m) @ le_bytes 8 (m_extra m)"

text \<open>Reading a buffer as a \<open>NetMsg\<close> (the casts in SendRaw, RecvRaw and the \<open>memcpy\<close> of ExtractNetMsg).\<close>

definition NetMsg_of_bytes :: "byte list \<Rightarrow> netmsg" where
  "NetMsg_of_bytes bs =
     \<lparr>msg_type = ucast (bs ! 0),
      m_src = le_word (take 8 (drop 8 bs)),
      m_dst = le_word (take 8 (drop 16 bs)),
      m_extra = le_word (take 8 (drop 24 bs))\<rparr>"

lemma length_le_bytes [simp]: "length (le_bytes n w) = n"
  by (induction n arbitrary: w) auto

lemma le_word_bytes: "le_word (le_bytes n w) = take_bit (8 * n) w"
proof (induction n arbitrary: w)
  case (Suc n)
  show ?case
    by (rule bit_word_eqI)
      (auto simp: Suc bit_simps not_less add.commute)
qed simp

lemma length_NetMsg_bytes [simp]: "length (NetMsg_bytes m) = 32"
  by (simp add: NetMsg_bytes_def)

lemma le_word_bytes_8 [simp]: "le_word (le_bytes 8 w) = w"
  by (simp add: le_word_bytes take_bit_word_eq_self)

lemma ucast_2_8_2 [simp]: "(ucast (ucast (t :: 2 word) :: byte) :: 2 word) = t"
  by (rule bit_word_eqI) (auto simp: bit_simps)

lemma NetMsg_of_bytes_append:
  "NetMsg_of_bytes (NetMsg_bytes m @ rest) = m"
proof -
  define h :: "byte list" where "h = ucast (msg_type m) # replicate 7 0"
  have "length h = 8" and "h ! 0 = ucast (msg_type m)"
    by (simp_all add: h_def)
  moreover have "NetMsg_bytes m @ rest =
      h @ le_bytes 8 (m_src m) @ le_bytes 8 (m_dst m) @ le_bytes 8 (m_extra m) @ rest"
    by (simp add: NetMsg_bytes_def h_def)
  ultimately show ?thesis
    by (simp add: NetMsg_of_bytes_def nth_append)
qed

lemma NetMsg_of_bytes_take:
  assumes "take 32 bs = take 32 bs'" and "32 \<le> length bs" and "32 \<le> length bs'"
  shows "NetMsg_of_bytes bs = NetMsg_of_bytes bs'"
proof -
  have "NetMsg_of_bytes bs = NetMsg_of_bytes (take 32 bs)" if "32 \<le> length bs" for bs
    using that by (simp add: NetMsg_of_bytes_def drop_take min_def)
  with assms show ?thesis by metis
qed

section \<open>The wrapper that queues a message\<close>

record msgwrapper =
  w_msg :: netmsg

definition NetMsgWrapper_New :: "netmsg \<Rightarrow> msgwrapper" where
  "NetMsgWrapper_New m = \<lparr>w_msg = m\<rparr>"

end
