(* ===== verification/Wiretransfer.thy ===== *)
theory Wiretransfer
  imports Netmsg
begin

text \<open>
  Moving messages over the descriptor of a socket (\<open>src/socket.cpp\<close>): \<open>SendRaw\<close> writes
  the 32-byte header from \<open>out_buf\<close> and then the payload from the address the message
  holds; \<open>RecvRaw\<close> reads the header into \<open>in_buf\<close> and then the payload to the address
  the user's \<open>Token2Dptr\<close> gives for the destination token. Both are called once per
  readiness event, make what progress the kernel allows and keep their position in
  an \<open>int\<close> offset; offsets, sizes and addresses have the widths and the conversions of
  the code.
\<close>

section \<open>The part of a socket they work on\<close>

record sockbuf =
  sk_s :: int
  sk_in_buf :: "byte list"
  sk_out_buf :: "byte list"
  sk_in_offset :: "32 word"
  sk_out_offset :: "32 word"
  sk_busy :: bool

text \<open>\<open>sizeof(NetMsg) + ((msg.msg_type == 1) ? msg.extra.data_len : 0)\<close>, converted to \<open>int64_t\<close>.\<close>

definition total_msg_sz :: "netmsg \<Rightarrow> 64 word" where
  "total_msg_sz m = 32 + (if msg_type m = 1 then m_extra m else 0)"

text \<open>\<open>out_offset < sizeof(NetMsg)\<close> compares unsigned after sign extension of the \<open>int\<close>.\<close>

definition below_header :: "32 word \<Rightarrow> bool" where
  "below_header off \<longleftrightarrow> (scast off :: 64 word) < 32"

definition below_total :: "32 word \<Rightarrow> 64 word \<Rightarrow> bool" where
  "below_total off tot \<longleftrightarrow> sint off < sint tot"

definition would_block :: "sysres \<Rightarrow> bool" where
  "would_block r \<longleftrightarrow> sr_errno r = EAGAIN \<or> sr_errno r = EWOULDBLOCK"

section \<open>SendRaw\<close>

text \<open>One \<open>write\<close> and its error handling: whether to give up, the new offset, the trace.\<close>

definition write_some :: "os \<Rightarrow> fd \<Rightarrow> byte list \<Rightarrow> 32 word \<Rightarrow> trace \<Rightarrow> bool \<times> 32 word \<times> trace" where
  "write_some os f buf off tr =
     (let tr1 = Sys_write f buf # tr; r = os tr1; nbytes = sr_ret r in
      if nbytes < 0 then
        if would_block r then (False, off, tr1) else (True, off, tr1)
      else (False, off + word_of_int nbytes, tr1))"

text \<open>The two blocks of SendRaw: the rest of the header, then the rest of the payload.\<close>

definition send_header :: "os \<Rightarrow> 'a sockbuf_scheme \<Rightarrow> 32 word \<Rightarrow> trace \<Rightarrow> bool \<times> 32 word \<times> trace" where
  "send_header os sk off tr =
     (if below_header off then
        write_some os (sk_s sk)
          (take (unat (32 - scast off :: 64 word)) (drop (nat (sint off)) (sk_out_buf sk))) off tr
      else (False, off, tr))"

definition send_payload ::
  "os \<Rightarrow> memory \<Rightarrow> 'a sockbuf_scheme \<Rightarrow> netmsg \<Rightarrow> 32 word \<Rightarrow> trace \<Rightarrow> bool \<times> 32 word \<times> trace" where
  "send_payload os mem sk msg off tr =
     (if \<not> below_header off \<and> below_total off (total_msg_sz msg) then
        write_some os (sk_s sk)
          (read_mem mem (m_src msg + scast off - 32) (unat (total_msg_sz msg - scast off))) off tr
      else (False, off, tr))"

definition NetSocket_SendRaw ::
  "os \<Rightarrow> memory \<Rightarrow> 'a sockbuf_scheme \<Rightarrow> trace \<Rightarrow> int \<times> 'a sockbuf_scheme \<times> trace" where
  "NetSocket_SendRaw os mem sk tr =
     (let msg = NetMsg_of_bytes (sk_out_buf sk);
          (fail1, off1, tr1) = send_header os sk (sk_out_offset sk) tr
      in if fail1 then (- ECONNRESET, sk\<lparr>sk_out_offset := off1\<rparr>, tr1)
         else
           let (fail2, off2, tr2) = send_payload os mem sk msg off1 tr1;
               sk2 = sk\<lparr>sk_out_offset := off2\<rparr>
           in if fail2 then (- ECONNRESET, sk2, tr2)
              else if below_total off2 (total_msg_sz msg) then (- EAGAIN, sk2, tr2)
              else (0, sk2, tr2))"

section \<open>RecvRaw\<close>

text \<open>One \<open>read\<close>: whether to give up, the bytes stored, the new offset, the trace.\<close>

definition read_some ::
  "os \<Rightarrow> fd \<Rightarrow> 64 word \<Rightarrow> 32 word \<Rightarrow> trace \<Rightarrow> bool \<times> byte list \<times> 32 word \<times> trace" where
  "read_some os f n off tr =
     (let tr1 = Sys_read f n # tr; r = os tr1; nbytes = sr_ret r in
      if nbytes < 0 then
        if would_block r then (False, [], off, tr1) else (True, [], off, tr1)
      else (False, sr_data r, off + word_of_int nbytes, tr1))"

definition store_at :: "nat \<Rightarrow> byte list \<Rightarrow> byte list \<Rightarrow> byte list" where
  "store_at k bs buf = take k buf @ bs @ drop (k + length bs) buf"

definition recv_header ::
  "os \<Rightarrow> 'a sockbuf_scheme \<Rightarrow> trace \<Rightarrow> bool \<times> 'a sockbuf_scheme \<times> trace" where
  "recv_header os sk tr =
     (let off = sk_in_offset sk in
      if below_header off then
        let (fail, bs, off1, tr1) = read_some os (sk_s sk) (32 - scast off) off tr in
        (fail, sk\<lparr>sk_in_buf := store_at (nat (sint off)) bs (sk_in_buf sk), sk_in_offset := off1\<rparr>, tr1)
      else (False, sk, tr))"

definition recv_payload ::
  "os \<Rightarrow> user \<Rightarrow> memory \<Rightarrow> netmsg \<Rightarrow> 'a sockbuf_scheme \<Rightarrow> trace \<Rightarrow>
   bool \<times> 'a sockbuf_scheme \<times> memory \<times> trace" where
  "recv_payload os u mem msg sk tr =
     (let off = sk_in_offset sk in
      if below_total off (total_msg_sz msg) then
        let dst_address = u_Token2Dptr u (m_dst msg);
            (fail, bs, off1, tr1) = read_some os (sk_s sk) (m_extra msg + (32 - scast off)) off tr
        in (fail, sk\<lparr>sk_in_offset := off1\<rparr>, write_mem (dst_address + scast off - 32) bs mem, tr1)
      else (False, sk, mem, tr))"

definition NetSocket_RecvRaw ::
  "os \<Rightarrow> user \<Rightarrow> memory \<Rightarrow> 'a sockbuf_scheme \<Rightarrow> trace \<Rightarrow> int \<times> 'a sockbuf_scheme \<times> memory \<times> trace" where
  "NetSocket_RecvRaw os u mem sk tr =
     (let (fail1, sk1, tr1) = recv_header os sk tr in
      if fail1 then (- ECONNRESET, sk1, mem, tr1)
      else if below_header (sk_in_offset sk1) then (- EAGAIN, sk1, mem, tr1)
      else
        let msg = NetMsg_of_bytes (sk_in_buf sk1);
            (fail2, sk2, mem2, tr2) = recv_payload os u mem msg sk1 tr1
        in if fail2 then (- ECONNRESET, sk2, mem2, tr2)
           else if below_total (sk_in_offset sk2) (total_msg_sz msg) then (- EAGAIN, sk2, mem2, tr2)
           else (0, sk2\<lparr>sk_in_offset := 0\<rparr>, mem2, tr2))"

definition NetSocket_ExtractNetMsg :: "'a sockbuf_scheme \<Rightarrow> netmsg" where
  "NetSocket_ExtractNetMsg sk = NetMsg_of_bytes (take 32 (sk_in_buf sk))"

section \<open>Offsets that stay below \<open>2 ^ 31\<close>\<close>

lemma sint_off: "k < 2 ^ 31 \<Longrightarrow> sint (word_of_nat k :: 32 word) = int k"
  by (simp add: signed_of_nat signed_take_bit_int_eq_self)

lemma scast_off: "k < 2 ^ 31 \<Longrightarrow> (scast (word_of_nat k :: 32 word) :: 64 word) = word_of_nat k"
  by (metis of_int_of_nat_eq scast_eq sint_off)

lemma unat_nat64: "k < 2 ^ 32 \<Longrightarrow> unat (word_of_nat k :: 64 word) = k"
  by (simp add: unat_of_nat take_bit_nat_eq_self)

lemma below_header_off: "k < 2 ^ 31 \<Longrightarrow> below_header (word_of_nat k) \<longleftrightarrow> k < 32"
  by (simp add: below_header_def scast_off word_less_nat_alt unat_nat64)

lemma unat_diff64:
  "k \<le> n \<Longrightarrow> n < 2 ^ 32 \<Longrightarrow> unat (word_of_nat n - word_of_nat k :: 64 word) = n - k"
  using unat_nat64 [of "n - k"] by (simp add: of_nat_diff)

lemma unat_header_rest: "k \<le> 32 \<Longrightarrow> unat (32 - word_of_nat k :: 64 word) = 32 - k"
  using unat_diff64 [of k 32] by simp

section \<open>The bytes of a message on the wire\<close>

definition payload_len :: "netmsg \<Rightarrow> nat" where
  "payload_len m = (if msg_type m = 1 then unat (m_extra m) else 0)"

definition msg_len :: "netmsg \<Rightarrow> nat" where
  "msg_len m = 32 + payload_len m"

text \<open>What a sender holds for a message: the header and the bytes at its source address.\<close>

definition wire :: "memory \<Rightarrow> netmsg \<Rightarrow> byte list" where
  "wire mem m = NetMsg_bytes m @ read_mem mem (m_src m) (payload_len m)"

lemma length_wire [simp]: "length (wire mem m) = msg_len m"
  by (simp add: wire_def msg_len_def)

lemma total_msg_sz_eq: "total_msg_sz m = word_of_nat (msg_len m)"
  by (simp add: total_msg_sz_def msg_len_def payload_len_def)

lemma sint_total: "msg_len m < 2 ^ 31 \<Longrightarrow> sint (total_msg_sz m) = int (msg_len m)"
  by (simp add: total_msg_sz_eq signed_of_nat signed_take_bit_int_eq_self)

lemma below_total_off:
  "k < 2 ^ 31 \<Longrightarrow> msg_len m < 2 ^ 31 \<Longrightarrow>
   below_total (word_of_nat k) (total_msg_sz m) \<longleftrightarrow> k < msg_len m"
  by (simp add: below_total_def sint_total sint_off)

lemma unat_total_rest:
  "k \<le> msg_len m \<Longrightarrow> msg_len m < 2 ^ 31 \<Longrightarrow>
   unat (total_msg_sz m - word_of_nat k) = msg_len m - k"
  by (simp add: total_msg_sz_eq unat_diff64)

text \<open>The bytes the kernel accepted from the writes to \<open>f\<close>, oldest first.\<close>

fun accepted :: "os \<Rightarrow> fd \<Rightarrow> trace \<Rightarrow> byte list" where
  "accepted os f [] = []"
| "accepted os f (Sys_write g bs # tr) =
     accepted os f tr @ (if g = f then take (nat (sr_ret (os (Sys_write g bs # tr)))) bs else [])"
| "accepted os f (_ # tr) = accepted os f tr"

text \<open>\<open>write\<close> as documented: it never accepts more than it is given.\<close>

definition writes_ok :: "os \<Rightarrow> fd \<Rightarrow> bool" where
  "writes_ok os f \<longleftrightarrow> (\<forall>tr bs. sr_ret (os (Sys_write f bs # tr)) \<le> int (length bs))"

text \<open>
  The outcome of a write phase from position \<open>k\<close> that offers \<open>buf\<close>: some \<open>j\<close> bytes of
  it were accepted and the offset moved by \<open>j\<close>; none if the phase failed.
\<close>

definition wrote ::
  "os \<Rightarrow> fd \<Rightarrow> byte list \<Rightarrow> nat \<Rightarrow> trace \<Rightarrow> bool \<times> 32 word \<times> trace \<Rightarrow> nat \<Rightarrow> bool" where
  "wrote os f buf k tr res j \<longleftrightarrow>
     (case res of (fail, off, tr') \<Rightarrow> j \<le> length buf \<and> off = word_of_nat (k + j) \<and>
        accepted os f tr' = accepted os f tr @ take j buf \<and> (fail \<longrightarrow> j = 0))"

lemma write_some_wrote:
  assumes "writes_ok os f"
  shows "\<exists>j. wrote os f buf k tr (write_some os f buf (word_of_nat k) tr) j"
proof (cases "sr_ret (os (Sys_write f buf # tr)) < 0")
  case True
  then have "wrote os f buf k tr (write_some os f buf (word_of_nat k) tr) 0"
    by (auto simp: write_some_def wrote_def Let_def)
  then show ?thesis ..
next
  case False
  let ?n = "sr_ret (os (Sys_write f buf # tr))"
  from False have "(word_of_int ?n :: 32 word) = word_of_nat (nat ?n)" by simp
  moreover from assms have "nat ?n \<le> length buf"
    by (simp add: writes_ok_def nat_le_iff)
  ultimately have "wrote os f buf k tr (write_some os f buf (word_of_nat k) tr) (nat ?n)"
    using False by (simp add: write_some_def wrote_def Let_def)
  then show ?thesis ..
qed

lemma wrote_nothing: "wrote os f [] k tr (False, word_of_nat k, tr) 0"
  by (simp add: wrote_def)

lemma wire_header: "k < 32 \<Longrightarrow> take (32 - k) (drop k (wire mem m)) = drop k (NetMsg_bytes m)"
  by (simp add: wire_def)

lemma wire_payload:
  assumes "32 \<le> k" and "k \<le> msg_len m"
  shows "read_mem mem (m_src m + word_of_nat k - 32) (msg_len m - k) = drop k (wire mem m)"
proof -
  from assms(1) obtain d where k: "k = 32 + d" using le_Suc_ex by blast
  with assms(2) show ?thesis
    by (simp add: wire_def drop_read_mem msg_len_def)
qed

lemma send_header_law:
  fixes sk :: "'a sockbuf_scheme"
  assumes out: "take 32 (sk_out_buf sk) = NetMsg_bytes m" and k: "k \<le> msg_len m"
    and small: "msg_len m < 2 ^ 31" and os: "writes_ok os (sk_s sk)"
  shows "\<exists>j. wrote os (sk_s sk) (drop k (NetMsg_bytes m)) k tr (send_header os sk (word_of_nat k) tr) j"
proof (cases "k < 32")
  case True
  have "take (32 - k) (drop k (sk_out_buf sk)) = drop k (NetMsg_bytes m)"
    using out by (metis drop_take)
  with True write_some_wrote [OF os] show ?thesis
    by (simp add: send_header_def below_header_off scast_off sint_off unat_header_rest)
next
  case False
  with k small wrote_nothing [of os "sk_s sk" k tr] show ?thesis
    by (auto simp: send_header_def below_header_off)
qed

lemma send_payload_law:
  assumes k: "k \<le> msg_len m" and small: "msg_len m < 2 ^ 31" and os: "writes_ok os (sk_s sk)"
  shows "\<exists>j. wrote os (sk_s sk) (if k < 32 then [] else drop k (wire mem m)) k tr
               (send_payload os mem sk m (word_of_nat k) tr) j"
proof (cases "32 \<le> k \<and> k < msg_len m")
  case True
  with k small os write_some_wrote [OF os, of "drop k (wire mem m)" k tr] show ?thesis
    by (simp add: send_payload_def below_header_off below_total_off scast_off unat_total_rest wire_payload)
next
  case False
  from k small have "k < 2 ^ 31" by simp
  with False k small have "send_payload os mem sk m (word_of_nat k) tr = (False, word_of_nat k, tr)"
    by (auto simp: send_payload_def below_header_off below_total_off)
  moreover from False k have "(if k < 32 then [] else drop k (wire mem m)) = []" by simp
  ultimately show ?thesis using wrote_nothing [of os "sk_s sk" k tr] by metis
qed

lemma SendRaw_law:
  fixes sk :: "'a sockbuf_scheme"
  assumes out: "take 32 (sk_out_buf sk) = NetMsg_bytes m"
    and off: "sk_out_offset sk = word_of_nat k" and k: "k \<le> msg_len m"
    and small: "msg_len m < 2 ^ 31" and os: "writes_ok os (sk_s sk)"
  shows "\<exists>rc j tr'. NetSocket_SendRaw os mem sk tr = (rc, sk\<lparr>sk_out_offset := word_of_nat (k + j)\<rparr>, tr') \<and>
           k + j \<le> msg_len m \<and>
           accepted os (sk_s sk) tr' = accepted os (sk_s sk) tr @ take j (drop k (wire mem m)) \<and>
           (rc = 0 \<and> k + j = msg_len m \<or> rc = - EAGAIN \<and> k + j < msg_len m \<or> rc = - ECONNRESET)"
proof -
  let ?f = "sk_s sk"
  from out have msg: "NetMsg_of_bytes (sk_out_buf sk) = m"
    by (metis NetMsg_of_bytes_append append_take_drop_id)
  obtain e1 off1 tr1 where h: "send_header os sk (word_of_nat k) tr = (e1, off1, tr1)"
    by (cases "send_header os sk (word_of_nat k) tr")
  with send_header_law [OF out k small os, of tr] obtain j1 where
    j1: "wrote os ?f (drop k (NetMsg_bytes m)) k tr (e1, off1, tr1) j1" by auto
  then have off1: "off1 = word_of_nat (k + j1)" and le1: "k + j1 \<le> max k 32" and f1: "e1 \<Longrightarrow> j1 = 0"
    and acc1: "accepted os ?f tr1 = accepted os ?f tr @ take j1 (drop k (wire mem m))"
    by (auto simp: wrote_def wire_def)
  from le1 k have k1: "k + j1 \<le> msg_len m" by (auto simp: msg_len_def)
  show ?thesis
  proof (cases e1)
    case True
    with h off off1 f1 acc1 k show ?thesis by (auto simp: NetSocket_SendRaw_def intro!: exI [of _ 0])
  next
    case False
    obtain e2 off2 tr2 where p: "send_payload os mem sk m off1 tr1 = (e2, off2, tr2)"
      by (cases "send_payload os mem sk m off1 tr1")
    with send_payload_law [OF k1 small os, of mem tr1] off1 obtain j2 where
      j2: "wrote os ?f (if k + j1 < 32 then [] else drop (k + j1) (wire mem m)) (k + j1) tr1 (e2, off2, tr2) j2"
      by auto
    then have off2: "off2 = word_of_nat (k + (j1 + j2))" and le2: "k + (j1 + j2) \<le> msg_len m"
      and acc2: "accepted os ?f tr2 = accepted os ?f tr @ take (j1 + j2) (drop k (wire mem m))"
      using acc1 k1 by (auto simp: wrote_def take_add add.assoc add.commute split: if_splits)
    have "below_total off2 (total_msg_sz m) \<longleftrightarrow> k + (j1 + j2) < msg_len m"
      unfolding off2 using le2 small by (intro below_total_off) auto
    with False h p off off2 le2 acc2 msg show ?thesis
      by (intro exI [of _ "if e2 then - ECONNRESET else if k + (j1 + j2) < msg_len m then - EAGAIN else 0"]
          exI [of _ "j1 + j2"] exI [of _ tr2]) (auto simp: NetSocket_SendRaw_def Let_def)
  qed
qed

section \<open>Receiving from a byte stream\<close>

text \<open>The number of bytes the reads of \<open>f\<close> have returned so far.\<close>

fun consumed :: "os \<Rightarrow> fd \<Rightarrow> trace \<Rightarrow> nat" where
  "consumed os f [] = 0"
| "consumed os f (Sys_read g n # tr) =
     consumed os f tr + (if g = f then nat (sr_ret (os (Sys_read g n # tr))) else 0)"
| "consumed os f (_ # tr) = consumed os f tr"

text \<open>
  \<open>read\<close> on a stream descriptor as documented: it returns at most the requested
  number of bytes, and they are the next ones of the stream.
\<close>

definition reads_stream :: "os \<Rightarrow> fd \<Rightarrow> byte list \<Rightarrow> bool" where
  "reads_stream os f stream \<longleftrightarrow>
     (\<forall>tr n. let r = os (Sys_read f n # tr); c = consumed os f tr in
        sr_ret r \<ge> 0 \<longrightarrow>
          nat (sr_ret r) \<le> unat n \<and> nat (sr_ret r) \<le> length (drop c stream) \<and>
          sr_data r = take (nat (sr_ret r)) (drop c stream))"

lemma read_some_law:
  assumes "reads_stream os f stream" and "c = consumed os f tr"
  shows "\<exists>j e tr'. read_some os f n off tr = (e, take j (drop c stream), off + word_of_nat j, tr') \<and>
           j \<le> unat n \<and> j \<le> length (drop c stream) \<and> consumed os f tr' = c + j \<and> (e \<longrightarrow> j = 0)"
proof (cases "sr_ret (os (Sys_read f n # tr)) < 0")
  case True
  then show ?thesis using assms(2)
    by (intro exI [of _ 0] exI [of _ "\<not> would_block (os (Sys_read f n # tr))"]
        exI [of _ "Sys_read f n # tr"]) (simp add: read_some_def Let_def)
next
  case False
  let ?n = "sr_ret (os (Sys_read f n # tr))"
  from False have "(word_of_int ?n :: 32 word) = word_of_nat (nat ?n)" by simp
  moreover from assms False have "nat ?n \<le> unat n" "nat ?n \<le> length (drop c stream)"
    "sr_data (os (Sys_read f n # tr)) = take (nat ?n) (drop c stream)"
    by (simp_all add: reads_stream_def Let_def)
  ultimately show ?thesis using False assms(2)
    by (intro exI [of _ "nat ?n"] exI [of _ False] exI [of _ "Sys_read f n # tr"])
      (simp add: read_some_def Let_def)
qed

text \<open>A message with its payload, as it travels; \<open>fits\<close>: the header announces this payload.\<close>

definition msg_image :: "netmsg \<Rightarrow> byte list \<Rightarrow> byte list" where
  "msg_image m pay = NetMsg_bytes m @ pay"

definition fits :: "netmsg \<Rightarrow> byte list \<Rightarrow> bool" where
  "fits m pay \<longleftrightarrow> length pay = payload_len m \<and> msg_len m < 2 ^ 31"

lemma length_msg_image: "fits m pay \<Longrightarrow> length (msg_image m pay) = msg_len m"
  by (simp add: fits_def msg_image_def msg_len_def)

text \<open>
  \<open>receiving u mem0 m pay k sk mem\<close>: \<open>k\<close> bytes of the message have been taken in, the
  header part into \<open>in_buf\<close>, the payload part to the address of its destination token.
\<close>

definition receiving ::
  "user \<Rightarrow> memory \<Rightarrow> netmsg \<Rightarrow> byte list \<Rightarrow> nat \<Rightarrow> 'a sockbuf_scheme \<Rightarrow> memory \<Rightarrow> bool" where
  "receiving u mem0 m pay k sk mem \<longleftrightarrow>
     k < msg_len m \<and> sk_in_offset sk = word_of_nat k \<and> length (sk_in_buf sk) = 128 \<and>
     take (min k 32) (sk_in_buf sk) = take k (NetMsg_bytes m) \<and>
     mem = write_mem (u_Token2Dptr u (m_dst m)) (take (k - 32) pay) mem0"

lemma receiving_start:
  "sk_in_offset sk = 0 \<Longrightarrow> length (sk_in_buf sk) = 128 \<Longrightarrow> receiving u mem m pay 0 sk mem"
  by (simp add: receiving_def msg_len_def)

lemma take_store_at:
  assumes "take k buf = take k hdr" and "k + length bs \<le> length hdr" and "length hdr \<le> length buf"
    and "bs = take (length bs) (drop k hdr)"
  shows "take (k + length bs) (store_at k bs buf) = take (k + length bs) hdr"
proof -
  from assms have "length (take k buf) = k" by simp
  then have "take (k + length bs) (store_at k bs buf) = take k hdr @ bs"
    by (simp add: store_at_def assms(1))
  also have "\<dots> = take (k + length bs) hdr" using assms(4) by (simp add: take_add)
  finally show ?thesis .
qed

lemma recv_header_law:
  fixes sk :: "'a sockbuf_scheme"
  assumes str: "reads_stream os (sk_s sk) stream" and c: "c = consumed os (sk_s sk) tr"
    and str_next: "drop c stream = drop k (msg_image m pay) @ rest" and fits: "fits m pay"
    and rcv: "receiving u mem0 m pay k sk mem"
  shows "\<exists>j e b tr'. recv_header os sk tr =
             (e, sk\<lparr>sk_in_buf := b, sk_in_offset := word_of_nat (k + j)\<rparr>, tr') \<and>
           consumed os (sk_s sk) tr' = c + j \<and> k + j \<le> max k 32 \<and> length b = 128 \<and>
           take (min (k + j) 32) b = take (k + j) (NetMsg_bytes m) \<and> (e \<longrightarrow> j = 0)"
proof (cases "k < 32")
  case False
  with rcv fits c show ?thesis
    by (intro exI [of _ 0] exI [of _ False] exI [of _ "sk_in_buf sk"] exI [of _ tr])
      (auto simp: recv_header_def receiving_def below_header_off fits_def)
next
  case True
  let ?H = "NetMsg_bytes m"
  obtain j e tr' where r: "read_some os (sk_s sk) (32 - word_of_nat k) (word_of_nat k) tr =
        (e, take j (drop c stream), word_of_nat k + word_of_nat j, tr')"
    and j: "j \<le> unat (32 - word_of_nat k :: 64 word)" "j \<le> length (drop c stream)"
    and tr': "consumed os (sk_s sk) tr' = c + j" and e: "e \<longrightarrow> j = 0"
    using read_some_law [OF str c] by blast
  from j True have j32: "j \<le> 32 - k" by (simp add: unat_header_rest)
  with True have bs: "take j (drop c stream) = take j (drop k ?H)"
    by (simp add: str_next msg_image_def)
  let ?b = "store_at k (take j (drop k ?H)) (sk_in_buf sk)"
  from rcv True have buf: "take k (sk_in_buf sk) = take k ?H" "length (sk_in_buf sk) = 128"
    "sk_in_offset sk = word_of_nat k" by (simp_all add: receiving_def)
  have len: "length (take j (drop k ?H)) = j" using j32 True by simp
  have "take (k + j) ?b = take (k + j) ?H"
    using take_store_at [of k "sk_in_buf sk" ?H "take j (drop k ?H)"] buf j32 True len by simp
  moreover have "length ?b = 128" using buf j32 True by (simp add: store_at_def)
  moreover have "recv_header os sk tr = (e, sk\<lparr>sk_in_buf := ?b, sk_in_offset := word_of_nat (k + j)\<rparr>, tr')"
    using r True buf bs by (simp add: recv_header_def below_header_off scast_off sint_off)
  ultimately show ?thesis using j32 tr' e True
    by (intro exI [of _ j] exI [of _ e] exI [of _ ?b] exI [of _ tr']) simp
qed

lemma recv_payload_law:
  fixes sk :: "'a sockbuf_scheme"
  assumes str: "reads_stream os (sk_s sk) stream" and c: "c = consumed os (sk_s sk) tr"
    and str_next: "drop c stream = drop k (msg_image m pay) @ rest" and fits: "fits m pay"
    and k: "32 \<le> k" "k \<le> msg_len m" and off: "sk_in_offset sk = word_of_nat k"
    and mem: "mem = write_mem (u_Token2Dptr u (m_dst m)) (take (k - 32) pay) mem0"
  shows "\<exists>j e tr'. recv_payload os u mem m sk tr =
             (e, sk\<lparr>sk_in_offset := word_of_nat (k + j)\<rparr>,
              write_mem (u_Token2Dptr u (m_dst m)) (take (k + j - 32) pay) mem0, tr') \<and>
           consumed os (sk_s sk) tr' = c + j \<and> k + j \<le> msg_len m \<and>
           (e \<longrightarrow> k + j < msg_len m)"
proof (cases "k < msg_len m")
  case False
  with k off fits c mem show ?thesis
    by (intro exI [of _ 0] exI [of _ False] exI [of _ tr])
      (auto simp: recv_payload_def below_total_off fits_def)
next
  case True
  from fits k have small: "k < 2 ^ 31" "msg_len m < 2 ^ 31" by (auto simp: fits_def)
  from True k have "payload_len m \<noteq> 0" by (simp add: msg_len_def)
  then have ex: "m_extra m = word_of_nat (payload_len m)" by (simp add: payload_len_def split: if_splits)
  have rest_eq: "m_extra m + (32 - word_of_nat k) = word_of_nat (msg_len m) - word_of_nat k"
    by (simp add: ex msg_len_def)
  have cnt: "unat (m_extra m + (32 - word_of_nat k)) = msg_len m - k"
    unfolding rest_eq using k small by (intro unat_diff64) auto
  obtain j e tr' where r: "read_some os (sk_s sk) (m_extra m + (32 - word_of_nat k)) (word_of_nat k) tr =
        (e, take j (drop c stream), word_of_nat k + word_of_nat j, tr')"
    and j: "j \<le> unat (m_extra m + (32 - word_of_nat k))"
    and tr': "consumed os (sk_s sk) tr' = c + j" and e: "e \<longrightarrow> j = 0"
    using read_some_law [OF str c] by blast
  from fits have lp: "length pay = payload_len m" by (simp add: fits_def)
  obtain d where d: "k = 32 + d" using k le_Suc_ex by blast
  have le: "k + j \<le> msg_len m" using j cnt k by simp
  then have dj: "d + j \<le> length pay" using d lp by (simp add: msg_len_def)
  have bs: "take j (drop c stream) = take j (drop d pay)"
    using dj by (simp add: str_next msg_image_def d)
  have "write_mem (u_Token2Dptr u (m_dst m) + word_of_nat k - 32) (take j (drop d pay)) mem =
        write_mem (u_Token2Dptr u (m_dst m)) (take (d + j) pay) mem0"
    using dj by (simp add: mem d take_add write_mem_append)
  moreover have "scast (sk_in_offset sk) = (word_of_nat k :: 64 word)"
    using small by (simp add: off scast_off)
  ultimately have "recv_payload os u mem m sk tr =
      (e, sk\<lparr>sk_in_offset := word_of_nat (k + j)\<rparr>,
       write_mem (u_Token2Dptr u (m_dst m)) (take (d + j) pay) mem0, tr')"
    using True r small bs by (simp add: recv_payload_def below_total_off off)
  then show ?thesis using tr' e le True d by auto
qed

lemma of_bytes_header:
  assumes "take 32 b = NetMsg_bytes m"
  shows "NetMsg_of_bytes b = m"
  using NetMsg_of_bytes_append [of m "drop 32 b"] assms append_take_drop_id [of 32 b] by simp

lemma Extract_header: "take 32 (sk_in_buf sk) = NetMsg_bytes m \<Longrightarrow> NetSocket_ExtractNetMsg sk = m"
  using NetMsg_of_bytes_append [of m "[]"] by (simp add: NetSocket_ExtractNetMsg_def)

text \<open>The header is not complete: the event ends here, with an error of \<open>read\<close> or without.\<close>

lemma RecvRaw_stops:
  fixes sk :: "'a sockbuf_scheme"
  assumes h: "recv_header os sk tr = (e, sk1, tr')" and off: "sk_in_offset sk1 = word_of_nat n"
    and n: "n < 2 ^ 31" "e \<or> n < 32"
  shows "NetSocket_RecvRaw os u mem sk tr = (if e then - ECONNRESET else - EAGAIN, sk1, mem, tr')"
  using assms by (auto simp: NetSocket_RecvRaw_def below_header_off)

text \<open>The header is complete: the payload decides.\<close>

lemma RecvRaw_goes_on:
  fixes sk :: "'a sockbuf_scheme"
  assumes h: "recv_header os sk tr = (False, sk1, tr1)" and off: "sk_in_offset sk1 = word_of_nat n" "32 \<le> n" "n < 2 ^ 31"
    and full: "take 32 (sk_in_buf sk1) = NetMsg_bytes m"
    and p: "recv_payload os u mem m sk1 tr1 = (e, sk1\<lparr>sk_in_offset := word_of_nat p\<rparr>, mem', tr2)"
    and le: "p \<le> msg_len m" "e \<longrightarrow> p < msg_len m" and fits: "fits m pay"
  shows "NetSocket_RecvRaw os u mem sk tr =
     (if e then - ECONNRESET else if p < msg_len m then - EAGAIN else 0,
      sk1\<lparr>sk_in_offset := (if p < msg_len m then word_of_nat p else 0)\<rparr>, mem', tr2)"
proof -
  have "below_total (word_of_nat p) (total_msg_sz m) \<longleftrightarrow> p < msg_len m"
    using le fits by (intro below_total_off) (auto simp: fits_def)
  then show ?thesis using h off p le(2) of_bytes_header [OF full]
    by (auto simp: NetSocket_RecvRaw_def below_header_off Let_def)
qed

text \<open>
  One readiness event in the middle of a message: either the message is complete, its
  header is the sender's and its payload is in memory, or the position has moved by
  the bytes read and the next event goes on from there. The only other result is an
  error of \<open>read\<close>, which loses nothing.
\<close>

definition recv_outcome ::
  "user \<Rightarrow> memory \<Rightarrow> netmsg \<Rightarrow> byte list \<Rightarrow> nat \<Rightarrow> 'a sockbuf_scheme \<Rightarrow> int \<Rightarrow> byte list \<Rightarrow> 32 word \<Rightarrow> memory \<Rightarrow> bool" where
  "recv_outcome u mem0 m pay n sk rc b off mem' \<longleftrightarrow>
     length b = 128 \<and>
     (rc = 0 \<and> n = msg_len m \<and> off = 0 \<and> take 32 b = NetMsg_bytes m \<and>
        mem' = write_mem (u_Token2Dptr u (m_dst m)) pay mem0 \<or>
      (rc = - EAGAIN \<or> rc = - ECONNRESET) \<and> receiving u mem0 m pay n (sk\<lparr>sk_in_buf := b, sk_in_offset := off\<rparr>) mem')"

lemma RecvRaw_payload:
  fixes sk :: "'a sockbuf_scheme"
  assumes str: "reads_stream os (sk_s sk) stream" and c: "consumed os (sk_s sk) tr1 = c"
    and str_next: "drop c stream = drop n (msg_image m pay) @ rest" and fits: "fits m pay"
    and n: "32 \<le> n" "n \<le> msg_len m" and b: "length b = 128" "take 32 b = NetMsg_bytes m"
    and h: "recv_header os sk tr = (False, sk\<lparr>sk_in_buf := b, sk_in_offset := word_of_nat n\<rparr>, tr1)"
    and mem: "mem = write_mem (u_Token2Dptr u (m_dst m)) (take (n - 32) pay) mem0"
  shows "\<exists>rc j off mem' tr'. NetSocket_RecvRaw os u mem sk tr =
             (rc, sk\<lparr>sk_in_buf := b, sk_in_offset := off\<rparr>, mem', tr') \<and>
           consumed os (sk_s sk) tr' = c + j \<and> n + j \<le> msg_len m \<and>
           recv_outcome u mem0 m pay (n + j) sk rc b off mem'"
proof -
  let ?dst = "u_Token2Dptr u (m_dst m)"
  define sk1 where "sk1 = sk\<lparr>sk_in_buf := b, sk_in_offset := word_of_nat n\<rparr>"
  from recv_payload_law [of os sk1 stream c tr1 n m pay rest mem u mem0] str c str_next fits n mem
  obtain j e tr2 where
    p: "recv_payload os u mem m sk1 tr1 = (e, sk1\<lparr>sk_in_offset := word_of_nat (n + j)\<rparr>,
          write_mem ?dst (take (n + j - 32) pay) mem0, tr2)"
    and tr2: "consumed os (sk_s sk) tr2 = c + j" and le: "n + j \<le> msg_len m" and e: "e \<longrightarrow> n + j < msg_len m"
    by (auto simp: sk1_def)
  let ?mem = "write_mem ?dst (take (n + j - 32) pay) mem0"
  let ?off = "if n + j < msg_len m then word_of_nat (n + j) else 0"
  let ?rc = "if e then - ECONNRESET else if n + j < msg_len m then - EAGAIN else 0"
  have "n < 2 ^ 31" using n fits by (simp add: fits_def)
  with RecvRaw_goes_on [OF h [folded sk1_def] _ n(1) _ _ p le e fits] b(2)
  have run: "NetSocket_RecvRaw os u mem sk tr = (?rc, sk\<lparr>sk_in_buf := b, sk_in_offset := ?off\<rparr>, ?mem, tr2)"
    by (simp add: sk1_def)
  have "recv_outcome u mem0 m pay (n + j) sk ?rc b ?off ?mem"
  proof (cases "n + j < msg_len m")
    case True
    with n b show ?thesis by (simp add: recv_outcome_def receiving_def)
  next
    case False
    with le have "n + j = msg_len m" by simp
    then have "take (n + j - 32) pay = pay" using fits by (simp add: fits_def msg_len_def)
    with False e le b show ?thesis by (auto simp: recv_outcome_def)
  qed
  with run tr2 le show ?thesis by blast
qed

lemma RecvRaw_law:
  fixes sk :: "'a sockbuf_scheme"
  assumes str: "reads_stream os (sk_s sk) stream" and c: "c = consumed os (sk_s sk) tr"
    and str_next: "drop c stream = drop k (msg_image m pay) @ rest" and fits: "fits m pay"
    and rcv: "receiving u mem0 m pay k sk mem"
  shows "\<exists>rc j b off mem' tr'. NetSocket_RecvRaw os u mem sk tr =
             (rc, sk\<lparr>sk_in_buf := b, sk_in_offset := off\<rparr>, mem', tr') \<and>
           consumed os (sk_s sk) tr' = c + j \<and> k + j \<le> msg_len m \<and>
           recv_outcome u mem0 m pay (k + j) sk rc b off mem'"
proof -
  from rcv fits have k: "k < msg_len m" "k < 2 ^ 31" by (auto simp: receiving_def fits_def)
  from recv_header_law [OF assms] obtain j e b tr1 where
    h: "recv_header os sk tr = (e, sk\<lparr>sk_in_buf := b, sk_in_offset := word_of_nat (k + j)\<rparr>, tr1)"
    and tr1: "consumed os (sk_s sk) tr1 = c + j" and j: "k + j \<le> max k 32" and lb: "length b = 128"
    and b: "take (min (k + j) 32) b = take (k + j) (NetMsg_bytes m)" and e: "e \<longrightarrow> j = 0"
    by blast
  from j k have kj: "k + j < 2 ^ 31" "k + j \<le> msg_len m" by (auto simp: msg_len_def)
  have mem: "mem = write_mem (u_Token2Dptr u (m_dst m)) (take (k + j - 32) pay) mem0"
    using rcv j by (cases "k < 32") (auto simp: receiving_def)
  show ?thesis
  proof (cases "e \<or> k + j < 32")
    case True
    have "receiving u mem0 m pay (k + j) (sk\<lparr>sk_in_buf := b, sk_in_offset := word_of_nat (k + j)\<rparr>) mem"
      using True e k lb b mem kj by (auto simp: receiving_def msg_len_def)
    with RecvRaw_stops [OF h _ kj(1) True] tr1 kj(2) lb show ?thesis
      by (auto simp: recv_outcome_def)
  next
    case False
    then have full: "take 32 b = NetMsg_bytes m" and h0: "recv_header os sk tr =
        (False, sk\<lparr>sk_in_buf := b, sk_in_offset := word_of_nat (k + j)\<rparr>, tr1)" using b h by simp_all
    have "drop (c + j) stream = drop (k + j) (msg_image m pay) @ rest"
      using arg_cong [OF str_next, of "drop j"] kj length_msg_image [OF fits] by (simp add: add.commute)
    from RecvRaw_payload [OF str tr1 this fits _ kj(2) lb full h0 mem] False obtain rc j2 off mem' tr' where
      "NetSocket_RecvRaw os u mem sk tr = (rc, sk\<lparr>sk_in_buf := b, sk_in_offset := off\<rparr>, mem', tr')"
      "consumed os (sk_s sk) tr' = c + (j + j2)" "k + (j + j2) \<le> msg_len m"
      "recv_outcome u mem0 m pay (k + (j + j2)) sk rc b off mem'" by (auto simp: add.assoc)
    then show ?thesis by blast
  qed
qed

end
