(* ===== verification/Wirestream.thy ===== *)
theory Wirestream
  imports Wiretransfer
begin

text \<open>
  What the per-event transfer of \<open>Wiretransfer\<close> adds up to over any number of readiness
  events: the receiving socket turns the byte stream back into the messages, and the
  sending socket turns its queue of messages into the byte stream. The section on
  properties joins the two ends and shows where the \<open>int\<close> offsets stop being right.
\<close>

section \<open>A run of readiness events\<close>

text \<open>
  \<open>recv_run\<close>: the \<open>kNetWorkerFdIn\<close> branch of the active socket, once per event: a
  result 0 of RecvRaw extracts a message, any other result waits for the next event
  (the branch returns on -EAGAIN and on -ECONNRESET alike).
\<close>

primrec recv_run ::
  "os \<Rightarrow> user \<Rightarrow> nat \<Rightarrow> 'a sockbuf_scheme \<Rightarrow> memory \<Rightarrow> trace \<Rightarrow>
   netmsg list \<times> 'a sockbuf_scheme \<times> memory \<times> trace" where
  "recv_run os u 0 sk mem tr = ([], sk, mem, tr)"
| "recv_run os u (Suc n) sk mem tr =
     (let (rc, sk1, mem1, tr1) = NetSocket_RecvRaw os u mem sk tr;
          (ms, sk2, mem2, tr2) = recv_run os u n sk1 mem1 tr1
      in (if rc = 0 then NetSocket_ExtractNetMsg sk1 # ms else ms, sk2, mem2, tr2))"

text \<open>The memory after a list of messages has been delivered.\<close>

fun deliver :: "user \<Rightarrow> (netmsg \<times> byte list) list \<Rightarrow> memory \<Rightarrow> memory" where
  "deliver u [] mem = mem"
| "deliver u ((m, pay) # mps) mem = deliver u mps (write_mem (u_Token2Dptr u (m_dst m)) pay mem)"

definition images :: "(netmsg \<times> byte list) list \<Rightarrow> byte list" where
  "images mps = concat (map (\<lambda>(m, pay). msg_image m pay) mps)"

lemma images_simps [simp]: "images [] = []" "images ((m, pay) # mps) = msg_image m pay @ images mps"
  by (simp_all add: images_def)

text \<open>What is left to receive: \<open>k\<close> bytes of the first of \<open>mps\<close> are in, the rest is still in the stream.\<close>

definition to_receive ::
  "user \<Rightarrow> memory \<Rightarrow> (netmsg \<times> byte list) list \<Rightarrow> nat \<Rightarrow> byte list \<Rightarrow> 'a sockbuf_scheme \<Rightarrow> memory \<Rightarrow> bool"
where
  "to_receive u mem0 mps k left sk mem \<longleftrightarrow>
     left = drop k (images mps) \<and> (\<forall>(m, pay) \<in> set mps. fits m pay) \<and>
     (case mps of
        [] \<Rightarrow> k = 0 \<and> sk_in_offset sk = 0 \<and> length (sk_in_buf sk) = 128 \<and> mem = mem0
      | (m, pay) # _ \<Rightarrow> receiving u mem0 m pay k sk mem)"

lemma to_receive_start:
  assumes "sk_in_offset sk = 0" and "length (sk_in_buf sk) = 128" and "\<forall>(m, pay) \<in> set mps. fits m pay"
  shows "to_receive u mem mps 0 (images mps) sk mem"
  using assms by (auto simp: to_receive_def receiving_start split: list.split)

lemma RecvRaw_empty:
  fixes sk :: "'a sockbuf_scheme"
  assumes str: "reads_stream os (sk_s sk) stream" and c: "c = consumed os (sk_s sk) tr"
    and "drop c stream = []" and "sk_in_offset sk = 0"
  shows "\<exists>rc tr'. NetSocket_RecvRaw os u mem sk tr = (rc, sk, mem, tr') \<and>
           consumed os (sk_s sk) tr' = c \<and> rc \<noteq> 0"
proof -
  obtain e tr' where "read_some os (sk_s sk) 32 0 tr = (e, [], 0, tr')"
    "consumed os (sk_s sk) tr' = c"
    using read_some_law [OF str c, of 32 0] assms(3) by auto
  moreover have "below_header 0" by (simp add: below_header_def)
  ultimately show ?thesis using assms(4)
    by (intro exI [of _ "if e then - ECONNRESET else - EAGAIN"] exI [of _ tr'])
      (simp add: NetSocket_RecvRaw_def recv_header_def store_at_def)
qed

lemma to_receive_step:
  fixes sk :: "'a sockbuf_scheme"
  assumes str: "reads_stream os (sk_s sk) stream" and c: "c = consumed os (sk_s sk) tr"
    and tor: "to_receive u mem0 mps k (drop c stream) sk mem"
  shows "\<exists>rc sk1 mem1 tr1. NetSocket_RecvRaw os u mem sk tr = (rc, sk1, mem1, tr1) \<and> sk_s sk1 = sk_s sk \<and>
     (if rc = 0 then mps \<noteq> [] \<and> NetSocket_ExtractNetMsg sk1 = fst (hd mps) \<and>
          to_receive u (deliver u [hd mps] mem0) (tl mps) 0 (drop (consumed os (sk_s sk) tr1) stream) sk1 mem1
      else \<exists>k1. to_receive u mem0 mps k1 (drop (consumed os (sk_s sk) tr1) stream) sk1 mem1)"
proof (cases mps)
  case Nil
  then show ?thesis using RecvRaw_empty [OF str c, of u mem] tor by (fastforce simp: to_receive_def)
next
  case (Cons mp mps')
  obtain m pay where mp: "mp = (m, pay)" by (cases mp)
  from tor Cons mp have fits: "fits m pay" and rcv: "receiving u mem0 m pay k sk mem"
    and all: "\<forall>(m, pay) \<in> set mps'. fits m pay" and left: "drop c stream = drop k (msg_image m pay @ images mps')"
    by (auto simp: to_receive_def)
  have k: "k \<le> length (msg_image m pay)" using rcv length_msg_image [OF fits] by (simp add: receiving_def)
  then have left': "drop c stream = drop k (msg_image m pay) @ images mps'" by (simp add: left)
  from RecvRaw_law [OF str c left' fits rcv, unfolded recv_outcome_def] obtain rc j b off mem1 tr1 where
    run: "NetSocket_RecvRaw os u mem sk tr = (rc, sk\<lparr>sk_in_buf := b, sk_in_offset := off\<rparr>, mem1, tr1)"
    and tr1: "consumed os (sk_s sk) tr1 = c + j" and le: "k + j \<le> msg_len m" and lb: "length b = 128"
    and res: "rc = 0 \<and> k + j = msg_len m \<and> off = 0 \<and> take 32 b = NetMsg_bytes m \<and>
              mem1 = write_mem (u_Token2Dptr u (m_dst m)) pay mem0 \<or>
            (rc = - EAGAIN \<or> rc = - ECONNRESET) \<and>
              receiving u mem0 m pay (k + j) (sk\<lparr>sk_in_buf := b, sk_in_offset := off\<rparr>) mem1" by blast
  let ?sk1 = "sk\<lparr>sk_in_buf := b, sk_in_offset := off\<rparr>"
  have left1: "drop (c + j) stream = drop (k + j) (images mps)"
    using arg_cong [OF left, of "drop j"]
    by (simp only: Cons mp images_simps drop_drop add.commute)
  show ?thesis
  proof (cases "rc = 0")
    case True
    with res have "drop (c + j) stream = images mps'"
      using left1 Cons mp length_msg_image [OF fits] by simp
    moreover from True res have "NetSocket_ExtractNetMsg ?sk1 = m"
      using Extract_header [of ?sk1 m] by simp
    ultimately show ?thesis using True res run tr1 Cons mp lb all
        to_receive_start [of ?sk1 mps' u mem1] by simp
  next
    case False
    with res run tr1 Cons mp left1 all fits show ?thesis
      by (intro exI [of _ rc] exI [of _ ?sk1] exI [of _ mem1] exI [of _ tr1])
        (auto simp: to_receive_def)
  qed
qed

lemma recv_run_law:
  fixes sk :: "'a sockbuf_scheme"
  assumes "reads_stream os (sk_s sk) stream"
    and "to_receive u mem0 mps k (drop (consumed os (sk_s sk) tr) stream) sk mem"
  shows "\<exists>d k' sk' mem' tr'. recv_run os u n sk mem tr = (map fst (take d mps), sk', mem', tr') \<and>
     d \<le> length mps \<and>
     to_receive u (deliver u (take d mps) mem0) (drop d mps) k' (drop (consumed os (sk_s sk) tr') stream) sk' mem'"
  using assms
proof (induction n arbitrary: sk mem tr mem0 mps k)
  case 0
  then show ?case by (intro exI [of _ 0] exI [of _ k] exI [of _ sk] exI [of _ mem] exI [of _ tr]) simp
next
  case (Suc n)
  from to_receive_step [OF Suc.prems(1) refl Suc.prems(2)] obtain rc sk1 mem1 tr1 where
    r: "NetSocket_RecvRaw os u mem sk tr = (rc, sk1, mem1, tr1)" and s1: "sk_s sk1 = sk_s sk" and
    res: "if rc = 0 then mps \<noteq> [] \<and> NetSocket_ExtractNetMsg sk1 = fst (hd mps) \<and>
          to_receive u (deliver u [hd mps] mem0) (tl mps) 0 (drop (consumed os (sk_s sk) tr1) stream) sk1 mem1
      else \<exists>k1. to_receive u mem0 mps k1 (drop (consumed os (sk_s sk) tr1) stream) sk1 mem1" by blast
  show ?case
  proof (cases "rc = 0")
    case False
    with res obtain k1 where "to_receive u mem0 mps k1 (drop (consumed os (sk_s sk) tr1) stream) sk1 mem1" by auto
    with Suc.IH [of sk1 mem0 mps k1 tr1 mem1] Suc.prems(1) s1 False r show ?thesis
      by (fastforce simp: Let_def)
  next
    case True
    with res obtain mp mps' where m: "mps = mp # mps'" "NetSocket_ExtractNetMsg sk1 = fst mp"
      "to_receive u (deliver u [mp] mem0) mps' 0 (drop (consumed os (sk_s sk) tr1) stream) sk1 mem1"
      by (cases mps) auto
    with Suc.IH [of sk1 "deliver u [mp] mem0" mps' 0 tr1 mem1] Suc.prems(1) s1 obtain d k' sk' mem' tr' where
      ih: "recv_run os u n sk1 mem1 tr1 = (map fst (take d mps'), sk', mem', tr')" "d \<le> length mps'"
        "to_receive u (deliver u (take d mps') (deliver u [mp] mem0)) (drop d mps') k'
           (drop (consumed os (sk_s sk) tr') stream) sk' mem'" by auto
    moreover have "deliver u (take d mps') (deliver u [mp] mem0) = deliver u (take (Suc d) mps) mem0"
      using m(1) by (cases mp) simp
    ultimately show ?thesis using True r m
      by (intro exI [of _ "Suc d"] exI [of _ k'] exI [of _ sk'] exI [of _ mem'] exI [of _ tr']) (simp add: Let_def)
  qed
qed

section \<open>Sending a queue of messages\<close>

text \<open>
  \<open>out_event\<close>: the \<open>kNetWorkerFdOut\<close> branch of the active socket (socket.cpp, lines
  440--461) with the buffered messages as a list: an idle sender takes the next message
  into \<open>out_buf\<close> (DequeueNetMsgToBuf) or, when there is none, stops polling; then it
  sends what the kernel takes.
\<close>

datatype out_result = OutIdle | OutSent | OutAgain | OutError

definition load_msg :: "netmsg \<Rightarrow> 'a sockbuf_scheme \<Rightarrow> 'a sockbuf_scheme" where
  "load_msg m sk = sk\<lparr>sk_out_buf := store_at 0 (NetMsg_bytes m) (sk_out_buf sk), sk_out_offset := 0\<rparr>"

definition send_step ::
  "os \<Rightarrow> memory \<Rightarrow> 'a sockbuf_scheme \<Rightarrow> trace \<Rightarrow> out_result \<times> 'a sockbuf_scheme \<times> trace" where
  "send_step os mem sk tr =
     (let (rc, sk1, tr1) = NetSocket_SendRaw os mem sk tr in
      if rc = 0 then (OutSent, sk1\<lparr>sk_busy := False\<rparr>, tr1)
      else if rc = - EAGAIN then (OutAgain, sk1, tr1)
      else (OutError, sk1, tr1))"

fun out_event ::
  "os \<Rightarrow> memory \<Rightarrow> netmsg list \<Rightarrow> 'a sockbuf_scheme \<Rightarrow> trace \<Rightarrow>
   out_result \<times> netmsg list \<times> 'a sockbuf_scheme \<times> trace" where
  "out_event os mem ms sk tr =
     (if \<not> sk_busy sk then
        (case ms of
           [] \<Rightarrow> (OutIdle, [], sk, tr)
         | m # ms' \<Rightarrow>
             let (r, sk1, tr1) = send_step os mem ((load_msg m sk)\<lparr>sk_busy := True\<rparr>) tr in (r, ms', sk1, tr1))
      else let (r, sk1, tr1) = send_step os mem sk tr in (r, ms, sk1, tr1))"

primrec out_run ::
  "os \<Rightarrow> memory \<Rightarrow> nat \<Rightarrow> netmsg list \<Rightarrow> 'a sockbuf_scheme \<Rightarrow> trace \<Rightarrow>
   netmsg list \<times> 'a sockbuf_scheme \<times> trace" where
  "out_run os mem 0 ms sk tr = (ms, sk, tr)"
| "out_run os mem (Suc n) ms sk tr =
     (let (r, ms1, sk1, tr1) = out_event os mem ms sk tr in out_run os mem n ms1 sk1 tr1)"

text \<open>
  \<open>to_send mem ms sk todo\<close>: the bytes still to be sent are \<open>todo\<close>: the rest of the
  message in \<open>out_buf\<close>, if there is one, and the buffered messages.
\<close>

definition wires :: "memory \<Rightarrow> netmsg list \<Rightarrow> byte list" where
  "wires mem ms = concat (map (wire mem) ms)"

lemma wires_simps [simp]: "wires mem [] = []" "wires mem (m # ms) = wire mem m @ wires mem ms"
  by (simp_all add: wires_def)

definition sending :: "memory \<Rightarrow> 'a sockbuf_scheme \<Rightarrow> byte list \<Rightarrow> bool" where
  "sending mem sk bs \<longleftrightarrow>
     (\<exists>m k. take 32 (sk_out_buf sk) = NetMsg_bytes m \<and> sk_out_offset sk = word_of_nat k \<and>
        k \<le> msg_len m \<and> msg_len m < 2 ^ 31 \<and> bs = drop k (wire mem m))"

definition to_send :: "memory \<Rightarrow> netmsg list \<Rightarrow> 'a sockbuf_scheme \<Rightarrow> byte list \<Rightarrow> bool" where
  "to_send mem ms sk todo \<longleftrightarrow>
     length (sk_out_buf sk) = 128 \<and> (\<forall>m \<in> set ms. msg_len m < 2 ^ 31) \<and>
     (if sk_busy sk then \<exists>bs. sending mem sk bs \<and> todo = bs @ wires mem ms else todo = wires mem ms)"

lemma send_step_law:
  fixes sk :: "'a sockbuf_scheme"
  assumes snd: "sending mem sk bs" and busy: "sk_busy sk" and os: "writes_ok os (sk_s sk)"
  shows "\<exists>r sk1 tr1 j. send_step os mem sk tr = (r, sk1, tr1) \<and> sk_s sk1 = sk_s sk \<and>
           sk_out_buf sk1 = sk_out_buf sk \<and>
           accepted os (sk_s sk) tr1 = accepted os (sk_s sk) tr @ take j bs \<and>
           (if sk_busy sk1 then sending mem sk1 (drop j bs) else drop j bs = [])"
proof -
  from snd obtain m k where m: "take 32 (sk_out_buf sk) = NetMsg_bytes m" "sk_out_offset sk = word_of_nat k"
    "k \<le> msg_len m" "msg_len m < 2 ^ 31" and bs: "bs = drop k (wire mem m)"
    by (auto simp: sending_def)
  from SendRaw_law [OF m os, of mem tr] obtain rc j tr' where
    r: "NetSocket_SendRaw os mem sk tr = (rc, sk\<lparr>sk_out_offset := word_of_nat (k + j)\<rparr>, tr')"
    and le: "k + j \<le> msg_len m"
    and acc: "accepted os (sk_s sk) tr' = accepted os (sk_s sk) tr @ take j bs"
    and rc: "rc = 0 \<and> k + j = msg_len m \<or> rc = - EAGAIN \<and> k + j < msg_len m \<or> rc = - ECONNRESET"
    unfolding bs by blast
  let ?sk = "sk\<lparr>sk_out_offset := word_of_nat (k + j)\<rparr>"
  have rest: "drop j bs = drop (k + j) (wire mem m)" by (simp add: bs add.commute)
  then have snd': "sending mem ?sk (drop j bs)" using m le unfolding sending_def
    by (intro exI [of _ m] exI [of _ "k + j"]) simp
  show ?thesis
  proof (cases "rc = 0")
    case True
    with rc rest have "drop j bs = []" by auto
    with True r acc show ?thesis
      by (intro exI [of _ OutSent] exI [of _ "?sk\<lparr>sk_busy := False\<rparr>"] exI [of _ tr'] exI [of _ j])
        (simp add: send_step_def)
  next
    case False
    with r acc busy snd' show ?thesis
      by (intro exI [of _ "if rc = - EAGAIN then OutAgain else OutError"] exI [of _ ?sk] exI [of _ tr'] exI [of _ j])
        (simp add: send_step_def)
  qed
qed

lemma load_msg_sending:
  assumes "length (sk_out_buf sk) = 128" and "msg_len m < 2 ^ 31"
  shows "sending mem ((load_msg m sk)\<lparr>sk_busy := True\<rparr>) (wire mem m)"
  unfolding sending_def using assms
  by (intro exI [of _ m] exI [of _ 0]) (simp add: load_msg_def store_at_def)

lemma out_event_law:
  fixes sk :: "'a sockbuf_scheme"
  assumes tos: "to_send mem ms sk todo" and os: "writes_ok os (sk_s sk)"
  shows "\<exists>r ms1 sk1 tr1 j. out_event os mem ms sk tr = (r, ms1, sk1, tr1) \<and> sk_s sk1 = sk_s sk \<and>
           accepted os (sk_s sk) tr1 = accepted os (sk_s sk) tr @ take j todo \<and>
           to_send mem ms1 sk1 (drop j todo)"
proof -
  have step: ?thesis
    if b: "sk_busy sk'" "sk_s sk' = sk_s sk" "length (sk_out_buf sk') = 128" "sending mem sk' bs"
      "todo = bs @ wires mem ms'" "\<forall>m \<in> set ms'. msg_len m < 2 ^ 31"
      and ev: "out_event os mem ms sk tr =
        (let (r, sk1, tr1) = send_step os mem sk' tr in (r, ms', sk1, tr1))" for sk' bs ms'
  proof -
    from send_step_law [OF b(4,1), of os tr] os b(2) obtain r sk1 tr1 j where
      s: "send_step os mem sk' tr = (r, sk1, tr1)" "sk_s sk1 = sk_s sk" "length (sk_out_buf sk1) = 128"
        "accepted os (sk_s sk) tr1 = accepted os (sk_s sk) tr @ take j bs"
        "if sk_busy sk1 then sending mem sk1 (drop j bs) else drop j bs = []"
      using b(3) by fastforce
    have "to_send mem ms' sk1 (drop (min j (length bs)) todo)"
      using s b(5,6) by (auto simp: to_send_def min_def split: if_splits)
    moreover have "take j bs = take (min j (length bs)) todo" by (simp add: b(5) min_def)
    ultimately show ?thesis using s ev by auto
  qed
  show ?thesis
  proof (cases "sk_busy sk")
    case True
    with tos obtain bs where "sending mem sk bs" "todo = bs @ wires mem ms" by (auto simp: to_send_def)
    with True tos step [of sk bs ms] show ?thesis by (simp add: to_send_def)
  next
    case idle: False
    show ?thesis
    proof (cases ms)
      case Nil
      with idle tos show ?thesis by (auto intro!: exI [of _ 0])
    next
      case (Cons m ms')
      with idle tos have t: "todo = wire mem m @ wires mem ms'" "length (sk_out_buf sk) = 128"
        "msg_len m < 2 ^ 31" "\<forall>m \<in> set ms'. msg_len m < 2 ^ 31" by (auto simp: to_send_def)
      let ?sk = "(load_msg m sk)\<lparr>sk_busy := True\<rparr>"
      have "sk_busy ?sk" "sk_s ?sk = sk_s sk" "length (sk_out_buf ?sk) = 128"
        using t(2) by (simp_all add: load_msg_def store_at_def)
      from step [OF this load_msg_sending [OF t(2,3)] t(1,4)] idle Cons show ?thesis by simp
    qed
  qed
qed

lemma out_run_law:
  fixes sk :: "'a sockbuf_scheme"
  assumes "to_send mem ms sk todo" and "writes_ok os (sk_s sk)"
  shows "\<exists>ms1 sk1 tr1 j. out_run os mem n ms sk tr = (ms1, sk1, tr1) \<and>
           accepted os (sk_s sk) tr1 = accepted os (sk_s sk) tr @ take j todo \<and>
           to_send mem ms1 sk1 (drop j todo)"
  using assms
proof (induction n arbitrary: ms sk todo tr)
  case 0
  then show ?case by (intro exI [of _ ms] exI [of _ sk] exI [of _ tr] exI [of _ 0]) simp
next
  case (Suc n)
  from out_event_law [OF Suc.prems, of tr] obtain r ms1 sk1 tr1 j where
    e: "out_event os mem ms sk tr = (r, ms1, sk1, tr1)" "sk_s sk1 = sk_s sk"
      "accepted os (sk_s sk) tr1 = accepted os (sk_s sk) tr @ take j todo" "to_send mem ms1 sk1 (drop j todo)"
    by blast
  from Suc.IH [OF e(4), of tr1] e(2) Suc.prems(2) obtain ms2 sk2 tr2 j2 where
    "out_run os mem n ms1 sk1 tr1 = (ms2, sk2, tr2)"
    "accepted os (sk_s sk) tr2 = accepted os (sk_s sk) tr1 @ take j2 (drop j todo)"
    "to_send mem ms2 sk2 (drop j2 (drop j todo))" by auto
  with e show ?case
    by (intro exI [of _ ms2] exI [of _ sk2] exI [of _ tr2] exI [of _ "j + j2"])
      (simp add: take_add add.commute [of j2 j] del: out_event.simps)
qed

section \<open>Reading a stream from its start\<close>

lemma consumed_le: "reads_stream os f stream \<Longrightarrow> consumed os f tr \<le> length stream"
proof (induction tr)
  case (Cons c tr)
  show ?case
  proof (cases c)
    case (Sys_read g n)
    have "nat (sr_ret (os (Sys_read f n # tr))) \<le> length stream - consumed os f tr"
      using Cons.prems by (cases "0 \<le> sr_ret (os (Sys_read f n # tr))") (auto simp: reads_stream_def Let_def)
    with Cons Sys_read show ?thesis by auto
  qed (use Cons in auto)
qed simp

lemma images_append [simp]: "images (xs @ ys) = images xs @ images ys"
  by (simp add: images_def)

lemma reads_stream_prefix:
  assumes "reads_stream os f (take j stream)"
  shows "reads_stream os f stream"
  unfolding reads_stream_def Let_def
proof (intro allI impI)
  fix tr n
  let ?r = "os (Sys_read f n # tr)" and ?c = "consumed os f tr"
  assume "0 \<le> sr_ret ?r"
  with assms have r: "nat (sr_ret ?r) \<le> unat n" "nat (sr_ret ?r) \<le> length (drop ?c (take j stream))"
    "sr_data ?r = take (nat (sr_ret ?r)) (drop ?c (take j stream))"
    by (auto simp: reads_stream_def Let_def)
  then show "nat (sr_ret ?r) \<le> unat n \<and> nat (sr_ret ?r) \<le> length (drop ?c stream) \<and>
      sr_data ?r = take (nat (sr_ret ?r)) (drop ?c stream)"
    by (auto simp: drop_take min_def split: if_splits)
qed

text \<open>The memory while \<open>c\<close> bytes of the stream have been read and \<open>d\<close> messages are complete.\<close>

definition partly_delivered :: "user \<Rightarrow> (netmsg \<times> byte list) list \<Rightarrow> nat \<Rightarrow> nat \<Rightarrow> memory \<Rightarrow> memory" where
  "partly_delivered u mps d c mem =
     (if d < length mps then
        write_mem (u_Token2Dptr u (m_dst (fst (mps ! d))))
          (take (c - length (images (take d mps)) - 32) (snd (mps ! d))) (deliver u (take d mps) mem)
      else deliver u mps mem)"

text \<open>The position of a receiver that has \<open>mps\<close> still before it, in terms of the first of them.\<close>

lemma to_receive_first:
  assumes "to_receive u mem0 mps k str sk mem"
  shows "k \<le> length (images mps)" and "mps = [] \<Longrightarrow> k = 0 \<and> mem = mem0"
    and "mps = (m, pay) # mps' \<Longrightarrow> k < msg_len m \<and> mem = write_mem (u_Token2Dptr u (m_dst m)) (take (k - 32) pay) mem0"
proof -
  show "k \<le> length (images mps)"
  proof (cases mps)
    case (Cons mp mps')
    obtain m pay where mp: "mp = (m, pay)" by (cases mp)
    with assms Cons have "fits m pay" "k < msg_len m" by (auto simp: to_receive_def receiving_def)
    with Cons mp length_msg_image [of m pay] show ?thesis by simp
  qed (use assms in \<open>simp add: to_receive_def\<close>)
qed (use assms in \<open>simp_all add: to_receive_def receiving_def\<close>)

lemma length_images_Suc:
  assumes "\<forall>(m, pay) \<in> set mps. fits m pay" and "d < length mps"
  shows "length (images (take (Suc d) mps)) = length (images (take d mps)) + msg_len (fst (mps ! d))"
proof -
  from assms have "fits (fst (mps ! d)) (snd (mps ! d))" using nth_mem [OF assms(2)] by (cases "mps ! d") force
  with assms(2) show ?thesis by (cases "mps ! d") (simp add: take_Suc_conv_app_nth length_msg_image)
qed

lemma recv_run_from_start:
  fixes sk :: "'a sockbuf_scheme"
  assumes str: "reads_stream os (sk_s sk) (images mps)" and c: "consumed os (sk_s sk) tr = 0"
    and start: "sk_in_offset sk = 0" "length (sk_in_buf sk) = 128" and fits: "\<forall>(m, pay) \<in> set mps. fits m pay"
  shows "\<exists>d sk' mem' tr'. recv_run os u n sk mem tr = (map fst (take d mps), sk', mem', tr') \<and>
     d \<le> length mps \<and> length (images (take d mps)) \<le> consumed os (sk_s sk) tr' \<and>
     (d < length mps \<longrightarrow> consumed os (sk_s sk) tr' < length (images (take (Suc d) mps))) \<and>
     mem' = partly_delivered u mps d (consumed os (sk_s sk) tr') mem"
proof -
  from to_receive_start [OF start fits] c
  have "to_receive u mem mps 0 (drop (consumed os (sk_s sk) tr) (images mps)) sk mem" by simp
  from recv_run_law [OF str this] obtain d k' sk' mem' tr' where
    run: "recv_run os u n sk mem tr = (map fst (take d mps), sk', mem', tr')" and d: "d \<le> length mps"
    and tor: "to_receive u (deliver u (take d mps) mem) (drop d mps) k'
                (drop (consumed os (sk_s sk) tr') (images mps)) sk' mem'" by blast
  let ?c = "consumed os (sk_s sk) tr'" and ?D = "images (take d mps)" and ?R = "images (drop d mps)"
  note where_ = to_receive_first [OF tor]
  have all: "images mps = ?D @ ?R" by (metis append_take_drop_id images_append)
  from tor have left: "drop ?c (images mps) = drop k' ?R" by (simp add: to_receive_def)
  have "length (images mps) - ?c = length ?R - k'" using arg_cong [OF left, of length] by simp
  then have pos: "?c = length ?D + k'" using consumed_le [OF str, of tr'] where_(1) all by simp
  have rest: "k' < msg_len (fst (mps ! d)) \<and> mem' = write_mem (u_Token2Dptr u (m_dst (fst (mps ! d))))
      (take (k' - 32) (snd (mps ! d))) (deliver u (take d mps) mem)" if "d < length mps"
    using where_(3) [of "fst (mps ! d)" "snd (mps ! d)" "drop (Suc d) mps"] that by (simp add: Cons_nth_drop_Suc)
  have "mem' = partly_delivered u mps d ?c mem"
    using rest where_(2) d pos by (auto simp: partly_delivered_def)
  moreover have "?c < length (images (take (Suc d) mps))" if "d < length mps"
    using rest [OF that] pos length_images_Suc [OF fits that] by simp
  ultimately show ?thesis using run d pos by auto
qed

section \<open>A kernel for examples\<close>

text \<open>
  \<open>slow_os f stream\<close> moves one byte per call: a \<open>write\<close> accepts one byte, a \<open>read\<close> of \<open>f\<close>
  returns the next byte of the stream. It meets the documented behaviour that the
  theorems ask of a kernel.
\<close>

fun reads_of :: "fd \<Rightarrow> trace \<Rightarrow> nat" where
  "reads_of f [] = 0"
| "reads_of f (Sys_read g n # tr) = reads_of f tr + (if g = f \<and> n \<noteq> 0 then 1 else 0)"
| "reads_of f (_ # tr) = reads_of f tr"

fun slow_os :: "fd \<Rightarrow> byte list \<Rightarrow> os" where
  "slow_os f stream (Sys_write g bs # tr) = sysret (int (min 1 (length bs)))"
| "slow_os f stream (Sys_read g n # tr) =
     (if g = f \<and> n \<noteq> 0 then sysdata (take 1 (drop (reads_of f tr) stream)) else sysdata [])"
| "slow_os f stream tr = sysret 0"

lemma slow_os_consumed: "consumed (slow_os f stream) f tr = min (reads_of f tr) (length stream)"
  by (induction f tr rule: reads_of.induct) (auto simp: sysdata_def)

lemma slow_os_reads: "reads_stream (slow_os f stream) f stream"
proof -
  have "n \<noteq> 0 \<Longrightarrow> x \<le> Suc 0 \<Longrightarrow> x \<le> unat n" for n :: "64 word" and x
    by (metis Suc_leI le_trans unat_gt_0)
  then show ?thesis
    by (auto simp: reads_stream_def slow_os_consumed sysdata_def min_def Suc_le_eq Let_def split: if_splits)
qed

lemma slow_os_writes: "writes_ok (slow_os f stream) g"
  by (simp add: writes_ok_def sysret_def)

definition fresh_sock :: "fd \<Rightarrow> sockbuf" where
  "fresh_sock f = \<lparr>sk_s = f, sk_in_buf = replicate 128 0, sk_out_buf = replicate 128 0,
     sk_in_offset = 0, sk_out_offset = 0, sk_busy = False\<rparr>"

lemma fresh_sock_simps [simp]:
  "sk_s (fresh_sock f) = f" "length (sk_in_buf (fresh_sock f)) = 128" "length (sk_out_buf (fresh_sock f)) = 128"
  "sk_in_offset (fresh_sock f) = 0" "sk_out_offset (fresh_sock f) = 0" "\<not> sk_busy (fresh_sock f)"
  by (simp_all add: fresh_sock_def)

text \<open>A user whose token is the address itself, and two messages: a read command and two bytes of data.\<close>

definition plain_user :: user where
  "plain_user = \<lparr>u_Token2Dptr = (\<lambda>t. t), u_Token2DptrSize = (\<lambda>_. 2),
     u_Token2Ip = (\<lambda>_. \<lparr>sin_family = 2, sin_port = 8341, s_addr = 1\<rparr>)\<rparr>"

definition sample_cmd :: netmsg where
  "sample_cmd = \<lparr>msg_type = 0, m_src = 7, m_dst = 9, m_extra = 1\<rparr>"

definition sample_data :: netmsg where
  "sample_data = \<lparr>msg_type = 1, m_src = 4096, m_dst = 8192, m_extra = 2\<rparr>"

lemma sample_len: "msg_len sample_cmd = 32" "msg_len sample_data = 34"
  "payload_len sample_cmd = 0" "payload_len sample_data = 2"
  by (simp_all add: msg_len_def payload_len_def sample_cmd_def sample_data_def)

section \<open>Properties\<close>

text \<open>C8: The byte stream is cut back into the messages. Let the descriptor of a socket with
  an empty input position deliver the images of a list of messages (32-byte header, then
  the payload that the header announces, each below 2 GiB), in whatever pieces the kernel
  chooses, with any number of empty and interrupted reads between them. After any number
  of readiness events the messages handed over are exactly those whose last byte has been
  read, in order and with the header that was sent, and the user's memory is what
  delivering their payloads to the addresses of their destination tokens makes of it, plus
  the bytes that have arrived of the message in progress.\<close>

theorem stream_received_as_messages:
  fixes sk :: "'a sockbuf_scheme"
  assumes "reads_stream os (sk_s sk) (images mps)" and "consumed os (sk_s sk) tr = 0"
    and "sk_in_offset sk = 0" and "length (sk_in_buf sk) = 128" and "\<forall>(m, pay) \<in> set mps. fits m pay"
  shows "\<exists>d sk' mem' tr'. recv_run os u n sk mem tr = (map fst (take d mps), sk', mem', tr') \<and>
     d \<le> length mps \<and> length (images (take d mps)) \<le> consumed os (sk_s sk) tr' \<and>
     (d < length mps \<longrightarrow> consumed os (sk_s sk) tr' < length (images (take (Suc d) mps))) \<and>
     mem' = partly_delivered u mps d (consumed os (sk_s sk) tr') mem"
  using assms by (rule recv_run_from_start)

theorem stream_received_as_messages_witness:
  "let mps = [(sample_cmd, []), (sample_data, [5, 6])]; os = slow_os 3 (images mps) in
   \<exists>d sk' mem' tr'. recv_run os plain_user 80 (fresh_sock 3) (\<lambda>_. 0) [] = (map fst (take d mps), sk', mem', tr') \<and>
     d \<le> length mps \<and> length (images (take d mps)) \<le> consumed os 3 tr' \<and>
     mem' = partly_delivered plain_user mps d (consumed os 3 tr') (\<lambda>_. 0)"
  using stream_received_as_messages
    [of "slow_os 3 (images [(sample_cmd, []), (sample_data, [5, 6])])" "fresh_sock 3"
        "[(sample_cmd, []), (sample_data, [5, 6])]" "[]" plain_user 80 "\<lambda>_. 0"]
    slow_os_reads [of 3 "images [(sample_cmd, []), (sample_data, [5, 6])]"]
  by (auto simp: Let_def fits_def sample_len simp del: recv_run.simps images_simps)

text \<open>C9: The queue of messages becomes the byte stream. An idle socket with buffered messages (each
  below 2 GiB with its payload) sends, over any number of output events and whatever
  part of each write the kernel accepts, a prefix of the concatenation of header and
  payload of every message, without a gap, a repetition or a byte from elsewhere; once
  the queue is empty and the sender idle again, it has sent all of it.\<close>

theorem queue_sent_as_stream:
  fixes sk :: "'a sockbuf_scheme"
  assumes "\<not> sk_busy sk" and "length (sk_out_buf sk) = 128" and "\<forall>m \<in> set ms. msg_len m < 2 ^ 31"
    and "writes_ok os (sk_s sk)"
  shows "\<exists>ms1 sk1 tr1 j. out_run os mem n ms sk tr = (ms1, sk1, tr1) \<and>
     accepted os (sk_s sk) tr1 = accepted os (sk_s sk) tr @ take j (wires mem ms) \<and>
     (ms1 = [] \<and> \<not> sk_busy sk1 \<longrightarrow> take j (wires mem ms) = wires mem ms)"
proof -
  from assms have "to_send mem ms sk (wires mem ms)" by (simp add: to_send_def)
  from out_run_law [OF this assms(4), of n tr] obtain ms1 sk1 tr1 j where
    r: "out_run os mem n ms sk tr = (ms1, sk1, tr1)"
    "accepted os (sk_s sk) tr1 = accepted os (sk_s sk) tr @ take j (wires mem ms)"
    "to_send mem ms1 sk1 (drop j (wires mem ms))" by blast
  then have "ms1 = [] \<and> \<not> sk_busy sk1 \<longrightarrow> take j (wires mem ms) = wires mem ms"
    by (auto simp: to_send_def)
  with r show ?thesis by blast
qed

theorem queue_sent_as_stream_witness:
  "\<exists>ms1 sk1 tr1 j. out_run (slow_os 3 []) (\<lambda>_. 1) 70 [sample_cmd, sample_data] (fresh_sock 3) [] = (ms1, sk1, tr1) \<and>
     accepted (slow_os 3 []) 3 tr1 = take j (wires (\<lambda>_. 1) [sample_cmd, sample_data])"
  using queue_sent_as_stream [of "fresh_sock 3" "[sample_cmd, sample_data]" "slow_os 3 []" "\<lambda>_. 1" 70 "[]"]
  by (auto simp: sample_len slow_os_writes simp del: out_run.simps)

text \<open>The payload a sender attaches to each message is what its memory holds at the message's source address.\<close>

definition with_payload :: "memory \<Rightarrow> netmsg \<Rightarrow> netmsg \<times> byte list" where
  "with_payload mem m = (m, read_mem mem (m_src m) (payload_len m))"

lemma images_with_payload: "images (map (with_payload mem) ms) = wires mem ms"
  by (induction ms) (simp_all add: with_payload_def msg_image_def wire_def)

lemma map_fst_with_payload [simp]: "map fst (map (with_payload mem) ms) = ms"
  by (simp add: with_payload_def comp_def)

lemma fits_with_payload:
  "\<forall>m \<in> set ms. msg_len m < 2 ^ 31 \<Longrightarrow> \<forall>(m, pay) \<in> set (map (with_payload mem) ms). fits m pay"
  by (auto simp: with_payload_def fits_def)

lemma all_received:
  assumes "d \<le> length mps" and "d < length mps \<longrightarrow> c < length (images (take (Suc d) mps))" and "c = length (images mps)"
  shows "d = length mps"
proof -
  have "images mps = images (take (Suc d) mps) @ images (drop (Suc d) mps)" by (metis append_take_drop_id images_append)
  then have "length (images (take (Suc d) mps)) \<le> length (images mps)" by (metis le_add1 length_append)
  with assms show ?thesis by linarith
qed

text \<open>C7: End to end. Two processes are joined by a connection that delivers, in order, the bytes the
  sender's kernel has accepted. Let every queued message be shorter than 2 GiB, its header included, the sender have no message half sent,
  and the receiver stand at the start of a message. For every schedule of output events on the sender, of
  input events on the receiver and of partial reads and writes, the receiver hands over a
  prefix of the messages that were queued, unchanged and in order; and if the sender has
  become idle with an empty queue and the receiver has read what was accepted, it has
  handed over all of them and its memory is its old memory with every payload, as it was
  in the sender's memory, stored at the address of the destination token.\<close>

theorem messages_arrive_end_to_end:
  fixes skS :: "'a sockbuf_scheme" and skR :: "'b sockbuf_scheme"
  assumes idle: "\<not> sk_busy skS" "length (sk_out_buf skS) = 128" "\<forall>m \<in> set ms. msg_len m < 2 ^ 31"
    and osS: "writes_ok osS (sk_s skS)" and sent: "out_run osS memS nS ms skS [] = (left, skS1, trS)"
    and fresh: "sk_in_offset skR = 0" "length (sk_in_buf skR) = 128"
    and osR: "reads_stream osR (sk_s skR) (accepted osS (sk_s skS) trS)"
    and received: "recv_run osR u nR skR memR [] = (got, skR1, memR1, trR)"
  shows "\<exists>d \<le> length ms. got = take d ms \<and>
     (left = [] \<and> \<not> sk_busy skS1 \<and> consumed osR (sk_s skR) trR = length (accepted osS (sk_s skS) trS) \<longrightarrow>
        d = length ms \<and> memR1 = deliver u (map (with_payload memS) ms) memR)"
proof -
  let ?mps = "map (with_payload memS) ms" and ?c = "consumed osR (sk_s skR) trR"
  from idle have "to_send memS ms skS (wires memS ms)" by (simp add: to_send_def)
  from out_run_law [OF this osS, of nS "[]"] sent obtain j where
    acc: "accepted osS (sk_s skS) trS = take j (wires memS ms)"
    and tos: "to_send memS left skS1 (drop j (wires memS ms))" by auto
  from osR have "reads_stream osR (sk_s skR) (images ?mps)"
    unfolding acc images_with_payload by (rule reads_stream_prefix)
  from recv_run_from_start [OF this consumed.simps(1) fresh fits_with_payload [OF idle(3)], of u nR memR]
  obtain d where d: "d \<le> length ms" "got = map fst (take d ?mps)"
    "d < length ms \<Longrightarrow> ?c < length (images (take (Suc d) ?mps))"
    "memR1 = partly_delivered u ?mps d ?c memR" unfolding received length_map prod.inject by blast
  have "got = take d ms" unfolding d(2) take_map map_fst_with_payload ..
  moreover have "d = length ms \<and> memR1 = deliver u ?mps memR"
    if fin: "left = [] \<and> \<not> sk_busy skS1 \<and> ?c = length (accepted osS (sk_s skS) trS)"
  proof -
    from fin tos acc have "?c = length (images ?mps)" by (simp add: to_send_def images_with_payload)
    then have "d = length ?mps" using d(1,3) by (intro all_received) simp_all
    with d(1,4) show ?thesis by (simp add: partly_delivered_def)
  qed
  ultimately show ?thesis using d(1) by blast
qed

theorem messages_arrive_end_to_end_witness:
  "let ms = [sample_cmd, sample_data]; osS = slow_os 3 []; (left, skS1, trS) = out_run osS (\<lambda>_. 1) 70 ms (fresh_sock 3) [];
       osR = slow_os 5 (accepted osS 3 trS);
       (got, skR1, memR1, trR) = recv_run osR plain_user 90 (fresh_sock 5) (\<lambda>_. 0) []
   in \<exists>d \<le> length ms. got = take d ms"
proof -
  obtain left skS1 trS where s: "out_run (slow_os 3 []) (\<lambda>_. 1) 70 [sample_cmd, sample_data] (fresh_sock 3) [] = (left, skS1, trS)"
    by (metis prod_cases3)
  obtain got skR1 memR1 trR where r: "recv_run (slow_os 5 (accepted (slow_os 3 []) 3 trS)) plain_user 90 (fresh_sock 5) (\<lambda>_. 0) []
      = (got, skR1, memR1, trR)" by (metis prod_cases4)
  have "\<exists>d \<le> length [sample_cmd, sample_data]. got = take d [sample_cmd, sample_data] \<and>
      (left = [] \<and> \<not> sk_busy skS1 \<and> consumed (slow_os 5 (accepted (slow_os 3 []) 3 trS)) 5 trR
          = length (accepted (slow_os 3 []) 3 trS) \<longrightarrow>
        d = length [sample_cmd, sample_data] \<and>
        memR1 = deliver plain_user (map (with_payload (\<lambda>_. 1)) [sample_cmd, sample_data]) (\<lambda>_. 0))"
    using messages_arrive_end_to_end [OF _ _ _ _ s _ _ _ r] slow_os_writes slow_os_reads
    by (simp only: fresh_sock_simps set_simps ball_simps sample_len insert_iff empty_iff) simp
  then show ?thesis by (auto simp only: s r Let_def prod.case list.size)
qed

lemma write_one:
  "sr_ret (os (Sys_write f buf # tr)) = 1 \<Longrightarrow> write_some os f buf off tr = (False, off + 1, Sys_write f buf # tr)"
  by (simp add: write_some_def Let_def)

text \<open>C35: Where the \<open>int\<close> offset stops counting. For a data message of 2 GiB or more (\<open>data_len\<close> is an
  \<open>int64_t\<close>), a sender that stands one byte below 2 GiB and writes that byte turns its
  offset to \<open>-2^31\<close>; it reports -EAGAIN, and on the next event it offers the bytes from
  2 GiB and 32 bytes below the message's source address, more than the message has,
  instead of the rest of the payload.\<close>

theorem send_offset_wraps_at_2GiB:
  fixes sk :: "'a sockbuf_scheme"
  assumes out: "take 32 (sk_out_buf sk) = NetMsg_bytes m" and off: "sk_out_offset sk = 2 ^ 31 - 1"
    and data: "msg_type m = 1" "2 ^ 31 \<le> unat (m_extra m)" "unat (m_extra m) < 2 ^ 62"
    and one: "\<And>buf. sr_ret (os (Sys_write (sk_s sk) buf # tr)) = 1"
  shows "\<exists>tr1 rc2 sk2.
     NetSocket_SendRaw os mem sk tr = (- EAGAIN, sk\<lparr>sk_out_offset := - (2 ^ 31)\<rparr>, tr1) \<and>
     NetSocket_SendRaw os mem (sk\<lparr>sk_out_offset := - (2 ^ 31)\<rparr>) tr1 =
       (rc2, sk2, Sys_write (sk_s sk) (read_mem mem (m_src m - 2 ^ 31 - 32) (msg_len m + 2 ^ 31)) # tr1)"
proof -
  from out have msg: "NetMsg_of_bytes (sk_out_buf sk) = m" by (rule of_bytes_header)
  have sc: "(scast (2 ^ 31 - 1 :: 32 word) :: 64 word) = 2 ^ 31 - 1" "(scast (- (2 ^ 31) :: 32 word) :: 64 word) = - (2 ^ 31)"
    "sint (2 ^ 31 - 1 :: 32 word) = 2 ^ 31 - 1" "sint (- (2 ^ 31) :: 32 word) = - (2 ^ 31)" by simp_all
  have h: "\<not> below_header (2 ^ 31 - 1)" "\<not> below_header (- (2 ^ 31))"
    unfolding below_header_def sc by simp_all
  have len: "msg_len m = 32 + unat (m_extra m)" using data by (simp add: msg_len_def payload_len_def)
  have sn: "sint (word_of_nat n :: 64 word) = int n" if "n < 2 ^ 63" for n
    using that by (simp add: signed_of_nat signed_take_bit_int_eq_self)
  define L where "L = msg_len m"
  have L: "2 ^ 31 + 32 \<le> L" "L < 2 ^ 63" "L + 2 ^ 31 < 2 ^ 64" using data len by (simp_all add: L_def)
  have tot: "total_msg_sz m = word_of_nat L" by (simp add: total_msg_sz_eq L_def)
  have t: "below_total (2 ^ 31 - 1) (total_msg_sz m)" "below_total (- (2 ^ 31)) (total_msg_sz m)"
    unfolding below_total_def sc tot sn [OF L(2)] using L(1) by simp_all
  have "(- (2 ^ 31) :: 32 word) = 2147483648" by simp
  with t(2) have t3: "below_total 2147483648 (total_msg_sz m)" by metis
  have "unat (word_of_nat (L + 2 ^ 31) :: 64 word) = L + 2 ^ 31"
    using L(3) by (simp only: unat_of_nat) (simp add: take_bit_nat_eq_self)
  then have cnt: "unat (total_msg_sz m - scast (- (2 ^ 31) :: 32 word)) = msg_len m + 2 ^ 31"
    unfolding sc tot by (simp add: L_def)
  let ?b = "read_mem mem (m_src m + scast (2 ^ 31 - 1 :: 32 word) - 32) (unat (total_msg_sz m - scast (2 ^ 31 - 1 :: 32 word)))"
  have s1: "NetSocket_SendRaw os mem sk tr = (- EAGAIN, sk\<lparr>sk_out_offset := - (2 ^ 31)\<rparr>, Sys_write (sk_s sk) ?b # tr)"
    using h t t3 write_one [of os "sk_s sk" ?b tr "2 ^ 31 - 1"] one [of ?b]
    by (simp add: NetSocket_SendRaw_def send_header_def send_payload_def off msg Let_def)
  let ?c = "read_mem mem (m_src m - 2 ^ 31 - 32) (msg_len m + 2 ^ 31)"
  have "snd (snd (write_some os f buf o1 tr1)) = Sys_write f buf # tr1" for f buf o1 tr1
    by (simp add: write_some_def Let_def)
  then have "snd (snd (NetSocket_SendRaw os mem (sk\<lparr>sk_out_offset := - (2 ^ 31)\<rparr>) tr1)) = Sys_write (sk_s sk) ?c # tr1" for tr1
    using h t cnt sc
    by (simp add: NetSocket_SendRaw_def send_header_def send_payload_def msg Let_def split_beta)
  with s1 show ?thesis by (metis prod.collapse)
qed

definition huge_msg :: netmsg where
  "huge_msg = \<lparr>msg_type = 1, m_src = 4096, m_dst = 8192, m_extra = 2 ^ 32\<rparr>"

theorem send_offset_wraps_at_2GiB_witness:
  "let sk = (fresh_sock 3)\<lparr>sk_out_buf := NetMsg_bytes huge_msg, sk_out_offset := 2 ^ 31 - 1\<rparr> in
   \<exists>tr1 rc2 sk2.
     NetSocket_SendRaw (\<lambda>_. sysret 1) (\<lambda>_. 7) sk [] = (- EAGAIN, sk\<lparr>sk_out_offset := - (2 ^ 31)\<rparr>, tr1) \<and>
     NetSocket_SendRaw (\<lambda>_. sysret 1) (\<lambda>_. 7) (sk\<lparr>sk_out_offset := - (2 ^ 31)\<rparr>) tr1 =
       (rc2, sk2, Sys_write 3 (read_mem (\<lambda>_. 7) (m_src huge_msg - 2 ^ 31 - 32) (msg_len huge_msg + 2 ^ 31)) # tr1)"
proof -
  have m: "msg_type huge_msg = 1" "unat (m_extra huge_msg) = 2 ^ 32" by (simp_all add: huge_msg_def)
  show ?thesis unfolding Let_def
    using send_offset_wraps_at_2GiB [of "(fresh_sock 3)\<lparr>sk_out_buf := NetMsg_bytes huge_msg, sk_out_offset := 2 ^ 31 - 1\<rparr>"
        huge_msg "\<lambda>_. sysret 1" "[]" "\<lambda>_. 7"] m
    by (simp add: sysret_def)
qed

text \<open>C36: The end of the stream is not noticed. When the peer has closed the connection every read
  returns 0; RecvRaw then reports -EAGAIN and changes neither the socket nor the memory,
  at every position inside or between messages, so the socket waits for ever.\<close>

theorem end_of_stream_not_noticed:
  fixes sk :: "'a sockbuf_scheme"
  assumes rcv: "receiving u mem0 m pay k sk mem" and fits: "fits m pay"
    and eof: "\<And>tr n. sr_ret (os (Sys_read (sk_s sk) n # tr)) = 0" "\<And>tr n. sr_data (os (Sys_read (sk_s sk) n # tr)) = []"
  shows "\<exists>tr'. NetSocket_RecvRaw os u mem sk tr = (- EAGAIN, sk, mem, tr')"
proof -
  have r: "read_some os (sk_s sk) n off tr = (False, [], off, Sys_read (sk_s sk) n # tr)" for n off tr
    using eof by (simp add: read_some_def Let_def)
  from rcv fits have k: "k < msg_len m" "k < 2 ^ 31" "sk_in_offset sk = word_of_nat k" "msg_len m < 2 ^ 31"
    by (auto simp: receiving_def fits_def)
  from k have same: "sk\<lparr>sk_in_offset := word_of_nat k\<rparr> = sk" by (cases sk) simp
  show ?thesis
  proof (cases "k < 32")
    case True
    with k r same show ?thesis
      by (simp add: NetSocket_RecvRaw_def recv_header_def below_header_off store_at_def Let_def)
  next
    case False
    with rcv have "take 32 (sk_in_buf sk) = NetMsg_bytes m" by (simp add: receiving_def)
    then have "NetMsg_of_bytes (sk_in_buf sk) = m" by (rule of_bytes_header)
    with False k r same show ?thesis
      by (simp add: NetSocket_RecvRaw_def recv_header_def recv_payload_def below_header_off below_total_off Let_def)
  qed
qed

theorem end_of_stream_not_noticed_witness:
  "\<exists>tr'. NetSocket_RecvRaw (\<lambda>_. sysdata []) plain_user (\<lambda>_. 0) (fresh_sock 3) [] = (- EAGAIN, fresh_sock 3, (\<lambda>_. 0), tr')"
  by (rule end_of_stream_not_noticed [of plain_user "\<lambda>_. 0" sample_cmd "[]" 0])
    (simp_all add: receiving_start fits_def sample_len sysdata_def)

end
