(* ===== verification/Netchannel.thy ===== *)
theory Netchannel
  imports Prelude
begin

text \<open>
  The closable FIFO of \<open>src/channel.h\<close> between the network threads and the thread that
  runs the callbacks. Each operation runs under the channel's mutex, so it is one step
  on the state. \<open>Receive\<close> waits on a condition variable; a call that would wait is the
  outcome \<open>None\<close>, and a call that returns is \<open>Some\<close> of the result code, the item stored
  through the pointer (if any) and the new state.
\<close>

record 'a channel =
  ch_val :: "'a list"
  ch_send_closed :: bool
  ch_receive_closed :: bool

definition Channel_new :: "'a channel" where
  "Channel_new = \<lparr>ch_val = [], ch_send_closed = False, ch_receive_closed = False\<rparr>"

definition Channel_Send :: "'a \<Rightarrow> 'a channel \<Rightarrow> int \<times> 'a channel" where
  "Channel_Send x c =
     (if ch_send_closed c then (- 1, c) else (0, c\<lparr>ch_val := ch_val c @ [x]\<rparr>))"

definition receive_ready :: "'a channel \<Rightarrow> bool" where
  "receive_ready c \<longleftrightarrow> ch_val c \<noteq> [] \<or> ch_receive_closed c \<or> ch_send_closed c"

definition Channel_Receive :: "'a channel \<Rightarrow> (int \<times> 'a option \<times> 'a channel) option" where
  "Channel_Receive c =
     (if \<not> receive_ready c then None
      else if ch_val c = [] \<or> ch_receive_closed c then Some (- 1, None, c)
      else Some (0, Some (hd (ch_val c)), c\<lparr>ch_val := tl (ch_val c)\<rparr>))"

definition Channel_CloseSendEnd :: "'a channel \<Rightarrow> 'a channel" where
  "Channel_CloseSendEnd c = c\<lparr>ch_send_closed := True\<rparr>"

definition Channel_CloseReceiveEnd :: "'a channel \<Rightarrow> 'a channel" where
  "Channel_CloseReceiveEnd c = c\<lparr>ch_receive_closed := True\<rparr>"

end
