(* ===== verification/Networld.thy ===== *)
theory Networld
  imports Netqueue Netpoller Wirestream Netchannel
begin

text \<open>
  The state of a process that uses klibmsg, as the classes of \<open>src/fsm.h\<close>, \<open>ctx.h\<close>,
  \<open>worker.h\<close>, \<open>socket.h\<close>, \<open>device.h\<close> and \<open>utils.h\<close> lay it out. Objects refer to each
  other by pointers (a socket is in the hands of the device, its worker, a listener
  and several queues at once), so sockets and message wrappers live in a store under
  numbers that stand for their addresses; a deleted object is \<open>None\<close> and any access to
  it fails with \<open>UseAfterFree\<close>. The \<open>next_\<close> fields of all intrusive queue items form
  one store, \<open>w_next\<close>.
\<close>

section \<open>Addresses\<close>

text \<open>The events and tasks embedded in a socket, in the order of \<open>socket.h\<close>.\<close>

datatype evk = EvEstablished | EvSent | EvReceived | EvError
datatype tk = TkConnecting | TkConnected | TkAccept | TkSend | TkRecv | TkStop

text \<open>A \<open>NetFsm\<close> is the device's or a socket's; \<open>StoppedEv\<close> is the member \<open>stopped_\<close> of a \<open>NetFsm\<close>.\<close>

datatype fsmid = FDevice | FSock nat
datatype evid = SockEv nat evk | StoppedEv fsmid
datatype qitem = EvItem evid | TaskItem nat tk | StopItem nat | MsgItem nat

text \<open>What a \<open>void*\<close> source pointer can point to; a message is passed by the object \<open>NewNetMsg\<close> made.\<close>

datatype anyptr = PNull | PSock nat | PMsg netmsg | PTask nat tk | PWfd nat

section \<open>Objects\<close>

record netevent =
  e_fsm :: "fsmid option"
  e_src :: int
  e_srcptr :: anyptr
  e_type :: int

text \<open>The two pairs of handler functions that are installed in a \<open>NetFsm\<close>.\<close>

datatype handler = SocketHandlers | DeviceHandlers

record netfsm =
  f_state :: int
  f_src :: int
  f_srcptr :: anyptr
  f_owner :: "fsmid option"
  f_ctx :: "nat option"
  f_stopped :: netevent
  f_handlers :: handler

text \<open>
  A context is a member of a socket and is named by the socket's number. The callback
  \<open>ctx_onleave_handle_\<close> is the empty function in every context of the code
  (socket.cpp, line 15) and is left out.
\<close>

record netctx =
  cx_events :: "qitem netqueue"
  cx_eventsto :: "qitem netqueue"
  cx_locked :: bool

record nettask =
  t_src :: int
  t_owner :: "fsmid option"

record networkerfd =
  wf_handle :: phandle
  wf_src :: int
  wf_owner :: "fsmid option"

record netsock = sockbuf +
  sk_fsm :: netfsm
  sk_ip :: sockaddr
  sk_state :: int
  sk_worker :: nat
  sk_wfd :: networkerfd
  sk_ctx :: netctx
  sk_task :: "tk \<Rightarrow> nettask"
  sk_event :: "evk \<Rightarrow> netevent"
  sk_asock :: "nat option"
  sk_errnum :: int
  sk_msgq :: "qitem netqueue"

record networker =
  wk_tasks :: "qitem netqueue"
  wk_efd :: int
  wk_poller :: npoller
  wk_efd_handle :: phandle

text \<open>
  The device. \<open>token2sock_\<close> is an \<open>unordered_map\<close>: an association list in the order of insertion. The
  order in which the code's loop over it runs is not specified; it only looks for a socket with a given address, and all
  the entries for one address name the same socket (\<open>one_socket_per_machine\<close>), so that the order makes no
  difference while none of these sockets has been deleted. \<open>token2callback_\<close> is only looked up. A callback (\<open>std::function\<close>) is a number.
\<close>

record netdevice =
  dv_fsm :: netfsm
  dv_ip :: sockaddr
  dv_listen :: nat
  dv_token2sock :: "(64 word \<times> nat) list"
  dv_token2callback :: "64 word \<rightharpoonup> nat"
  dv_sock_sets :: "nat list"
  dv_cq :: "nat channel"

text \<open>A line printed by \<open>kLibMsgFsmError\<close>: its text and the values printed after its labels.\<close>

record errline =
  el_text :: string
  el_src :: int
  el_state :: int
  el_type :: int

record world =
  w_next :: "qitem links"
  w_socks :: "nat \<Rightarrow> netsock option"
  w_nsocks :: nat
  w_wraps :: "nat \<Rightarrow> msgwrapper option"
  w_nwraps :: nat
  w_workers :: "networker list"
  w_cur_worker :: int
  w_dev :: netdevice
  w_mem :: memory
  w_trace :: trace
  w_log :: "errline list"

text \<open>The parameters of a run: the kernel and the user's callbacks.\<close>

record env =
  env_os :: os
  env_user :: user

section \<open>Access\<close>

definition get_sock :: "nat \<Rightarrow> world \<Rightarrow> netsock res" where
  "get_sock i w = (case w_socks w i of None \<Rightarrow> Inl (UseAfterFree ''NetSocket'') | Some s \<Rightarrow> Inr s)"

definition upd_sock :: "nat \<Rightarrow> (netsock \<Rightarrow> netsock) \<Rightarrow> world \<Rightarrow> world res" where
  "upd_sock i f w = andThen (get_sock i w) (\<lambda>s. Inr (w\<lparr>w_socks := (w_socks w)(i \<mapsto> f s)\<rparr>))"

definition get_worker :: "nat \<Rightarrow> world \<Rightarrow> networker res" where
  "get_worker k w = (if k < length (w_workers w) then Inr (w_workers w ! k)
                     else Inl (OutOfBounds ''worker_''))"

definition upd_worker :: "nat \<Rightarrow> (networker \<Rightarrow> networker) \<Rightarrow> world \<Rightarrow> world res" where
  "upd_worker k f w = andThen (get_worker k w) (\<lambda>wk.
     Inr (w\<lparr>w_workers := (w_workers w)[k := f wk]\<rparr>))"

definition upd_dev :: "(netdevice \<Rightarrow> netdevice) \<Rightarrow> world \<Rightarrow> world" where
  "upd_dev f w = w\<lparr>w_dev := f (w_dev w)\<rparr>"

definition get_fsm :: "fsmid \<Rightarrow> world \<Rightarrow> netfsm res" where
  "get_fsm f w = (case f of FDevice \<Rightarrow> Inr (dv_fsm (w_dev w))
                          | FSock i \<Rightarrow> andThen (get_sock i w) (\<lambda>s. Inr (sk_fsm s)))"

definition upd_fsm :: "fsmid \<Rightarrow> (netfsm \<Rightarrow> netfsm) \<Rightarrow> world \<Rightarrow> world res" where
  "upd_fsm f g w = (case f of FDevice \<Rightarrow> Inr (upd_dev (dv_fsm_update g) w)
                            | FSock i \<Rightarrow> upd_sock i (sk_fsm_update g) w)"

definition get_event :: "evid \<Rightarrow> world \<Rightarrow> netevent res" where
  "get_event e w = (case e of SockEv i k \<Rightarrow> andThen (get_sock i w) (\<lambda>s. Inr (sk_event s k))
                            | StoppedEv f \<Rightarrow> andThen (get_fsm f w) (\<lambda>x. Inr (f_stopped x)))"

definition upd_event :: "evid \<Rightarrow> (netevent \<Rightarrow> netevent) \<Rightarrow> world \<Rightarrow> world res" where
  "upd_event e g w =
     (case e of SockEv i k \<Rightarrow> upd_sock i (sk_event_update (\<lambda>ev. ev(k := g (ev k)))) w
              | StoppedEv f \<Rightarrow> upd_fsm f (f_stopped_update g) w)"

definition sock_state :: "nat \<Rightarrow> world \<Rightarrow> int res" where
  "sock_state i w = andThen (get_sock i w) (\<lambda>s. Inr (sk_state s))"

definition set_state :: "nat \<Rightarrow> int \<Rightarrow> world \<Rightarrow> world res" where
  "set_state i st w = upd_sock i (sk_state_update (\<lambda>_. st)) w"

text \<open>Following a pointer that may be null.\<close>

definition deref :: "string \<Rightarrow> 'a option \<Rightarrow> 'a res" where
  "deref what p = (case p of None \<Rightarrow> Inl (BadPointer what) | Some x \<Rightarrow> Inr x)"

text \<open>A system call from the world: the result and the world with the longer trace.\<close>

definition sys :: "env \<Rightarrow> syscall \<Rightarrow> world \<Rightarrow> sysres \<times> world" where
  "sys E c w = (env_os E (c # w_trace w), w\<lparr>w_trace := c # w_trace w\<rparr>)"

definition close_fd :: "env \<Rightarrow> fd \<Rightarrow> world \<Rightarrow> world res" where
  "close_fd E f w = andThen (NetCloseFd (env_os E) f (w_trace w)) (\<lambda>tr. Inr (w\<lparr>w_trace := tr\<rparr>))"

text \<open>\<open>kLibMsgFsmError\<close> (utils.h) prints and returns; it prints \<open>state\<close> after the label \<open>src\<close> and \<open>src\<close> after \<open>state\<close>.\<close>

definition kLibMsgFsmError :: "string \<Rightarrow> int \<Rightarrow> int \<Rightarrow> int \<Rightarrow> world \<Rightarrow> world" where
  "kLibMsgFsmError txt state src type w =
     w\<lparr>w_log := \<lparr>el_text = txt, el_src = state, el_state = src, el_type = type\<rparr> # w_log w\<rparr>"

text \<open>The macros of utils.h, with \<open>sock->state()\<close> read at the point of the call.\<close>

definition NetFsmBadAction :: "nat \<Rightarrow> int \<Rightarrow> int \<Rightarrow> world \<Rightarrow> world res" where
  "NetFsmBadAction i src type w = andThen (sock_state i w) (\<lambda>st.
     Inr (kLibMsgFsmError ''Unexpected action'' st src type w))"

definition NetFsmBadState :: "nat \<Rightarrow> int \<Rightarrow> int \<Rightarrow> world \<Rightarrow> world res" where
  "NetFsmBadState i src type w = andThen (sock_state i w) (\<lambda>st.
     Inr (kLibMsgFsmError ''Unexpected state'' st src type w))"

definition NetFsmBadSource :: "nat \<Rightarrow> int \<Rightarrow> int \<Rightarrow> world \<Rightarrow> world res" where
  "NetFsmBadSource i src type w = andThen (sock_state i w) (\<lambda>st.
     Inr (kLibMsgFsmError ''Unexpected source'' st src type w))"

section \<open>Queues inside the world\<close>

text \<open>Pushing on and popping from a queue that is a field of a socket or a worker; the links are shared.\<close>

definition push_on ::
  "qitem \<Rightarrow> (world \<Rightarrow> qitem netqueue res) \<Rightarrow> (qitem netqueue \<Rightarrow> world \<Rightarrow> world res) \<Rightarrow> world \<Rightarrow> world res" where
  "push_on x get put w =
     andThen (get w) (\<lambda>q. andThen (NetQueue_Push x q (w_next w)) (\<lambda>(q', nx).
     put q' (w\<lparr>w_next := nx\<rparr>)))"

definition pop_from ::
  "(world \<Rightarrow> qitem netqueue res) \<Rightarrow> (qitem netqueue \<Rightarrow> world \<Rightarrow> world res) \<Rightarrow> world \<Rightarrow> (qitem option \<times> world) res" where
  "pop_from get put w =
     andThen (get w) (\<lambda>q. andThen (NetQueue_Pop q (w_next w)) (\<lambda>(x, q', nx).
     andThen (put q' (w\<lparr>w_next := nx\<rparr>)) (\<lambda>w'. Inr (x, w'))))"

definition get_tasks :: "nat \<Rightarrow> world \<Rightarrow> qitem netqueue res" where
  "get_tasks k w = andThen (get_worker k w) (\<lambda>wk. Inr (wk_tasks wk))"

definition put_tasks :: "nat \<Rightarrow> qitem netqueue \<Rightarrow> world \<Rightarrow> world res" where
  "put_tasks k q w = upd_worker k (wk_tasks_update (\<lambda>_. q)) w"

definition get_events :: "nat \<Rightarrow> world \<Rightarrow> qitem netqueue res" where
  "get_events c w = andThen (get_sock c w) (\<lambda>s. Inr (cx_events (sk_ctx s)))"

definition put_events :: "nat \<Rightarrow> qitem netqueue \<Rightarrow> world \<Rightarrow> world res" where
  "put_events c q w = upd_sock c (sk_ctx_update (cx_events_update (\<lambda>_. q))) w"

definition get_eventsto :: "nat \<Rightarrow> world \<Rightarrow> qitem netqueue res" where
  "get_eventsto c w = andThen (get_sock c w) (\<lambda>s. Inr (cx_eventsto (sk_ctx s)))"

definition put_eventsto :: "nat \<Rightarrow> qitem netqueue \<Rightarrow> world \<Rightarrow> world res" where
  "put_eventsto c q w = upd_sock c (sk_ctx_update (cx_eventsto_update (\<lambda>_. q))) w"

definition get_msgq :: "nat \<Rightarrow> world \<Rightarrow> qitem netqueue res" where
  "get_msgq i w = andThen (get_sock i w) (\<lambda>s. Inr (sk_msgq s))"

definition put_msgq :: "nat \<Rightarrow> qitem netqueue \<Rightarrow> world \<Rightarrow> world res" where
  "put_msgq i q w = upd_sock i (sk_msgq_update (\<lambda>_. q)) w"

text \<open>A queue in a local variable of the code (the copies made in ctx.cpp and worker.cpp).\<close>

definition pop_local :: "qitem netqueue \<Rightarrow> world \<Rightarrow> (qitem option \<times> qitem netqueue \<times> world) res" where
  "pop_local q w =
     andThen (NetQueue_Pop q (w_next w)) (\<lambda>(x, q', nx). Inr (x, q', w\<lparr>w_next := nx\<rparr>))"

end
