(* ===== verification/Networker.thy ===== *)
theory Networker
  imports Networld
begin

text \<open>
  The operations of \<open>src/worker.cpp\<close> and \<open>src/utils.cpp\<close> that other components call: the
  eventfd that wakes a worker, the worker's task queue and its poller, the pool that
  hands workers out. (The worker's own loop is in \<open>Netroutine\<close>.) Every access to
  \<open>tasks_\<close> is made under the worker's mutex, so each operation is one step.
\<close>

section \<open>NetEventFd\<close>

definition NetEventFd_Init :: "os \<Rightarrow> trace \<Rightarrow> (int \<times> int \<times> trace) res" where
  "NetEventFd_Init os tr =
     (let tr1 = Sys_eventfd # tr; r1 = os tr1; efd = sr_ret r1 in
      if efd = - 1 \<and> (sr_errno r1 = EMFILE \<or> sr_errno r1 = ENFILE) then Inr (- EMFILE, efd, tr1)
      else andThen (CHECK ''efd_ != -1'' (efd \<noteq> - 1) ()) (\<lambda>_.
        let tr2 = Sys_fcntl efd F_GETFL 0 # tr1; r2 = os tr2;
            flags = (if sr_ret r2 = - 1 then 0 else sr_ret r2);
            tr3 = Sys_fcntl efd F_SETFL (or flags O_NONBLOCK) # tr2; r3 = os tr3
        in andThen (CHECK ''rc != -1'' (sr_ret r3 \<noteq> - 1) ()) (\<lambda>_. Inr (0, efd, tr3))))"

definition NetEventFd_Terminate :: "os \<Rightarrow> int \<Rightarrow> trace \<Rightarrow> (int \<times> trace) res" where
  "NetEventFd_Terminate os efd tr =
     andThen (NetCloseFd os efd tr) (\<lambda>tr1. Inr (- 1, tr1))"

definition NetEventFd_Signal :: "os \<Rightarrow> int \<Rightarrow> trace \<Rightarrow> trace res" where
  "NetEventFd_Signal os efd tr =
     (if efd < 0 then Inr tr
      else let tr1 = Sys_write efd (le_bytes 8 1) # tr
           in CHECK ''nbytes == sizeof(one)'' (sr_ret (os tr1) = 8) tr1)"

definition NetEventFd_Stop :: "os \<Rightarrow> int \<Rightarrow> trace \<Rightarrow> trace res" where
  "NetEventFd_Stop os efd tr = NetEventFd_Signal os efd tr"

definition NetEventFd_Unsignal :: "os \<Rightarrow> int \<Rightarrow> trace \<Rightarrow> trace res" where
  "NetEventFd_Unsignal os efd tr =
     (if efd < 0 then Inr tr
      else let tr1 = Sys_read efd 8 # tr; sz = sr_ret (os tr1)
           in andThen (CHECK ''sz > 0'' (sz > 0) tr1) (CHECK ''sz == sizeof(count)'' (sz = 8)))"

definition signal_worker :: "env \<Rightarrow> nat \<Rightarrow> world \<Rightarrow> world res" where
  "signal_worker E k w = andThen (get_worker k w) (\<lambda>wk.
     andThen (NetEventFd_Signal (env_os E) (wk_efd wk) (w_trace w)) (\<lambda>tr. Inr (w\<lparr>w_trace := tr\<rparr>)))"

definition unsignal_worker :: "env \<Rightarrow> nat \<Rightarrow> world \<Rightarrow> world res" where
  "unsignal_worker E k w = andThen (get_worker k w) (\<lambda>wk.
     andThen (NetEventFd_Unsignal (env_os E) (wk_efd wk) (w_trace w)) (\<lambda>tr. Inr (w\<lparr>w_trace := tr\<rparr>)))"

section \<open>Tasks\<close>

definition NetWorker_Execute :: "env \<Rightarrow> nat \<Rightarrow> nat \<Rightarrow> tk \<Rightarrow> world \<Rightarrow> world res" where
  "NetWorker_Execute E k i t w =
     andThen (push_on (TaskItem i t) (get_tasks k) (put_tasks k) w) (signal_worker E k)"

definition NetWorker_Cancel :: "nat \<Rightarrow> nat \<Rightarrow> tk \<Rightarrow> world \<Rightarrow> world res" where
  "NetWorker_Cancel k i t w =
     andThen (get_tasks k w) (\<lambda>q.
       case NetQueue_Remove (TaskItem i t) q (w_next w) of
         None \<Rightarrow> Inl (Diverges ''NetQueue::Remove'')
       | Some r \<Rightarrow> andThen r (\<lambda>(q', nx). put_tasks k q' (w\<lparr>w_next := nx\<rparr>)))"

definition NetWorkerTask_Init :: "nat \<Rightarrow> tk \<Rightarrow> int \<Rightarrow> fsmid \<Rightarrow> world \<Rightarrow> world res" where
  "NetWorkerTask_Init i t src owner w =
     andThen (upd_sock i (sk_task_update (\<lambda>ts. ts(t := (ts t)\<lparr>t_src := src, t_owner := Some owner\<rparr>))) w)
       (\<lambda>w1. Inr (w1\<lparr>w_next := NetQueueItem_Init (TaskItem i t) (w_next w1)\<rparr>))"

definition NetWorkerTask_Terminate :: "nat \<Rightarrow> tk \<Rightarrow> world \<Rightarrow> world res" where
  "NetWorkerTask_Terminate i t w =
     andThen (NetQueueItem_Terminate (TaskItem i t) (w_next w)) (\<lambda>nx. Inr (w\<lparr>w_next := nx\<rparr>))"

definition NetWorkerFd_Init :: "nat \<Rightarrow> int \<Rightarrow> fsmid \<Rightarrow> world \<Rightarrow> world res" where
  "NetWorkerFd_Init i src owner w =
     upd_sock i (sk_wfd_update (\<lambda>f. f\<lparr>wf_src := src, wf_owner := Some owner\<rparr>)) w"

section \<open>Polling\<close>

text \<open>The worker's poller applied to the handle of a socket; poller, handle and trace are written back.\<close>

definition put_handle :: "nat \<Rightarrow> phandle \<Rightarrow> trace \<Rightarrow> world \<Rightarrow> world res" where
  "put_handle i h tr w = upd_sock i (sk_wfd_update (wf_handle_update (\<lambda>_. h))) (w\<lparr>w_trace := tr\<rparr>)"

definition put_poller :: "nat \<Rightarrow> npoller \<Rightarrow> world \<Rightarrow> world res" where
  "put_poller k p w = upd_worker k (wk_poller_update (\<lambda>_. p)) w"

definition with_poller ::
  "nat \<Rightarrow> nat \<Rightarrow> (npoller \<Rightarrow> phandle \<Rightarrow> trace \<Rightarrow> world res) \<Rightarrow> world \<Rightarrow> world res" where
  "with_poller k i f w =
     andThen (get_worker k w) (\<lambda>wk. andThen (get_sock i w) (\<lambda>s.
     f (wk_poller wk) (wf_handle (sk_wfd s)) (w_trace w)))"

definition NetWorker_AddFd :: "nat \<Rightarrow> int \<Rightarrow> nat \<Rightarrow> world \<Rightarrow> world res" where
  "NetWorker_AddFd k s i w = with_poller k i (\<lambda>p h tr.
     let (h1, tr1) = NetPoller_Add p s (HSock i) h tr in put_handle i h1 tr1 w) w"

definition NetWorker_RmFd :: "nat \<Rightarrow> nat \<Rightarrow> world \<Rightarrow> world res" where
  "NetWorker_RmFd k i w = with_poller k i (\<lambda>p h tr.
     andThen (NetPoller_Rm p (HSock i) h tr) (\<lambda>(p1, tr1).
     put_poller k p1 (w\<lparr>w_trace := tr1\<rparr>))) w"

definition NetWorker_SetIn :: "nat \<Rightarrow> nat \<Rightarrow> world \<Rightarrow> world res" where
  "NetWorker_SetIn k i w = with_poller k i (\<lambda>p h tr.
     let (h1, tr1) = NetPoller_SetIn p (HSock i) h tr in put_handle i h1 tr1 w) w"

definition NetWorker_ResetIn :: "nat \<Rightarrow> nat \<Rightarrow> world \<Rightarrow> world res" where
  "NetWorker_ResetIn k i w = with_poller k i (\<lambda>p h tr.
     andThen (NetPoller_ResetIn p (HSock i) h tr) (\<lambda>(p1, h1, tr1).
     andThen (put_handle i h1 tr1 w) (put_poller k p1))) w"

definition NetWorker_SetOut :: "nat \<Rightarrow> nat \<Rightarrow> world \<Rightarrow> world res" where
  "NetWorker_SetOut k i w = with_poller k i (\<lambda>p h tr.
     let (h1, tr1) = NetPoller_SetOut p (HSock i) h tr in put_handle i h1 tr1 w) w"

definition NetWorker_ResetOut :: "nat \<Rightarrow> nat \<Rightarrow> world \<Rightarrow> world res" where
  "NetWorker_ResetOut k i w = with_poller k i (\<lambda>p h tr.
     andThen (NetPoller_ResetOut p (HSock i) h tr) (\<lambda>(p1, h1, tr1).
     andThen (put_handle i h1 tr1 w) (put_poller k p1))) w"

section \<open>Starting and stopping workers\<close>

text \<open>
  \<open>NetWorker::Init\<close>: the result of \<open>poller_.Init\<close> is ignored. The thread it starts is the
  worker loop of \<open>Netroutine\<close>, scheduled with the rest of the system.
\<close>

definition NetWorker_Init :: "env \<Rightarrow> nat \<Rightarrow> world \<Rightarrow> (int \<times> world) res" where
  "NetWorker_Init E k w =
     andThen (get_worker k w) (\<lambda>wk.
     andThen (NetEventFd_Init (env_os E) (w_trace w)) (\<lambda>(rc, efd, tr).
     if rc < 0 then
       andThen (upd_worker k (wk_efd_update (\<lambda>_. efd)) (w\<lparr>w_trace := tr\<rparr>)) (\<lambda>w1. Inr (rc, w1))
     else
       andThen (NetPoller_Init (env_os E) (wk_poller wk) tr) (\<lambda>(_, p, tr1).
       let (h1, tr2) = NetPoller_Add p efd (HEfd k) (wk_efd_handle wk) tr1;
           (h2, tr3) = NetPoller_SetIn p (HEfd k) h1 tr2
       in andThen (upd_worker k (\<lambda>wk. wk\<lparr>wk_tasks := NetQueue_Init, wk_efd := efd, wk_poller := p,
                     wk_efd_handle := h2\<rparr>)
                   (w\<lparr>w_trace := tr3, w_next := NetQueueItem_Init (StopItem k) (w_next w)\<rparr>))
            (\<lambda>w1. Inr (0, w1)))))"

text \<open>
  \<open>NetWorker::Terminate\<close> in its two halves, before and after the \<open>join\<close> that waits for the
  worker's loop to return.
\<close>

definition NetWorker_Terminate_request :: "env \<Rightarrow> nat \<Rightarrow> world \<Rightarrow> world res" where
  "NetWorker_Terminate_request E k w =
     andThen (push_on (StopItem k) (get_tasks k) (put_tasks k) w) (signal_worker E k)"

definition NetWorker_Terminate_cleanup :: "env \<Rightarrow> nat \<Rightarrow> world \<Rightarrow> world res" where
  "NetWorker_Terminate_cleanup E k w =
     andThen (get_worker k w) (\<lambda>wk.
     andThen (NetPoller_Terminate (env_os E) (wk_poller wk) (w_trace w)) (\<lambda>tr1.
     andThen (NetEventFd_Terminate (env_os E) (wk_efd wk) tr1) (\<lambda>(efd, tr2).
     andThen (NetQueueItem_Terminate (StopItem k) (w_next w)) (\<lambda>nx.
     upd_worker k (\<lambda>wk. wk\<lparr>wk_efd := efd, wk_tasks := NetQueue_Terminate (wk_tasks wk)\<rparr>)
       (w\<lparr>w_trace := tr2, w_next := nx\<rparr>)))))"

section \<open>NetPool\<close>

text \<open>\<open>ok = worker_[i].Init()\<close> in the loop: the result is that of the last worker, as a \<open>bool\<close>, as an \<open>int\<close>.\<close>

fun pool_init_from :: "env \<Rightarrow> nat list \<Rightarrow> bool \<Rightarrow> world \<Rightarrow> (bool \<times> world) res" where
  "pool_init_from E [] ok w = Inr (ok, w)"
| "pool_init_from E (k # ks) ok w =
     andThen (NetWorker_Init E k w) (\<lambda>(rc, w1). pool_init_from E ks (rc \<noteq> 0) w1)"

definition NetPool_Init :: "env \<Rightarrow> world \<Rightarrow> (int \<times> world) res" where
  "NetPool_Init E w =
     andThen (pool_init_from E [0..<kNetWorkerNum] True (w\<lparr>w_cur_worker := 0\<rparr>)) (\<lambda>(ok, w1).
     Inr (if ok then 1 else 0, w1))"

definition NetPool_ChooseWorker :: "world \<Rightarrow> (nat \<times> world) res" where
  "NetPool_ChooseWorker w =
     (let t = w_cur_worker w; cur = w_cur_worker w + 1;
          cur1 = (if cur \<ge> int kNetWorkerNum then 0 else cur)
      in if 0 \<le> t \<and> t < int kNetWorkerNum then Inr (nat t, w\<lparr>w_cur_worker := cur1\<rparr>)
         else Inl (OutOfBounds ''worker_''))"

end
