(* ===== verification/Netfsm.thy ===== *)
theory Netfsm
  imports Networker
begin

text \<open>
  \<open>src/fsm.cpp\<close>: state machines and their events. A handler may itself call Action,
  Start or Stop of a machine, so handlers and machines call each other. The calls back
  into a machine are a parameter here: \<open>run sd f src type srcptr\<close> calls the ordinary
  (\<open>sd = False\<close>) or the shutdown handler (\<open>sd = True\<close>) installed in \<open>f\<close>. The knot is tied
  in \<open>Netdispatch\<close>.
\<close>

type_synonym run = "bool \<Rightarrow> fsmid \<Rightarrow> int \<Rightarrow> int \<Rightarrow> anyptr \<Rightarrow> world \<Rightarrow> world res"

section \<open>Events\<close>

definition NetFsmEvent_new :: netevent where
  "NetFsmEvent_new = \<lparr>e_fsm = None, e_src = - 1, e_srcptr = PNull, e_type = - 1\<rparr>"

definition NetFsmEvent_Init :: "evid \<Rightarrow> world \<Rightarrow> world res" where
  "NetFsmEvent_Init e w =
     andThen (upd_event e (\<lambda>ev. ev\<lparr>e_fsm := None, e_src := - 1, e_srcptr := PNull, e_type := - 1\<rparr>) w) (\<lambda>w1.
     Inr (w1\<lparr>w_next := NetQueueItem_Init (EvItem e) (w_next w1)\<rparr>))"

definition NetFsmEvent_Active :: "evid \<Rightarrow> world \<Rightarrow> bool" where
  "NetFsmEvent_Active e w = NetQueueItem_IsInQueue (EvItem e) (w_next w)"

definition NetFsmEvent_Terminate :: "evid \<Rightarrow> world \<Rightarrow> world res" where
  "NetFsmEvent_Terminate e w = Inr w"

section \<open>Feeding a machine\<close>

definition NetFsm_Handle :: "run \<Rightarrow> fsmid \<Rightarrow> int \<Rightarrow> int \<Rightarrow> anyptr \<Rightarrow> world \<Rightarrow> world res" where
  "NetFsm_Handle run f src type srcptr w = run False f src type srcptr w"

definition NetFsm_ShutdownHandle :: "run \<Rightarrow> fsmid \<Rightarrow> int \<Rightarrow> int \<Rightarrow> anyptr \<Rightarrow> world \<Rightarrow> world res" where
  "NetFsm_ShutdownHandle run f src type srcptr w = run True f src type srcptr w"

definition NetFsm_Feed :: "run \<Rightarrow> fsmid \<Rightarrow> int \<Rightarrow> int \<Rightarrow> anyptr \<Rightarrow> world \<Rightarrow> world res" where
  "NetFsm_Feed run f src type srcptr w =
     andThen (get_fsm f w) (\<lambda>x.
       if f_state x \<noteq> kNetFsmStateStopping then NetFsm_Handle run f src type srcptr w
       else NetFsm_ShutdownHandle run f src type srcptr w)"

definition NetFsmEvent_Process :: "run \<Rightarrow> evid \<Rightarrow> world \<Rightarrow> world res" where
  "NetFsmEvent_Process run e w =
     andThen (get_event e w) (\<lambda>ev.
     andThen (upd_event e (\<lambda>ev. ev\<lparr>e_src := - 1, e_type := - 1, e_srcptr := PNull\<rparr>) w) (\<lambda>w1.
     andThen (deref ''fsm_'' (e_fsm ev)) (\<lambda>f.
     andThen (get_fsm f w1) (\<lambda>x.
     case f_owner x of
       None \<Rightarrow> Inl (CheckFailed ''fsm_->owner() != 0'')
     | Some owner \<Rightarrow> NetFsm_Feed run owner (e_src ev) (e_type ev) (e_srcptr ev) w1))))"

definition NetFsm_Action :: "run \<Rightarrow> fsmid \<Rightarrow> int \<Rightarrow> world \<Rightarrow> world res" where
  "NetFsm_Action run f type w =
     andThen (CHECK ''type > 0'' (type > 0) w) (NetFsm_Feed run f kNetFsmAction type PNull)"

section \<open>Raising events\<close>

definition NetCtx_Raise :: "nat \<Rightarrow> evid \<Rightarrow> world \<Rightarrow> world res" where
  "NetCtx_Raise c e w = push_on (EvItem e) (get_events c) (put_events c) w"

definition NetCtx_RaiseTo :: "nat \<Rightarrow> evid \<Rightarrow> world \<Rightarrow> world res" where
  "NetCtx_RaiseTo c e w = push_on (EvItem e) (get_eventsto c) (put_eventsto c) w"

definition NetFsm_Raise :: "fsmid \<Rightarrow> evid \<Rightarrow> int \<Rightarrow> anyptr \<Rightarrow> world \<Rightarrow> world res" where
  "NetFsm_Raise f e type srcptr w =
     andThen (get_fsm f w) (\<lambda>x.
     andThen (upd_event e (\<lambda>ev. ev\<lparr>e_fsm := Some f, e_src := f_src x,
                e_srcptr := (if srcptr = PNull then f_srcptr x else srcptr), e_type := type\<rparr>) w) (\<lambda>w1.
     andThen (deref ''ctx_'' (f_ctx x)) (\<lambda>c. NetCtx_Raise c e w1)))"

definition NetFsm_RaiseTo :: "fsmid \<Rightarrow> fsmid \<Rightarrow> evid \<Rightarrow> int \<Rightarrow> int \<Rightarrow> anyptr \<Rightarrow> world \<Rightarrow> world res" where
  "NetFsm_RaiseTo f dst_fsm e src type srcptr w =
     andThen (upd_event e (\<lambda>ev. ev\<lparr>e_fsm := Some dst_fsm, e_src := src, e_type := type, e_srcptr := srcptr\<rparr>) w) (\<lambda>w1.
     andThen (get_fsm f w1) (\<lambda>x.
     andThen (deref ''ctx_'' (f_ctx x)) (\<lambda>c. NetCtx_RaiseTo c e w1)))"

section \<open>Life cycle\<close>

text \<open>The two Init functions: a machine inside another one takes its owner's context; a top one is given its context.\<close>

definition NetFsm_Init_member ::
  "fsmid \<Rightarrow> handler \<Rightarrow> int \<Rightarrow> anyptr \<Rightarrow> fsmid \<Rightarrow> world \<Rightarrow> world res" where
  "NetFsm_Init_member f h src srcptr owner w =
     andThen (get_fsm owner w) (\<lambda>o1.
     andThen (upd_fsm f (\<lambda>x. x\<lparr>f_handlers := h, f_state := kNetFsmStateIdle, f_src := src,
                f_srcptr := srcptr, f_owner := Some owner, f_ctx := f_ctx o1\<rparr>) w)
       (NetFsmEvent_Init (StoppedEv f)))"

definition NetFsm_Init ::
  "fsmid \<Rightarrow> int \<Rightarrow> handler \<Rightarrow> fsmid option \<Rightarrow> nat option \<Rightarrow> world \<Rightarrow> world res" where
  "NetFsm_Init f src h owner ctx w =
     andThen (upd_fsm f (\<lambda>x. x\<lparr>f_handlers := h, f_state := kNetFsmStateIdle, f_src := src,
                f_srcptr := PNull, f_owner := owner, f_ctx := ctx\<rparr>) w)
       (NetFsmEvent_Init (StoppedEv f))"

definition NetFsm_IsIdle :: "fsmid \<Rightarrow> world \<Rightarrow> bool res" where
  "NetFsm_IsIdle f w =
     andThen (get_fsm f w) (\<lambda>x.
     Inr (f_state x = kNetFsmStateIdle \<and> \<not> NetFsmEvent_Active (StoppedEv f) w))"

definition NetFsm_Terminate :: "fsmid \<Rightarrow> world \<Rightarrow> world res" where
  "NetFsm_Terminate f w =
     andThen (NetFsm_IsIdle f w) (\<lambda>idle.
     andThen (CHECK ''IsIdle()'' idle w) (NetFsmEvent_Terminate (StoppedEv f)))"

definition set_fsm_state :: "fsmid \<Rightarrow> int \<Rightarrow> world \<Rightarrow> world res" where
  "set_fsm_state f st w = upd_fsm f (f_state_update (\<lambda>_. st)) w"

definition NetFsm_Start :: "run \<Rightarrow> fsmid \<Rightarrow> world \<Rightarrow> world res" where
  "NetFsm_Start run f w =
     andThen (NetFsm_IsIdle f w) (\<lambda>idle.
     andThen (CHECK ''IsIdle()'' idle w) (\<lambda>w.
     andThen (NetFsm_Handle run f kNetFsmAction kNetFsmStart PNull w)
       (set_fsm_state f kNetFsmStateActive)))"

definition NetFsm_Stop :: "run \<Rightarrow> fsmid \<Rightarrow> world \<Rightarrow> world res" where
  "NetFsm_Stop run f w =
     andThen (get_fsm f w) (\<lambda>x.
       if f_state x \<noteq> kNetFsmStateActive then Inr w
       else andThen (set_fsm_state f kNetFsmStateStopping w)
              (NetFsm_ShutdownHandle run f kNetFsmAction kNetFsmStop PNull))"

definition NetFsm_Stopped :: "fsmid \<Rightarrow> int \<Rightarrow> world \<Rightarrow> world res" where
  "NetFsm_Stopped f type w =
     andThen (get_fsm f w) (\<lambda>x.
     andThen (CHECK ''state_ == kNetFsmStateStopping'' (f_state x = kNetFsmStateStopping) w) (\<lambda>w.
     andThen (NetFsm_Raise f (StoppedEv f) type PNull w) (set_fsm_state f kNetFsmStateIdle)))"

definition NetFsm_StoppedNoEvent :: "fsmid \<Rightarrow> world \<Rightarrow> world res" where
  "NetFsm_StoppedNoEvent f w =
     andThen (get_fsm f w) (\<lambda>x.
     andThen (CHECK ''state_ == kNetFsmStateStopping'' (f_state x = kNetFsmStateStopping) w)
       (set_fsm_state f kNetFsmStateIdle))"

text \<open>\<open>NetFsm::ChooseWorker\<close> asks the context, which asks the pool.\<close>

definition NetCtx_ChooseWorker :: "nat \<Rightarrow> world \<Rightarrow> (nat \<times> world) res" where
  "NetCtx_ChooseWorker c w = NetPool_ChooseWorker w"

definition NetFsm_ChooseWorker :: "fsmid \<Rightarrow> world \<Rightarrow> (nat \<times> world) res" where
  "NetFsm_ChooseWorker f w =
     andThen (get_fsm f w) (\<lambda>x. andThen (deref ''ctx_'' (f_ctx x)) (\<lambda>c. NetCtx_ChooseWorker c w))"

end
