(* ===== verification/Netsocket.thy ===== *)
theory Netsocket
  imports Netfsm
begin

text \<open>
  \<open>src/socket.cpp\<close>, the operations of a socket: its life cycle, the calls of the user
  thread (Start, Bind, Listen, Connect, Accept, AsyncSendMsg, AsyncStop) and the
  helpers of the handlers. The handlers are in \<open>Nethandler\<close>.
\<close>

section \<open>Creation\<close>

text \<open>
  A fresh object. Members without an initialiser hold arbitrary values in C++; each of
  them is written by Init before it is read, except the handle of \<open>wfd_\<close>, which
  \<open>NetPoller::Add\<close> writes, and the bytes of the buffers.
\<close>

definition NetSocket_new :: netsock where
  "NetSocket_new =
     \<lparr>sk_s = - 1, sk_in_buf = replicate kNetSocketBufferSize 0,
      sk_out_buf = replicate kNetSocketBufferSize 0, sk_in_offset = 0, sk_out_offset = 0, sk_busy = False,
      sk_fsm = \<lparr>f_state = 0, f_src = 0, f_srcptr = PNull, f_owner = None, f_ctx = None,
                f_stopped = NetFsmEvent_new, f_handlers = SocketHandlers\<rparr>,
      sk_ip = \<lparr>sin_family = 0, sin_port = 0, s_addr = 0\<rparr>,
      sk_state = 0, sk_worker = 0,
      sk_wfd = \<lparr>wf_handle = \<lparr>h_fd = - 1, h_events = 0\<rparr>, wf_src = 0, wf_owner = None\<rparr>,
      sk_ctx = \<lparr>cx_events = NetQueue_Init, cx_eventsto = NetQueue_Init, cx_locked = False\<rparr>,
      sk_task = (\<lambda>_. \<lparr>t_src = 0, t_owner = None\<rparr>),
      sk_event = (\<lambda>_. NetFsmEvent_new),
      sk_asock = None, sk_errnum = 0, sk_msgq = NetQueue_Init\<rparr>"

definition new_sock :: "world \<Rightarrow> nat \<times> world" where
  "new_sock w = (w_nsocks w,
     w\<lparr>w_socks := (w_socks w)(w_nsocks w \<mapsto> NetSocket_new), w_nsocks := Suc (w_nsocks w)\<rparr>)"

definition delete_sock :: "nat \<Rightarrow> world \<Rightarrow> world res" where
  "delete_sock i w = andThen (get_sock i w) (\<lambda>_. Inr (w\<lparr>w_socks := (w_socks w)(i := None)\<rparr>))"

definition NetCtx_Init :: "nat \<Rightarrow> world \<Rightarrow> world res" where
  "NetCtx_Init c w =
     upd_sock c (sk_ctx_update (\<lambda>x. x\<lparr>cx_events := NetQueue_Init, cx_eventsto := NetQueue_Init\<rparr>)) w"

definition NetCtx_Terminate :: "nat \<Rightarrow> world \<Rightarrow> world res" where
  "NetCtx_Terminate c w =
     upd_sock c (sk_ctx_update (\<lambda>x. x\<lparr>cx_eventsto := NetQueue_Terminate (cx_eventsto x),
                                        cx_events := NetQueue_Terminate (cx_events x)\<rparr>)) w"

definition NetSocket_Init :: "nat \<Rightarrow> int \<Rightarrow> fsmid \<Rightarrow> sockaddr \<Rightarrow> world \<Rightarrow> world res" where
  "NetSocket_Init i src owner addr w =
     andThen (NetCtx_Init i w) (\<lambda>w.
     andThen (NetFsm_Init (FSock i) src SocketHandlers (Some owner) (Some i) w) (\<lambda>w.
     andThen (set_state i kNetSockStateIdle w) (\<lambda>w.
     andThen (NetFsm_ChooseWorker (FSock i) w) (\<lambda>(k, w).
     andThen (upd_sock i (\<lambda>s. s\<lparr>sk_worker := k, sk_s := - 1, sk_errnum := 0\<rparr>) w) (\<lambda>w.
     andThen (NetWorkerFd_Init i kNetSockSrcFd (FSock i) w) (\<lambda>w.
     andThen (NetWorkerTask_Init i TkConnecting kNetSockSrcTaskConnecting (FSock i) w) (\<lambda>w.
     andThen (NetWorkerTask_Init i TkConnected kNetSockSrcTaskConnected (FSock i) w) (\<lambda>w.
     andThen (NetWorkerTask_Init i TkAccept kNetSockSrcTaskAccept (FSock i) w) (\<lambda>w.
     andThen (NetWorkerTask_Init i TkSend kNetSockSrcTaskSend (FSock i) w) (\<lambda>w.
     andThen (NetWorkerTask_Init i TkRecv kNetSockSrcTaskRecv (FSock i) w) (\<lambda>w.
     andThen (NetWorkerTask_Init i TkStop kNetSockSrcTaskStop (FSock i) w) (\<lambda>w.
     andThen (NetFsmEvent_Init (SockEv i EvEstablished) w) (\<lambda>w.
     andThen (NetFsmEvent_Init (SockEv i EvSent) w) (\<lambda>w.
     andThen (NetFsmEvent_Init (SockEv i EvReceived) w) (\<lambda>w.
     andThen (NetFsmEvent_Init (SockEv i EvError) w) (\<lambda>w.
     upd_sock i (\<lambda>s. s\<lparr>sk_in_offset := 0, sk_out_offset := 0, sk_msgq := NetQueue_Init,
                        sk_asock := None, sk_ip := addr\<rparr>) w))))))))))))))))"

definition NetSocket_Terminate :: "nat \<Rightarrow> world \<Rightarrow> world res" where
  "NetSocket_Terminate i w =
     andThen (get_sock i w) (\<lambda>s.
     andThen (CHECK ''state_ == kNetSockStateIdle'' (sk_state s = kNetSockStateIdle) w) (\<lambda>w.
     andThen (NetFsmEvent_Terminate (SockEv i EvError) w) (\<lambda>w.
     andThen (NetFsmEvent_Terminate (SockEv i EvReceived) w) (\<lambda>w.
     andThen (NetFsmEvent_Terminate (SockEv i EvSent) w) (\<lambda>w.
     andThen (NetFsmEvent_Terminate (SockEv i EvEstablished) w) (\<lambda>w.
     andThen (NetWorker_Cancel (sk_worker s) i TkRecv w) (\<lambda>w.
     andThen (NetWorkerTask_Terminate i TkStop w) (\<lambda>w.
     andThen (NetWorkerTask_Terminate i TkRecv w) (\<lambda>w.
     andThen (NetWorkerTask_Terminate i TkSend w) (\<lambda>w.
     andThen (NetWorkerTask_Terminate i TkAccept w) (\<lambda>w.
     andThen (NetWorkerTask_Terminate i TkConnected w) (\<lambda>w.
     andThen (NetWorkerTask_Terminate i TkConnecting w) (NetFsm_Terminate (FSock i))))))))))))))"

definition NetSocket_IsIdle :: "nat \<Rightarrow> world \<Rightarrow> bool res" where
  "NetSocket_IsIdle i w = NetFsm_IsIdle (FSock i) w"

section \<open>Starting\<close>

definition NetSocket_InitFromFd :: "env \<Rightarrow> nat \<Rightarrow> int \<Rightarrow> world \<Rightarrow> world res" where
  "NetSocket_InitFromFd E i fd w =
     andThen (get_sock i w) (\<lambda>s.
     andThen (CHECK ''state()'' (sk_state s = kNetSockStateIdle \<or> sk_state s = kNetSockStateBeingAccepted) w) (\<lambda>w.
     andThen (CHECK ''s_ == -1'' (sk_s s = - 1) w) (\<lambda>w.
     andThen (upd_sock i (sk_s_update (\<lambda>_. fd)) w) (\<lambda>w.
     let (r1, w) = sys E (Sys_fcntl fd F_SETFD FD_CLOEXEC) w in
     andThen (CHECK ''rc == 0'' (sr_ret r1 = 0) w) (\<lambda>w.
     let (r2, w) = sys E (Sys_fcntl fd F_GETFL 0) w;
         opt = (if sr_ret r2 = - 1 then 0 else sr_ret r2)
     in if and opt O_NONBLOCK = 0 then Inr (snd (sys E (Sys_fcntl fd F_SETFL (or opt O_NONBLOCK)) w))
        else Inr w)))))"

definition NetSocket_Start :: "env \<Rightarrow> run \<Rightarrow> nat \<Rightarrow> int \<Rightarrow> int \<Rightarrow> int \<Rightarrow> world \<Rightarrow> (int \<times> world) res" where
  "NetSocket_Start E run i domain type protocol w =
     (let (r, w) = sys E (Sys_socket domain (or type SOCK_CLOEXEC) protocol) w in
      if sr_ret r < 0 then Inr (- sr_errno r, w)
      else
        andThen (NetSocket_InitFromFd E i (sr_ret r) w) (\<lambda>w.
        andThen (NetFsm_Start run (FSock i) w) (\<lambda>w. Inr (0, w))))"

definition NetSocket_StartFd :: "env \<Rightarrow> run \<Rightarrow> nat \<Rightarrow> int \<Rightarrow> world \<Rightarrow> world res" where
  "NetSocket_StartFd E run i fd w =
     andThen (NetSocket_InitFromFd E i fd w) (\<lambda>w.
     andThen (NetFsm_Start run (FSock i) w) (NetFsm_Action run (FSock i) kNetSockActionStarted))"

definition NetSocket_SetSockOpt :: "env \<Rightarrow> nat \<Rightarrow> int \<Rightarrow> int \<Rightarrow> world \<Rightarrow> (int \<times> world) res" where
  "NetSocket_SetSockOpt E i level optname w =
     andThen (get_sock i w) (\<lambda>s.
     andThen (CHECK ''state_'' (sk_state s = kNetSockStateStarting \<or> sk_state s = kNetSockStateAccepted) w) (\<lambda>w.
     let (r, w) = sys E (Sys_setsockopt (sk_s s) level optname) w in
     if sr_ret r \<noteq> 0 then Inr (- sr_errno r, w) else Inr (0, w)))"

definition NetSocket_Bind :: "env \<Rightarrow> nat \<Rightarrow> world \<Rightarrow> (int \<times> world) res" where
  "NetSocket_Bind E i w =
     andThen (get_sock i w) (\<lambda>s.
     andThen (CHECK ''state_ == kNetSockStateStarting'' (sk_state s = kNetSockStateStarting) w) (\<lambda>w.
     let (r, w) = sys E (Sys_setsockopt (sk_s s) SOL_SOCKET SO_REUSEADDR) w in
     andThen (CHECK ''rc == 0'' (sr_ret r = 0) w) (\<lambda>w.
     let (r, w) = sys E (Sys_bind (sk_s s) (sk_ip s)) w in
     if sr_ret r \<noteq> 0 then Inr (- sr_errno r, w) else Inr (0, w))))"

definition NetSocket_Listen :: "env \<Rightarrow> run \<Rightarrow> nat \<Rightarrow> int \<Rightarrow> world \<Rightarrow> (int \<times> world) res" where
  "NetSocket_Listen E run i backlog w =
     andThen (get_sock i w) (\<lambda>s.
     andThen (CHECK ''state_ == kNetSockStateStarting'' (sk_state s = kNetSockStateStarting) w) (\<lambda>w.
     let (r, w) = sys E (Sys_listen (sk_s s) backlog) w in
     if sr_ret r \<noteq> 0 then Inr (- sr_errno r, w)
     else andThen (NetFsm_Action run (FSock i) kNetSockActionListen w) (\<lambda>w. Inr (0, w))))"

definition execute_task :: "env \<Rightarrow> nat \<Rightarrow> tk \<Rightarrow> world \<Rightarrow> world res" where
  "execute_task E i t w = andThen (get_sock i w) (\<lambda>s. NetWorker_Execute E (sk_worker s) i t w)"

definition NetSocket_Accept :: "env \<Rightarrow> run \<Rightarrow> nat \<Rightarrow> nat \<Rightarrow> world \<Rightarrow> world res" where
  "NetSocket_Accept E run i l w =
     andThen (NetFsm_IsIdle (FSock i) w) (\<lambda>idle.
     andThen (if idle then
                andThen (NetFsm_Start run (FSock i) w) (NetFsm_Action run (FSock i) kNetSockActionBeingAccepted)
              else Inr w) (\<lambda>w.
     andThen (NetFsm_Action run (FSock l) kNetSockActionAccept w) (\<lambda>w.
     andThen (get_sock i w) (\<lambda>s.
     andThen (CHECK ''!asock() || asock() == listener'' (sk_asock s = None \<or> sk_asock s = Some l) w) (\<lambda>w.
     andThen (upd_sock i (sk_asock_update (\<lambda>_. Some l)) w) (\<lambda>w.
     andThen (get_sock l w) (\<lambda>ls.
     andThen (CHECK ''!listener->asock() || listener->asock() == this''
                (sk_asock ls = None \<or> sk_asock ls = Some i) w) (\<lambda>w.
     andThen (upd_sock l (sk_asock_update (\<lambda>_. Some i)) w) (execute_task E l TkAccept)))))))))"

definition NetSocket_Activate :: "run \<Rightarrow> nat \<Rightarrow> world \<Rightarrow> world res" where
  "NetSocket_Activate run i w = NetFsm_Action run (FSock i) kNetSockActionActivate w"

definition NetSocket_Connect :: "env \<Rightarrow> run \<Rightarrow> nat \<Rightarrow> world \<Rightarrow> world res" where
  "NetSocket_Connect E run i w =
     andThen (NetFsm_Action run (FSock i) kNetSockActionConnect w) (\<lambda>w.
     andThen (get_sock i w) (\<lambda>s.
     let (r, w) = sys E (Sys_connect (sk_s s) (sk_ip s)) w in
     if sr_ret r = 0 then NetFsm_Action run (FSock i) kNetSockActionDone w
     else if sr_errno r \<noteq> EINPROGRESS then
       andThen (upd_sock i (sk_errnum_update (\<lambda>_. sr_errno r)) w)
         (NetFsm_Action run (FSock i) kNetSockActionError)
     else execute_task E i TkConnecting w))"

section \<open>Stopping\<close>

definition NetSocket_Stop :: "run \<Rightarrow> nat \<Rightarrow> world \<Rightarrow> world res" where
  "NetSocket_Stop run i w = NetFsm_Stop run (FSock i) w"

definition NetSocket_AsyncStop :: "env \<Rightarrow> nat \<Rightarrow> world \<Rightarrow> world res" where
  "NetSocket_AsyncStop E i w =
     andThen (execute_task E i TkStop w)
       (NetFsm_Raise (FSock i) (SockEv i EvError) kNetSockEventTypeShutdown (PSock i))"

section \<open>Messages\<close>

definition NetSocket_AsyncSendMsg :: "env \<Rightarrow> nat \<Rightarrow> netmsg \<Rightarrow> world \<Rightarrow> world res" where
  "NetSocket_AsyncSendMsg E i m w =
     (let k = w_nwraps w;
          w1 = w\<lparr>w_wraps := (w_wraps w)(k \<mapsto> NetMsgWrapper_New m), w_nwraps := Suc k,
                 w_next := NetQueueItem_Init (MsgItem k) (w_next w)\<rparr>
      in andThen (push_on (MsgItem k) (get_msgq i) (put_msgq i) w1) (execute_task E i TkSend))"

text \<open>\<open>container_of\<close> is right only for an item of a \<open>NetMsgWrapper\<close>; the wrapper is freed after the copy.\<close>

definition NetSocket_DequeueNetMsgToBuf :: "nat \<Rightarrow> world \<Rightarrow> (bool \<times> world) res" where
  "NetSocket_DequeueNetMsgToBuf i w =
     andThen (get_msgq i w) (\<lambda>q.
     if NetQueue_Empty q = 1 then Inr (False, w)
     else
       andThen (pop_from (get_msgq i) (put_msgq i) w) (\<lambda>(x, w1).
       case x of
         Some (MsgItem k) \<Rightarrow>
           (case w_wraps w1 k of
              None \<Rightarrow> Inl (UseAfterFree ''NetMsgWrapper'')
            | Some wr \<Rightarrow>
                andThen (upd_sock i (load_msg (w_msg wr)) w1) (\<lambda>w2.
                Inr (True, w2\<lparr>w_wraps := (w_wraps w2)(k := None)\<rparr>)))
       | _ \<Rightarrow> Inl (BadPointer ''NetMsgWrapper'')))"

definition NetSocket_GetErr :: "env \<Rightarrow> nat \<Rightarrow> world \<Rightarrow> (int \<times> world) res" where
  "NetSocket_GetErr E i w =
     andThen (get_sock i w) (\<lambda>s.
     let (r, w1) = sys E (Sys_getsockopt_error (sk_s s)) w in
     if sr_ret r = - 1 then Inr (sr_errno r, w1)
     else andThen (CHECK ''rc == 0'' (sr_ret r = 0) w1) (\<lambda>w1. Inr (sr_opt r, w1)))"

text \<open>SendRaw and RecvRaw on a socket of the world.\<close>

definition sock_SendRaw :: "env \<Rightarrow> nat \<Rightarrow> world \<Rightarrow> (int \<times> world) res" where
  "sock_SendRaw E i w =
     andThen (get_sock i w) (\<lambda>s.
     let (rc, s1, tr1) = NetSocket_SendRaw (env_os E) (w_mem w) s (w_trace w) in
     andThen (upd_sock i (\<lambda>_. s1) (w\<lparr>w_trace := tr1\<rparr>)) (\<lambda>w1. Inr (rc, w1)))"

definition sock_RecvRaw :: "env \<Rightarrow> nat \<Rightarrow> world \<Rightarrow> (int \<times> world) res" where
  "sock_RecvRaw E i w =
     andThen (get_sock i w) (\<lambda>s.
     let (rc, s1, mem1, tr1) = NetSocket_RecvRaw (env_os E) (env_user E) (w_mem w) s (w_trace w) in
     andThen (upd_sock i (\<lambda>_. s1) (w\<lparr>w_trace := tr1, w_mem := mem1\<rparr>)) (\<lambda>w1. Inr (rc, w1)))"

section \<open>Worker operations named by the socket\<close>

definition sock_AddFd :: "nat \<Rightarrow> world \<Rightarrow> world res" where
  "sock_AddFd i w = andThen (get_sock i w) (\<lambda>s. NetWorker_AddFd (sk_worker s) (sk_s s) i w)"

definition sock_RmFd :: "nat \<Rightarrow> world \<Rightarrow> world res" where
  "sock_RmFd i w = andThen (get_sock i w) (\<lambda>s. NetWorker_RmFd (sk_worker s) i w)"

definition sock_SetIn :: "nat \<Rightarrow> world \<Rightarrow> world res" where
  "sock_SetIn i w = andThen (get_sock i w) (\<lambda>s. NetWorker_SetIn (sk_worker s) i w)"

definition sock_SetOut :: "nat \<Rightarrow> world \<Rightarrow> world res" where
  "sock_SetOut i w = andThen (get_sock i w) (\<lambda>s. NetWorker_SetOut (sk_worker s) i w)"

definition sock_ResetOut :: "nat \<Rightarrow> world \<Rightarrow> world res" where
  "sock_ResetOut i w = andThen (get_sock i w) (\<lambda>s. NetWorker_ResetOut (sk_worker s) i w)"

text \<open>\<open>NetCloseFd(sock->s()); sock->s() = -1;\<close>\<close>

definition sock_close :: "env \<Rightarrow> nat \<Rightarrow> world \<Rightarrow> world res" where
  "sock_close E i w =
     andThen (get_sock i w) (\<lambda>s. andThen (close_fd E (sk_s s) w) (upd_sock i (sk_s_update (\<lambda>_. - 1))))"

text \<open>The result says whether the event was an internal task.\<close>

definition NetSocket_InternalTasks :: "nat \<Rightarrow> int \<Rightarrow> int \<Rightarrow> world \<Rightarrow> (bool \<times> world) res" where
  "NetSocket_InternalTasks i src type w =
     (let execute = (\<lambda>op. andThen (CHECK ''type == kNetWorkerTaskExecute'' (type = kNetWorkerTaskExecute) w) (\<lambda>w.
                          andThen (op w) (\<lambda>w1. Inr (True, w1))))
      in if src = kNetSockSrcTaskSend then execute (sock_SetOut i)
         else if src = kNetSockSrcTaskRecv then execute (sock_SetIn i)
         else if src = kNetSockSrcTaskConnected then execute (sock_AddFd i)
         else if src = kNetSockSrcTaskConnecting then
           execute (\<lambda>w. andThen (sock_AddFd i w) (sock_SetOut i))
         else if src = kNetSockSrcTaskAccept then
           execute (\<lambda>w. andThen (sock_AddFd i w) (sock_SetIn i))
         else Inr (False, w))"

end
