(* ===== verification/Nethandler.thy ===== *)
theory Nethandler
  imports Netsocket
begin

text \<open>
  The two handlers of a socket's state machine (\<open>src/socket.cpp\<close>, lines 227--637).

  The handler is a switch over the socket's state with one case per state and, inside
  it, switches over the source and the type of the event. None of these cases ends in
  a \<open>break\<close>: a branch that handles its event returns, but an unexpected event only
  prints a line (\<open>kLibMsgFsmError\<close> does not stop) and control runs on into the next
  case label, first of the inner switches and then of the state switch. The model
  keeps this: each case takes the code that follows it as the continuation \<open>k\<close>.
\<close>

section \<open>Pieces the cases share\<close>

definition unexpected_action :: "nat \<Rightarrow> int \<Rightarrow> int \<Rightarrow> (world \<Rightarrow> world res) \<Rightarrow> world \<Rightarrow> world res" where
  "unexpected_action i src type k w = andThen (NetFsmBadAction i src type w) k"

definition unexpected_source :: "nat \<Rightarrow> int \<Rightarrow> int \<Rightarrow> (world \<Rightarrow> world res) \<Rightarrow> world \<Rightarrow> world res" where
  "unexpected_source i src type k w = andThen (NetFsmBadSource i src type w) k"

definition raise_sock :: "nat \<Rightarrow> evk \<Rightarrow> int \<Rightarrow> anyptr \<Rightarrow> world \<Rightarrow> world res" where
  "raise_sock i e type srcptr w = NetFsm_Raise (FSock i) (SockEv i e) type srcptr w"

definition get_asock :: "nat \<Rightarrow> world \<Rightarrow> nat res" where
  "get_asock i w = andThen (get_sock i w) (\<lambda>s. deref ''asock_'' (sk_asock s))"

text \<open>Removing the descriptor, closing it, going to Done and reporting an error: three times in the handler.\<close>

definition fd_error :: "env \<Rightarrow> nat \<Rightarrow> world \<Rightarrow> world res" where
  "fd_error E i w =
     andThen (sock_RmFd i w) (\<lambda>w.
     andThen (sock_close E i w) (\<lambda>w.
     andThen (set_state i kNetSockStateDone w) (raise_sock i EvError kNetSockEventTypeError (PSock i))))"

section \<open>The shutdown handler\<close>

definition shutdown_finish2 :: "nat \<Rightarrow> world \<Rightarrow> world res" where
  "shutdown_finish2 i w =
     andThen (set_state i kNetSockStateIdle w) (NetFsm_Stopped (FSock i) kNetSockEventTypeStopped)"

definition shutdown_finish1 :: "env \<Rightarrow> nat \<Rightarrow> world \<Rightarrow> world res" where
  "shutdown_finish1 E i w = andThen (sock_close E i w) (shutdown_finish2 i)"

definition shutdown_stop :: "env \<Rightarrow> run \<Rightarrow> nat \<Rightarrow> world \<Rightarrow> world res" where
  "shutdown_stop E run i w =
     andThen (sock_state i w) (\<lambda>st.
     andThen (CHECK ''state()'' (st \<noteq> kNetSockStateAccepting \<and> st \<noteq> kNetSockStateCancelling) w) (\<lambda>w.
     andThen (upd_sock i (sk_errnum_update (\<lambda>_. 0)) w) (\<lambda>w.
     if st = kNetSockStateIdle then Inr w
     else if st = kNetSockStateDone then shutdown_finish2 i w
     else if st = kNetSockStateStarting \<or> st = kNetSockStateAccepted
        \<or> st = kNetSockStateAcceptingError \<or> st = kNetSockStateListening then shutdown_finish1 E i w
     else if st = kNetSockStateBeingAccepted then
       andThen (NetFsm_Action run (FSock i) kNetSockActionCancel w) (set_state i kNetSockStateStoppingAccept)
     else
       andThen (if st \<noteq> kNetSockStateRemovingFd then NetSocket_AsyncStop E i w else Inr w)
         (set_state i kNetSockStateStopping))))"

definition NetSocketShutdownHandler :: "env \<Rightarrow> run \<Rightarrow> nat \<Rightarrow> int \<Rightarrow> int \<Rightarrow> anyptr \<Rightarrow> world \<Rightarrow> world res" where
  "NetSocketShutdownHandler E run i src type srcptr w =
     andThen (NetSocket_InternalTasks i src type w) (\<lambda>(internal, w).
     if internal then Inr w
     else if src = kNetFsmAction \<and> type = kNetFsmStop then shutdown_stop E run i w
     else
       andThen (sock_state i w) (\<lambda>st.
       if st = kNetSockStateStoppingAccept then
         andThen (CHECK ''src == kNetFsmAction'' (src = kNetFsmAction \<and> type = kNetSockActionDone) w)
           (shutdown_finish2 i)
       else if st = kNetSockStateStopping then
         if src \<noteq> kNetSockSrcTaskStop then Inr w
         else
           andThen (CHECK ''type == kNetWorkerTaskExecute'' (type = kNetWorkerTaskExecute) w) (\<lambda>w.
           andThen (sock_RmFd i w) (shutdown_finish1 E i))
       else NetFsmBadState i src type w))"

section \<open>The cases of the handler\<close>

definition case_idle :: "nat \<Rightarrow> int \<Rightarrow> int \<Rightarrow> (world \<Rightarrow> world res) \<Rightarrow> world \<Rightarrow> world res" where
  "case_idle i src type k w =
     (if src = kNetFsmAction then
        if type = kNetFsmStart then set_state i kNetSockStateStarting w
        else unexpected_action i src type (unexpected_source i src type k) w
      else unexpected_source i src type k w)"

definition case_starting :: "nat \<Rightarrow> int \<Rightarrow> int \<Rightarrow> (world \<Rightarrow> world res) \<Rightarrow> world \<Rightarrow> world res" where
  "case_starting i src type k w =
     (if src = kNetFsmAction then
        if type = kNetSockActionListen then set_state i kNetSockStateListening w
        else if type = kNetSockActionConnect then set_state i kNetSockStateConnecting w
        else if type = kNetSockActionBeingAccepted then set_state i kNetSockStateBeingAccepted w
        else if type = kNetSockActionStarted then
          andThen (sock_AddFd i w) (set_state i kNetSockStateActive)
        else unexpected_action i src type (unexpected_source i src type k) w
      else unexpected_source i src type k w)"

definition case_being_accepted :: "nat \<Rightarrow> int \<Rightarrow> int \<Rightarrow> (world \<Rightarrow> world res) \<Rightarrow> world \<Rightarrow> world res" where
  "case_being_accepted i src type k w =
     (if src = kNetFsmAction then
        if type = kNetSockActionDone then
          andThen (set_state i kNetSockStateAccepted w)
            (raise_sock i EvEstablished kNetSockEventTypeAccepted (PSock i))
        else unexpected_action i src type (unexpected_source i src type k) w
      else unexpected_source i src type k w)"

definition case_accepted :: "nat \<Rightarrow> int \<Rightarrow> int \<Rightarrow> (world \<Rightarrow> world res) \<Rightarrow> world \<Rightarrow> world res" where
  "case_accepted i src type k w =
     (if src = kNetFsmAction then
        if type = kNetSockActionActivate then
          andThen (sock_AddFd i w) (set_state i kNetSockStateActive)
        else unexpected_action i src type (unexpected_source i src type k) w
      else unexpected_source i src type k w)"

text \<open>Connecting: the descriptor became writable; \<open>close(sock->s())\<close> is called directly and checked.\<close>

definition connect_finished :: "env \<Rightarrow> nat \<Rightarrow> world \<Rightarrow> world res" where
  "connect_finished E i w =
     andThen (sock_ResetOut i w) (\<lambda>w.
     andThen (set_state i kNetSockStateActive w) (\<lambda>w.
     andThen (NetSocket_GetErr E i w) (\<lambda>(sockerr, w).
     if sockerr = 0 then raise_sock i EvEstablished kNetSockEventTypeConnected (PSock i) w
     else
       andThen (upd_sock i (sk_errnum_update (\<lambda>_. sockerr)) w) (\<lambda>w.
       andThen (sock_RmFd i w) (\<lambda>w.
       andThen (get_sock i w) (\<lambda>s.
       let (r, w) = sys E (Sys_close (sk_s s)) w in
       andThen (CHECK ''rc == 0'' (sr_ret r = 0) w) (\<lambda>w.
       andThen (upd_sock i (\<lambda>s. s\<lparr>sk_s := - 1, sk_state := kNetSockStateDone\<rparr>) w)
         (raise_sock i EvError kNetSockEventTypeError (PSock i)))))))))"

definition case_connecting :: "env \<Rightarrow> nat \<Rightarrow> int \<Rightarrow> int \<Rightarrow> (world \<Rightarrow> world res) \<Rightarrow> world \<Rightarrow> world res" where
  "case_connecting E i src type k w =
     (let src_default = unexpected_source i src type k;
          src_fd = (\<lambda>w.
            if type = kNetWorkerFdOut then connect_finished E i w
            else if type = kNetWorkerFdErr then fd_error E i w
            else unexpected_action i src type src_default w);
          src_action = (\<lambda>w.
            if type = kNetSockActionDone then
              andThen (set_state i kNetSockStateActive w) (\<lambda>w.
              andThen (execute_task E i TkConnected w)
                (raise_sock i EvEstablished kNetSockEventTypeConnected (PSock i)))
            else if type = kNetSockActionError then
              andThen (sock_close E i w) (\<lambda>w.
              andThen (set_state i kNetSockStateDone w)
                (raise_sock i EvError kNetSockEventTypeError (PSock i)))
            else unexpected_action i src type src_fd w)
      in if src = kNetFsmAction then src_action w
         else if src = kNetSockSrcFd then src_fd w
         else src_default w)"

text \<open>
  Active: input. A message is copied out of \<open>in_buf\<close> and raised; \<open>-EAGAIN\<close> waits for
  more; any other result must be \<open>-ECONNRESET\<close> and is then ignored.
\<close>

definition active_in :: "env \<Rightarrow> nat \<Rightarrow> world \<Rightarrow> world res" where
  "active_in E i w =
     andThen (sock_RecvRaw E i w) (\<lambda>(rc, w).
     if rc = 0 then
       andThen (get_sock i w) (\<lambda>s.
       raise_sock i EvReceived kNetSockEventTypeReceived (PMsg (NetSocket_ExtractNetMsg s)) w)
     else if rc = - EAGAIN then Inr w
     else CHECK ''rc == -ECONNRESET'' (rc = - ECONNRESET) w)"

definition active_send :: "env \<Rightarrow> nat \<Rightarrow> world \<Rightarrow> world res" where
  "active_send E i w =
     andThen (sock_SendRaw E i w) (\<lambda>(rc, w).
     if rc = 0 then
       andThen (upd_sock i (sk_busy_update (\<lambda>_. False)) w)
         (raise_sock i EvSent kNetSockEventTypeSent (PSock i))
     else if rc = - EAGAIN then Inr w
     else CHECK ''rc == -ECONNRESET'' (rc = - ECONNRESET) w)"

text \<open>Active: output. An idle sender first takes the next buffered message, or stops polling.\<close>

definition active_out :: "env \<Rightarrow> nat \<Rightarrow> world \<Rightarrow> world res" where
  "active_out E i w =
     andThen (get_sock i w) (\<lambda>s.
     if \<not> sk_busy s then
       andThen (NetSocket_DequeueNetMsgToBuf i w) (\<lambda>(got, w).
       if got then andThen (upd_sock i (sk_busy_update (\<lambda>_. True)) w) (active_send E i)
       else sock_ResetOut i w)
     else active_send E i w)"

definition case_active :: "env \<Rightarrow> nat \<Rightarrow> int \<Rightarrow> int \<Rightarrow> (world \<Rightarrow> world res) \<Rightarrow> world \<Rightarrow> world res" where
  "case_active E i src type k w =
     (let src_default = unexpected_source i src type k;
          src_action = (\<lambda>w.
            if type = kNetSockActionError then
              andThen (set_state i kNetSockStateRemovingFd w) (NetSocket_AsyncStop E i)
            else unexpected_action i src type src_default w);
          src_fd = (\<lambda>w.
            if type = kNetWorkerFdIn then active_in E i w
            else if type = kNetWorkerFdOut then active_out E i w
            else if type = kNetWorkerFdErr then fd_error E i w
            else unexpected_action i src type src_action w)
      in if src = kNetSockSrcFd then src_fd w
         else if src = kNetFsmAction then src_action w
         else src_default w)"

definition case_removing_fd :: "env \<Rightarrow> nat \<Rightarrow> int \<Rightarrow> int \<Rightarrow> (world \<Rightarrow> world res) \<Rightarrow> world \<Rightarrow> world res" where
  "case_removing_fd E i src type k w =
     (let src_default = unexpected_source i src type k;
          src_action = (\<lambda>w.
            if type = kNetSockActionError then Inr w
            else unexpected_action i src type src_default w);
          src_fd = Inr;
          src_stop = (\<lambda>w.
            if type = kNetWorkerTaskExecute then fd_error E i w
            else unexpected_action i src type src_fd w)
      in if src = kNetSockSrcTaskStop then src_stop w
         else if src = kNetSockSrcFd then src_fd w
         else if src = kNetFsmAction then src_action w
         else src_default w)"

definition case_listening :: "nat \<Rightarrow> int \<Rightarrow> int \<Rightarrow> (world \<Rightarrow> world res) \<Rightarrow> world \<Rightarrow> world res" where
  "case_listening i src type k w =
     (if src = kNetFsmAction then
        if type = kNetSockActionAccept then set_state i kNetSockStateAccepting w
        else unexpected_action i src type (unexpected_source i src type k) w
      else unexpected_source i src type k w)"

text \<open>Accepting: a connection is waiting. It is handed to the socket \<open>asock_\<close> points to.\<close>

definition hand_over :: "env \<Rightarrow> nat \<Rightarrow> int \<Rightarrow> world \<Rightarrow> world res" where
  "hand_over E i fd w =
     andThen (get_asock i w) (\<lambda>a.
     andThen (NetSocket_InitFromFd E a fd w) (\<lambda>w.
     andThen (set_state a kNetSockStateAccepted w) (\<lambda>w.
     andThen (NetFsm_RaiseTo (FSock i) (FSock a) (SockEv a EvEstablished) kNetDeviceSrcSocketEvent
                kNetSockEventTypeAccepted (PSock a) w) (\<lambda>w.
     andThen (upd_sock a (sk_asock_update (\<lambda>_. None)) w) (\<lambda>w.
     andThen (upd_sock i (sk_asock_update (\<lambda>_. None)) w) (\<lambda>w.
     andThen (sock_RmFd i w) (set_state i kNetSockStateListening)))))))"

definition accept_connection :: "env \<Rightarrow> nat \<Rightarrow> world \<Rightarrow> world res" where
  "accept_connection E i w =
     andThen (get_sock i w) (\<lambda>s.
     let (r, w) = sys E (Sys_accept4 (sk_s s)) w; fd = sr_ret r; errno = sr_errno r in
     if fd < 0 \<and> errno = ECONNABORTED then Inr w
     else if fd < 0 \<and> (errno = ENFILE \<or> errno = EMFILE \<or> errno = ENOBUFS \<or> errno = ENOMEM) then
       andThen (upd_sock i (\<lambda>s. s\<lparr>sk_errnum := errno, sk_state := kNetSockStateAcceptingError\<rparr>) w) (\<lambda>w.
       andThen (sock_RmFd i w) (raise_sock i EvError kNetSockEventTypeAcceptError (PSock i)))
     else andThen (CHECK ''s > 0'' (fd > 0) w) (hand_over E i fd))"

definition case_accepting :: "env \<Rightarrow> nat \<Rightarrow> int \<Rightarrow> int \<Rightarrow> (world \<Rightarrow> world res) \<Rightarrow> world \<Rightarrow> world res" where
  "case_accepting E i src type k w =
     (let src_default = unexpected_source i src type k;
          src_fd = (\<lambda>w.
            if type = kNetWorkerFdIn then accept_connection E i w
            else unexpected_action i src type src_default w);
          src_action = (\<lambda>w.
            if type = kNetSockActionDone then set_state i kNetSockStateListening w
            else if type = kNetSockActionCancel then
              andThen (set_state i kNetSockStateCancelling w) (execute_task E i TkStop)
            else unexpected_action i src type src_fd w)
      in if src = kNetFsmAction then src_action w
         else if src = kNetSockSrcFd then src_fd w
         else src_default w)"

definition case_accepting_error :: "nat \<Rightarrow> int \<Rightarrow> int \<Rightarrow> (world \<Rightarrow> world res) \<Rightarrow> world \<Rightarrow> world res" where
  "case_accepting_error i src type k w =
     (if src = kNetFsmAction then
        if type = kNetSockActionAccept then set_state i kNetSockStateAccepting w
        else unexpected_action i src type (unexpected_source i src type k) w
      else unexpected_source i src type k w)"

definition case_cancelling :: "run \<Rightarrow> nat \<Rightarrow> int \<Rightarrow> int \<Rightarrow> (world \<Rightarrow> world res) \<Rightarrow> world \<Rightarrow> world res" where
  "case_cancelling run i src type k w =
     (let src_default = unexpected_source i src type k;
          src_fd = (\<lambda>w.
            if type = kNetWorkerFdIn then Inr w
            else unexpected_action i src type src_default w);
          src_stop = (\<lambda>w.
            if type = kNetWorkerTaskExecute then
              andThen (sock_RmFd i w) (\<lambda>w.
              andThen (set_state i kNetSockStateListening w) (\<lambda>w.
              andThen (get_asock i w) (\<lambda>a. NetFsm_Action run (FSock a) kNetSockActionDone w)))
            else unexpected_action i src type src_fd w)
      in if src = kNetSockSrcTaskStop then src_stop w
         else if src = kNetSockSrcFd then src_fd w
         else src_default w)"

section \<open>The handler\<close>

text \<open>The code from each case label to the end of the switch, in the order of the labels.\<close>

definition from_default :: "nat \<Rightarrow> int \<Rightarrow> int \<Rightarrow> world \<Rightarrow> world res" where
  "from_default i src type w = NetFsmBadState i src type w"

definition from_cancelling :: "run \<Rightarrow> nat \<Rightarrow> int \<Rightarrow> int \<Rightarrow> world \<Rightarrow> world res" where
  "from_cancelling run i src type = case_cancelling run i src type (from_default i src type)"

definition from_accepting_error :: "run \<Rightarrow> nat \<Rightarrow> int \<Rightarrow> int \<Rightarrow> world \<Rightarrow> world res" where
  "from_accepting_error run i src type = case_accepting_error i src type (from_cancelling run i src type)"

definition from_accepting :: "env \<Rightarrow> run \<Rightarrow> nat \<Rightarrow> int \<Rightarrow> int \<Rightarrow> world \<Rightarrow> world res" where
  "from_accepting E run i src type = case_accepting E i src type (from_accepting_error run i src type)"

definition from_listening :: "env \<Rightarrow> run \<Rightarrow> nat \<Rightarrow> int \<Rightarrow> int \<Rightarrow> world \<Rightarrow> world res" where
  "from_listening E run i src type = case_listening i src type (from_accepting E run i src type)"

text \<open>\<open>case kNetSockStateDone: return;\<close> ends every run-on from the cases before it.\<close>

definition from_done :: "world \<Rightarrow> world res" where
  "from_done w = Inr w"

definition from_removing_fd :: "env \<Rightarrow> nat \<Rightarrow> int \<Rightarrow> int \<Rightarrow> world \<Rightarrow> world res" where
  "from_removing_fd E i src type = case_removing_fd E i src type from_done"

definition from_active :: "env \<Rightarrow> nat \<Rightarrow> int \<Rightarrow> int \<Rightarrow> world \<Rightarrow> world res" where
  "from_active E i src type = case_active E i src type (from_removing_fd E i src type)"

definition from_connecting :: "env \<Rightarrow> nat \<Rightarrow> int \<Rightarrow> int \<Rightarrow> world \<Rightarrow> world res" where
  "from_connecting E i src type = case_connecting E i src type (from_active E i src type)"

definition from_accepted :: "env \<Rightarrow> nat \<Rightarrow> int \<Rightarrow> int \<Rightarrow> world \<Rightarrow> world res" where
  "from_accepted E i src type = case_accepted i src type (from_connecting E i src type)"

definition from_being_accepted :: "env \<Rightarrow> nat \<Rightarrow> int \<Rightarrow> int \<Rightarrow> world \<Rightarrow> world res" where
  "from_being_accepted E i src type = case_being_accepted i src type (from_accepted E i src type)"

definition from_starting :: "env \<Rightarrow> nat \<Rightarrow> int \<Rightarrow> int \<Rightarrow> world \<Rightarrow> world res" where
  "from_starting E i src type = case_starting i src type (from_being_accepted E i src type)"

definition from_idle :: "env \<Rightarrow> nat \<Rightarrow> int \<Rightarrow> int \<Rightarrow> world \<Rightarrow> world res" where
  "from_idle E i src type = case_idle i src type (from_starting E i src type)"

definition NetSocketHandler :: "env \<Rightarrow> run \<Rightarrow> nat \<Rightarrow> int \<Rightarrow> int \<Rightarrow> anyptr \<Rightarrow> world \<Rightarrow> world res" where
  "NetSocketHandler E run i src type srcptr w =
     andThen (NetSocket_InternalTasks i src type w) (\<lambda>(internal, w).
     if internal then Inr w
     else
       andThen (sock_state i w) (\<lambda>st.
       if st = kNetSockStateIdle then from_idle E i src type w
       else if st = kNetSockStateStarting then from_starting E i src type w
       else if st = kNetSockStateBeingAccepted then from_being_accepted E i src type w
       else if st = kNetSockStateAccepted then from_accepted E i src type w
       else if st = kNetSockStateConnecting then from_connecting E i src type w
       else if st = kNetSockStateActive then from_active E i src type w
       else if st = kNetSockStateRemovingFd then from_removing_fd E i src type w
       else if st = kNetSockStateDone then from_done w
       else if st = kNetSockStateListening then from_listening E run i src type w
       else if st = kNetSockStateAccepting then from_accepting E run i src type w
       else if st = kNetSockStateAcceptingError then from_accepting_error run i src type w
       else if st = kNetSockStateCancelling then from_cancelling run i src type w
       else from_default i src type w))"

end
