(* ===== verification/Netdevice.thy ===== *)
theory Netdevice
  imports Nethandler
begin

text \<open>
  \<open>src/device.cpp\<close>: the device owns all sockets, answers their events, routes messages
  by token and hands finished reads to the completion queue. The user's functions
  \<open>Token2Dptr\<close>, \<open>Token2DptrSize\<close> and \<open>Token2Ip\<close> are parameters.
\<close>

section \<open>Sockets by token\<close>

definition IsIpEqual :: "sockaddr \<Rightarrow> sockaddr \<Rightarrow> bool" where
  "IsIpEqual ip1 ip2 \<longleftrightarrow> sin_family ip1 = sin_family ip2 \<and> sin_port ip1 = sin_port ip2
     \<and> s_addr ip1 = s_addr ip2"

definition NetDevice_Token2Socket :: "64 word \<Rightarrow> world \<Rightarrow> nat option" where
  "NetDevice_Token2Socket token w = map_of (dv_token2sock (w_dev w)) token"

text \<open>\<open>unordered_map::emplace\<close> keeps an entry that is there already.\<close>

definition emplace_sock :: "64 word \<Rightarrow> nat \<Rightarrow> world \<Rightarrow> world" where
  "emplace_sock token i w =
     (if map_of (dv_token2sock (w_dev w)) token \<noteq> None then w
      else upd_dev (dv_token2sock_update (\<lambda>m. m @ [(token, i)])) w)"

definition emplace_callback :: "64 word \<Rightarrow> nat \<Rightarrow> world \<Rightarrow> world" where
  "emplace_callback token cb w =
     (if dv_token2callback (w_dev w) token \<noteq> None then w
      else upd_dev (dv_token2callback_update (\<lambda>m. m(token \<mapsto> cb))) w)"

definition insert_sock :: "nat \<Rightarrow> world \<Rightarrow> world" where
  "insert_sock i w = upd_dev (dv_sock_sets_update (List.insert i)) w"

text \<open>The loop over \<open>token2sock_\<close> that looks for a socket connected to an address.\<close>

fun find_by_ip :: "sockaddr \<Rightarrow> (64 word \<times> nat) list \<Rightarrow> world \<Rightarrow> nat option res" where
  "find_by_ip addr [] w = Inr None"
| "find_by_ip addr ((t, i) # rest) w =
     andThen (get_sock i w) (\<lambda>s.
       if IsIpEqual (sk_ip s) addr then Inr (Some i) else find_by_ip addr rest w)"

text \<open>The first half of SendMsg: the socket a message to \<open>token\<close> goes out on, made if there is none.\<close>

definition route :: "env \<Rightarrow> 64 word \<Rightarrow> world \<Rightarrow> (nat \<times> world) res" where
  "route E token w =
     (case NetDevice_Token2Socket token w of
        Some i \<Rightarrow> Inr (i, w)
      | None \<Rightarrow>
          andThen (find_by_ip (u_Token2Ip (env_user E) token) (dv_token2sock (w_dev w)) w) (\<lambda>found.
          case found of
            Some i \<Rightarrow> Inr (i, emplace_sock token i w)
          | None \<Rightarrow>
              let (i, w) = new_sock w; w = insert_sock i w in
              andThen (NetSocket_Init i kNetDeviceSrcSocketEvent FDevice (u_Token2Ip (env_user E) token) w) (\<lambda>w.
              let w = emplace_sock token i w in
              andThen (NetSocket_IsIdle i w) (\<lambda>idle.
              CHECK ''out_sock->IsIdle()'' idle (i, w)))))"

definition NetDevice_SendMsg :: "env \<Rightarrow> run \<Rightarrow> netmsg \<Rightarrow> world \<Rightarrow> (int \<times> world) res" where
  "NetDevice_SendMsg E run msg w =
     andThen (route E (m_dst msg) w) (\<lambda>(i, w).
     andThen (NetSocket_IsIdle i w) (\<lambda>idle.
     andThen (if idle then
                andThen (NetSocket_Start E run i AF_INET SOCK_STREAM 0 w) (\<lambda>(_, w).
                NetSocket_Connect E run i w)
              else Inr w) (\<lambda>w.
     andThen (NetSocket_AsyncSendMsg E i msg w) (\<lambda>w. Inr (0, w)))))"

section \<open>The user's calls\<close>

definition NetDevice_SendData :: "env \<Rightarrow> run \<Rightarrow> 64 word \<Rightarrow> 64 word \<Rightarrow> world \<Rightarrow> (int \<times> world) res" where
  "NetDevice_SendData E run src_token dst_token w =
     (let msg = NetMsg_new\<lparr>msg_type := 1, m_src := src_token, m_dst := dst_token\<rparr>;
          src_dptr = u_Token2Dptr (env_user E) (m_src msg);
          src_sz = u_Token2DptrSize (env_user E) (m_src msg)
      in if src_dptr = 0 then Inr (- 1, w)
         else if src_sz = 0 then Inr (- 1, w)
         else
           andThen (NetDevice_SendMsg E run (msg\<lparr>m_src := src_dptr, m_extra := src_sz\<rparr>) w) (\<lambda>(_, w).
           Inr (0, w)))"

definition NetDevice_ReadData ::
  "env \<Rightarrow> run \<Rightarrow> 64 word \<Rightarrow> 64 word \<Rightarrow> nat \<Rightarrow> world \<Rightarrow> (int \<times> world) res" where
  "NetDevice_ReadData E run src_token dst_token callback w =
     (let msg = NetMsg_new\<lparr>m_src := dst_token, m_dst := src_token, msg_type := 0,
                           m_extra := word_of_int kNetMsgCmdRead\<rparr>
      in NetDevice_SendMsg E run msg (emplace_callback (m_dst msg) callback w))"

text \<open>
  \<open>PollCompletionQueue\<close> runs callbacks until Receive fails. The result: the callbacks in
  the order they ran, whether the thread is then waiting inside Receive, the queue.
\<close>

function poll_queue :: "'a channel \<Rightarrow> 'a list \<times> bool \<times> 'a channel" where
  "poll_queue c =
     (case Channel_Receive c of
        None \<Rightarrow> ([], True, c)
      | Some (rc, x, c1) \<Rightarrow>
          (case x of
             Some f \<Rightarrow> if rc = 0 \<and> length (ch_val c1) < length (ch_val c)
                       then (let (fs, b, c2) = poll_queue c1 in (f # fs, b, c2)) else ([], False, c1)
           | None \<Rightarrow> ([], False, c1)))"
  by pat_completeness auto
termination
  by (relation "measure (\<lambda>c. length (ch_val c))") auto

declare poll_queue.simps [simp del]

definition NetDevice_PollCompletionQueue :: "world \<Rightarrow> nat list \<times> bool \<times> world" where
  "NetDevice_PollCompletionQueue w =
     (let (fs, waiting, c) = poll_queue (dv_cq (w_dev w))
      in (fs, waiting, upd_dev (dv_cq_update (\<lambda>_. c)) w))"

definition NetDevice_CloseCompletionQueue :: "world \<Rightarrow> world" where
  "NetDevice_CloseCompletionQueue w =
     upd_dev (dv_cq_update (\<lambda>c. Channel_CloseReceiveEnd (Channel_CloseSendEnd c))) w"

section \<open>Messages and events from the sockets\<close>

definition NetDevice_ParseNetMsg :: "env \<Rightarrow> run \<Rightarrow> netmsg \<Rightarrow> world \<Rightarrow> (int \<times> world) res" where
  "NetDevice_ParseNetMsg E run msg w =
     (if msg_type msg = 0 then
        if sint (m_extra msg) = kNetMsgCmdRead then
          let out_msg = NetMsg_new\<lparr>msg_type := 1, m_src := u_Token2Dptr (env_user E) (m_src msg),
                                   m_dst := m_dst msg,
                                   m_extra := u_Token2DptrSize (env_user E) (m_src msg)\<rparr>
          in andThen (CHECK ''data_len != -1'' (sint (m_extra out_msg) \<noteq> - 1) w) (\<lambda>w.
             andThen (NetDevice_SendMsg E run out_msg w) (\<lambda>(_, w). Inr (0, w)))
        else Inl (LogFatal ''Unexpected Run'')
      else if msg_type msg = 1 then
        (case dv_token2callback (w_dev w) (m_dst msg) of
           Some cb \<Rightarrow>
             Inr (0, upd_dev (\<lambda>d. d\<lparr>dv_cq := snd (Channel_Send cb (dv_cq d)),
                                    dv_token2callback := (dv_token2callback d)(m_dst msg := None)\<rparr>) w)
         | None \<Rightarrow> Inr (0, w))
      else Inl (LogFatal ''Unexpected Run''))"

definition NetDevice_PairListenSocket :: "env \<Rightarrow> run \<Rightarrow> world \<Rightarrow> world res" where
  "NetDevice_PairListenSocket E run w =
     (let (i, w) = new_sock w in
      andThen (NetSocket_Init i kNetDeviceSrcSocketEvent FDevice \<lparr>sin_family = 0, sin_port = 0, s_addr = 0\<rparr> w) (\<lambda>w.
      let w = insert_sock i w in
      NetSocket_Accept E run i (dv_listen (w_dev w)) w))"

text \<open>The cast of a source pointer to the type the event type promises.\<close>

definition as_sock :: "anyptr \<Rightarrow> nat res" where
  "as_sock p = (case p of PSock i \<Rightarrow> Inr i | _ \<Rightarrow> Inl (BadPointer ''NetSocket''))"

definition as_msg :: "anyptr \<Rightarrow> netmsg res" where
  "as_msg p = (case p of PMsg m \<Rightarrow> Inr m | _ \<Rightarrow> Inl (BadPointer ''NetMsg''))"

definition NetDeviceFsmHandler :: "env \<Rightarrow> run \<Rightarrow> int \<Rightarrow> int \<Rightarrow> anyptr \<Rightarrow> world \<Rightarrow> world res" where
  "NetDeviceFsmHandler E run src type srcptr w =
     (if src = kNetDeviceSrcWorkerTaskExecute then Inl (LogFatal ''Unexpected Run'')
      else if src = kNetDeviceSrcSocketEvent then
        if type = kNetSockEventTypeConnected then
          andThen (as_sock srcptr) (\<lambda>i. execute_task E i TkSend w)
        else if type = kNetSockEventTypeSent then Inr w
        else if type = kNetSockEventTypeReceived then
          andThen (as_msg srcptr) (\<lambda>msg.
          andThen (NetDevice_ParseNetMsg E run msg w) (\<lambda>(_, w). Inr w))
        else if type = kNetSockEventTypeError then Inl (LogFatal ''Unexpected Run'')
        else if type = kNetSockEventTypeAcceptError then Inl (LogFatal ''Unexpected Run'')
        else if type = kNetSockEventTypeAccepted then
          andThen (as_sock srcptr) (\<lambda>i.
          andThen (NetSocket_Activate run i w) (\<lambda>w.
          andThen (execute_task E i TkRecv w) (NetDevice_PairListenSocket E run)))
        else if type = kNetSockEventTypeShutdown then
          andThen (as_sock srcptr) (\<lambda>i. delete_sock i w)
        else Inr w
      else Inr w)"

definition NetDeviceFsmShutdownHandler :: "int \<Rightarrow> int \<Rightarrow> anyptr \<Rightarrow> world \<Rightarrow> world res" where
  "NetDeviceFsmShutdownHandler src type srcptr w = Inr w"

section \<open>Life of the device\<close>

text \<open>The results of Start, Bind and Listen are not looked at.\<close>

definition NetDevice_Init :: "env \<Rightarrow> run \<Rightarrow> world \<Rightarrow> world res" where
  "NetDevice_Init E run w =
     andThen (NetPool_Init E w) (\<lambda>(_, w).
     andThen (NetFsm_Init FDevice (- 1) DeviceHandlers None None w) (\<lambda>w.
     let w = upd_dev (dv_ip_update (\<lambda>_. u_Token2Ip (env_user E) (- 1))) w;
         l = dv_listen (w_dev w) in
     andThen (NetSocket_Init l kNetDeviceSrcSocketEvent FDevice (dv_ip (w_dev w)) w) (\<lambda>w.
     andThen (NetSocket_Start E run l AF_INET SOCK_STREAM 0 w) (\<lambda>(_, w).
     andThen (NetSocket_Bind E l w) (\<lambda>(_, w).
     andThen (NetSocket_Listen E run l kListenBacklog w) (\<lambda>(_, w).
     NetDevice_PairListenSocket E run w))))))"

fun stop_all :: "env \<Rightarrow> nat list \<Rightarrow> world \<Rightarrow> world res" where
  "stop_all E [] w = Inr w"
| "stop_all E (i # is) w = andThen (NetSocket_AsyncStop E i w) (stop_all E is)"

text \<open>The destructor goes through the sockets in the order \<open>js\<close> of the unordered set, which is not specified.\<close>

definition NetDevice_destroy :: "env \<Rightarrow> nat list \<Rightarrow> world \<Rightarrow> world res" where
  "NetDevice_destroy E js w = stop_all E js w"

section \<open>Laws\<close>

lemma poll_queue_eq:
  "poll_queue c = (if ch_receive_closed c then ([], False, c) else (ch_val c, \<not> ch_send_closed c, c\<lparr>ch_val := []\<rparr>))"
proof (induction c rule: poll_queue.induct)
  case (1 c)
  show ?case
  proof (cases "ch_receive_closed c \<or> ch_val c = []")
    case True
    then show ?thesis
      by (cases c) (subst poll_queue.simps, auto simp: Channel_Receive_def receive_ready_def)
  next
    case False
    let ?c = "c\<lparr>ch_val := tl (ch_val c)\<rparr>"
    from False have r: "Channel_Receive c = Some (0, Some (hd (ch_val c)), ?c)"
      by (simp add: Channel_Receive_def receive_ready_def)
    have "poll_queue ?c = (tl (ch_val c), \<not> ch_send_closed c, c\<lparr>ch_val := []\<rparr>)"
      using 1 [OF r] False by simp
    with False r show ?thesis
      by (subst poll_queue.simps) simp
  qed
qed

lemma upd_dev_simps [simp]:
  "w_dev (upd_dev f w) = f (w_dev w)" "w_socks (upd_dev f w) = w_socks w" "w_nsocks (upd_dev f w) = w_nsocks w"
  "w_trace (upd_dev f w) = w_trace w" "w_workers (upd_dev f w) = w_workers w" "w_cur_worker (upd_dev f w) = w_cur_worker w"
  "w_next (upd_dev f w) = w_next w" "w_mem (upd_dev f w) = w_mem w" "w_log (upd_dev f w) = w_log w"
  by (simp_all add: upd_dev_def)

section \<open>Properties\<close>

text \<open>C37: The completion queue runs each callback once and in order. PollCompletionQueue runs exactly
  the callbacks that are queued, first sent first, takes them out, and then waits for
  more unless the sending end is closed. After CloseCompletionQueue, which closes both
  ends, it runs nothing: callbacks that were still queued are not run any more.\<close>

theorem completion_queue_runs_in_order:
  "NetDevice_PollCompletionQueue w =
     (let c = dv_cq (w_dev w) in
      if ch_receive_closed c then ([], False, w)
      else (ch_val c, \<not> ch_send_closed c, upd_dev (dv_cq_update (\<lambda>c. c\<lparr>ch_val := []\<rparr>)) w)) \<and>
   NetDevice_PollCompletionQueue (NetDevice_CloseCompletionQueue w) = ([], False, NetDevice_CloseCompletionQueue w)"
  by (simp add: NetDevice_PollCompletionQueue_def NetDevice_CloseCompletionQueue_def poll_queue_eq
      Channel_CloseReceiveEnd_def Channel_CloseSendEnd_def upd_dev_def Let_def)

end
