(* ===== verification/Netdispatch.thy ===== *)
theory Netdispatch
  imports Netdevice
begin

text \<open>
  Tying the knot of \<open>Netfsm\<close>: calling the handler that is installed in a machine, and
  the critical section of \<open>src/ctx.cpp\<close> that runs a call and then the events it raised.
  A handler may call back into a machine; \<open>fsm_run n\<close> allows \<open>n\<close> nested handlers, and
  two are enough in every state (theorem \<open>handlers_nest_at_most_twice\<close>).
\<close>

section \<open>Calling the installed handler\<close>

definition handler_step :: "env \<Rightarrow> run \<Rightarrow> run" where
  "handler_step E run sd f src type srcptr w =
     andThen (get_fsm f w) (\<lambda>x.
     case f_handlers x of
       SocketHandlers \<Rightarrow>
         (case f of
            FDevice \<Rightarrow> Inl (BadPointer ''container_of'')
          | FSock i \<Rightarrow>
              if sd then NetSocketShutdownHandler E run i src type srcptr w
              else NetSocketHandler E run i src type srcptr w)
     | DeviceHandlers \<Rightarrow>
         if sd then NetDeviceFsmShutdownHandler src type srcptr w
         else NetDeviceFsmHandler E run src type srcptr w)"

primrec fsm_run :: "env \<Rightarrow> nat \<Rightarrow> run" where
  "fsm_run E 0 = (\<lambda>sd f src type srcptr w. Inl FuelExhausted)"
| "fsm_run E (Suc n) = handler_step E (fsm_run E n)"

definition dispatch :: "env \<Rightarrow> run" where
  "dispatch E = fsm_run E 2"

text \<open>
  An action other than Stop never calls back, so a handler that is called from a handler
  is the last one. Every use of \<open>run\<close> in a handler goes through Action or Start.
\<close>

lemma shutdown_action_flat:
  "type \<noteq> kNetFsmStop \<Longrightarrow>
   NetSocketShutdownHandler E r i kNetFsmAction type p w = NetSocketShutdownHandler E r' i kNetFsmAction type p w"
  by (simp add: NetSocketShutdownHandler_def cong: if_cong)

lemma cancelling_action: "case_cancelling r i kNetFsmAction type k = unexpected_source i kNetFsmAction type k"
  by (rule ext) (simp add: case_cancelling_def)

lemma socket_action_flat:
  "NetSocketHandler E r i kNetFsmAction type p w = NetSocketHandler E r' i kNetFsmAction type p w"
  by (simp only: NetSocketHandler_def from_listening_def from_accepting_def from_accepting_error_def
      from_cancelling_def cancelling_action)

lemma device_action_flat:
  "NetDeviceFsmHandler E r kNetFsmAction type p w = NetDeviceFsmHandler E r' kNetFsmAction type p w"
  by (simp add: NetDeviceFsmHandler_def)

lemma step_action_flat:
  assumes "type \<noteq> kNetFsmStop"
  shows "handler_step E r sd f kNetFsmAction type p w = handler_step E r' sd f kNetFsmAction type p w"
  unfolding handler_step_def
  by (rule arg_cong [of _ _ "andThen (get_fsm f w)"], rule ext)
    (auto split: handler.split fsmid.split
      intro: shutdown_action_flat [OF assms] socket_action_flat device_action_flat)

lemma Action_flat: "NetFsm_Action (handler_step E r) = NetFsm_Action (handler_step E r')"
proof (intro ext)
  fix f type w
  show "NetFsm_Action (handler_step E r) f type w = NetFsm_Action (handler_step E r') f type w"
  proof (cases "type > 0")
    case True
    then show ?thesis
      using step_action_flat [of type E r _ _ _ _ r']
      by (simp add: NetFsm_Action_def NetFsm_Feed_def NetFsm_Handle_def NetFsm_ShutdownHandle_def cong: if_cong)
  qed (simp add: NetFsm_Action_def)
qed

lemma Start_flat: "NetFsm_Start (handler_step E r) = NetFsm_Start (handler_step E r')"
  using step_action_flat [of kNetFsmStart E r _ _ _ _ r']
  by (intro ext) (simp add: NetFsm_Start_def NetFsm_Handle_def)

lemmas uses_of_run = NetSocket_Start_def NetSocket_Connect_def NetSocket_Accept_def NetSocket_Activate_def
  NetDevice_SendMsg_def NetDevice_ParseNetMsg_def NetDevice_PairListenSocket_def

lemma step_cong:
  assumes "NetFsm_Action r = NetFsm_Action r'" and "NetFsm_Start r = NetFsm_Start r'"
  shows "handler_step E r = handler_step E r'"
proof -
  have "NetDevice_ParseNetMsg E r = NetDevice_ParseNetMsg E r'"
    by (intro ext) (simp only: uses_of_run assms)
  moreover have "NetDevice_PairListenSocket E r = NetDevice_PairListenSocket E r'" "NetSocket_Activate r = NetSocket_Activate r'"
    by (intro ext, simp only: uses_of_run assms)+
  ultimately have "NetDeviceFsmHandler E r = NetDeviceFsmHandler E r'"
    by (intro ext) (simp only: NetDeviceFsmHandler_def)
  moreover have "case_cancelling r = case_cancelling r'"
    by (intro ext) (simp only: case_cancelling_def assms)
  then have "NetSocketHandler E r = NetSocketHandler E r'"
    by (intro ext) (simp only: NetSocketHandler_def from_listening_def from_accepting_def from_accepting_error_def
        from_cancelling_def)
  moreover have "NetSocketShutdownHandler E r = NetSocketShutdownHandler E r'"
    by (intro ext) (simp only: NetSocketShutdownHandler_def shutdown_stop_def assms)
  ultimately show ?thesis by (intro ext) (simp only: handler_step_def)
qed

lemma step_step: "handler_step E (handler_step E r) = handler_step E (handler_step E r')"
  by (rule step_cong) (rule Action_flat Start_flat)+

lemma dispatch_eq: "dispatch E = handler_step E (handler_step E r)"
  by (simp only: dispatch_def numeral_2_eq_2 fsm_run.simps) (rule step_step)

lemma dispatch_fix: "dispatch E = handler_step E (dispatch E)"
  using dispatch_eq [of E "handler_step E r" for r] dispatch_eq [of E] by metis

section \<open>The critical section of a context\<close>

definition lock_ctx :: "nat \<Rightarrow> world \<Rightarrow> world res" where
  "lock_ctx c w =
     andThen (get_sock c w) (\<lambda>s.
     if cx_locked (sk_ctx s) then Inl (SelfDeadlock ''sync_'')
     else upd_sock c (sk_ctx_update (cx_locked_update (\<lambda>_. True))) w)"

definition unlock_ctx :: "nat \<Rightarrow> world \<Rightarrow> world res" where
  "unlock_ctx c w = upd_sock c (sk_ctx_update (cx_locked_update (\<lambda>_. False))) w"

text \<open>The first loop: events of this context, while there are any.\<close>

primrec process_events :: "env \<Rightarrow> nat \<Rightarrow> nat \<Rightarrow> world \<Rightarrow> world res" where
  "process_events E 0 c w = Inl FuelExhausted"
| "process_events E (Suc n) c w =
     andThen (pop_from (get_events c) (put_events c) w) (\<lambda>(x, w1).
     case x of
       None \<Rightarrow> Inr w1
     | Some (EvItem e) \<Rightarrow> andThen (NetFsmEvent_Process (dispatch E) e w1) (process_events E n c)
     | Some _ \<Rightarrow> Inl (BadPointer ''NetFsmEvent''))"

text \<open>The second loop: external events, each in a critical section of its own machine's context.\<close>

primrec process_external ::
  "env \<Rightarrow> (nat \<Rightarrow> (world \<Rightarrow> world res) \<Rightarrow> world \<Rightarrow> world res) \<Rightarrow> nat \<Rightarrow> qitem netqueue \<Rightarrow> world \<Rightarrow> world res"
where
  "process_external E section 0 q w = Inl FuelExhausted"
| "process_external E section (Suc n) q w =
     andThen (pop_local q w) (\<lambda>(x, q1, w1).
     case x of
       None \<Rightarrow> Inr w1
     | Some (EvItem e) \<Rightarrow>
         andThen (get_event e w1) (\<lambda>ev.
         andThen (deref ''fsm_'' (e_fsm ev)) (\<lambda>f.
         andThen (get_fsm f w1) (\<lambda>x.
         andThen (deref ''ctx_'' (f_ctx x)) (\<lambda>c.
         andThen (section c (NetFsmEvent_Process (dispatch E) e) w1) (process_external E section n q1)))))
     | Some _ \<Rightarrow> Inl (BadPointer ''NetFsmEvent''))"

primrec NetCtx_ExecuteCriticalSection ::
  "env \<Rightarrow> nat \<Rightarrow> nat \<Rightarrow> (world \<Rightarrow> world res) \<Rightarrow> world \<Rightarrow> world res" where
  "NetCtx_ExecuteCriticalSection E 0 c func w = Inl FuelExhausted"
| "NetCtx_ExecuteCriticalSection E (Suc n) c func w =
     andThen (lock_ctx c w) (\<lambda>w.
     andThen (func w) (\<lambda>w.
     andThen (process_events E n c w) (\<lambda>w.
     andThen (get_eventsto c w) (\<lambda>q.
     if NetQueue_Empty q = 1 then unlock_ctx c w
     else
       andThen (put_eventsto c NetQueue_Init w) (\<lambda>w.
       andThen (unlock_ctx c w)
         (process_external E (NetCtx_ExecuteCriticalSection E n) n q))))))"

lemmas section_simps = NetCtx_ExecuteCriticalSection.simps process_events.simps process_external.simps

declare NetCtx_ExecuteCriticalSection.simps [simp del] process_events.simps [simp del] process_external.simps [simp del]

section \<open>Properties\<close>

text \<open>C38: Handlers nest at most twice. The handlers and the machines call each other, but a handler
  called from within a handler never calls a further one: running the installed handler
  with two levels gives the same function whatever the calls below would do, for the
  device, every socket, every event, source and state. So the two levels of
  \<open>dispatch\<close> satisfy the equation of the source (the installed handler, calling back into
  the machines by dispatch), and nothing in it depends on the bound.\<close>

theorem handlers_nest_at_most_twice:
  "handler_step E (handler_step E r) = dispatch E \<and> dispatch E = handler_step E (dispatch E)"
  using dispatch_eq dispatch_fix by metis

end
