(* ===== verification/Netroutine.thy ===== *)
theory Netroutine
  imports Netdispatch
begin

text \<open>
  \<open>NetWorker::NetWorkerRoutine\<close> (\<open>src/worker.cpp\<close>): one pass of the worker's loop waits
  for events, then handles them one by one: tasks when the eventfd is readable, and
  otherwise the descriptor of a socket. Each task and each descriptor event is fed to
  the socket's machine inside the critical section of its context. The result tells
  whether the routine has returned because of the stop item.
\<close>

section \<open>Tasks\<close>

text \<open>The nested \<open>while (tasks.Pop() != nullptr)\<close> that throws the rest of the tasks away.\<close>

primrec discard_tasks :: "nat \<Rightarrow> qitem netqueue \<Rightarrow> world \<Rightarrow> world res" where
  "discard_tasks 0 q w = Inl FuelExhausted"
| "discard_tasks (Suc n) q w =
     andThen (pop_local q w) (\<lambda>(x, q1, w1).
     case x of None \<Rightarrow> Inr w1 | Some _ \<Rightarrow> discard_tasks n q1 w1)"

definition run_task :: "env \<Rightarrow> nat \<Rightarrow> nat \<Rightarrow> tk \<Rightarrow> world \<Rightarrow> world res" where
  "run_task E n i t w =
     andThen (get_sock i w) (\<lambda>s.
     case t_owner (sk_task s t) of
       None \<Rightarrow> Inl (CheckFailed ''task->owner() != 0'')
     | Some owner \<Rightarrow>
         andThen (get_fsm owner w) (\<lambda>x.
         case f_ctx x of
           None \<Rightarrow> Inl (CheckFailed ''task->owner()->ctx() != 0'')
         | Some c \<Rightarrow>
             NetCtx_ExecuteCriticalSection E n c
               (NetFsm_Feed (dispatch E) owner (t_src (sk_task s t)) kNetWorkerTaskExecute (PTask i t)) w))"

primrec run_tasks :: "env \<Rightarrow> nat \<Rightarrow> nat \<Rightarrow> nat \<Rightarrow> qitem netqueue \<Rightarrow> world \<Rightarrow> (bool \<times> world) res" where
  "run_tasks E n 0 k q w = Inl FuelExhausted"
| "run_tasks E n (Suc m) k q w =
     andThen (pop_local q w) (\<lambda>(x, q1, w1).
     case x of
       None \<Rightarrow> Inr (False, w1)
     | Some item \<Rightarrow>
         if item = StopItem k then andThen (discard_tasks m q1 w1) (\<lambda>w2. Inr (True, w2))
         else
           (case item of
              TaskItem i t \<Rightarrow> andThen (run_task E n i t w1) (run_tasks E n m k q1)
            | _ \<Rightarrow> Inl (BadPointer ''NetWorkerTask'')))"

definition take_tasks :: "env \<Rightarrow> nat \<Rightarrow> nat \<Rightarrow> nat \<Rightarrow> int \<Rightarrow> world \<Rightarrow> (bool \<times> world) res" where
  "take_tasks E n m k pevent w =
     andThen (CHECK ''pevent == kNetPollerIn'' (pevent = kNetPollerIn) w) (\<lambda>w.
     andThen (unsignal_worker E k w) (\<lambda>w.
     andThen (get_tasks k w) (\<lambda>q.
     andThen (put_tasks k NetQueue_Init w) (run_tasks E n m k q))))"

section \<open>Descriptors\<close>

definition run_fd :: "env \<Rightarrow> nat \<Rightarrow> nat \<Rightarrow> int \<Rightarrow> world \<Rightarrow> world res" where
  "run_fd E n i pevent w =
     andThen (get_sock i w) (\<lambda>s.
     case wf_owner (sk_wfd s) of
       None \<Rightarrow> Inl (CheckFailed ''fd->owner() != 0'')
     | Some owner \<Rightarrow>
         andThen (get_fsm owner w) (\<lambda>x.
         case f_ctx x of
           None \<Rightarrow> Inl (CheckFailed ''fd->owner()->ctx() != 0'')
         | Some c \<Rightarrow>
             NetCtx_ExecuteCriticalSection E n c
               (NetFsm_Feed (dispatch E) owner (wf_src (sk_wfd s)) pevent (PWfd i)) w))"

section \<open>The loop\<close>

definition poller_event :: "nat \<Rightarrow> world \<Rightarrow> (int \<times> (int \<times> hptr) option \<times> world) res" where
  "poller_event k w =
     andThen (get_worker k w) (\<lambda>wk.
     andThen (NetPoller_Event (wk_poller wk)) (\<lambda>(rc, ev, p).
     andThen (put_poller k p w) (\<lambda>w1. Inr (rc, ev, w1))))"

primrec worker_events :: "env \<Rightarrow> nat \<Rightarrow> nat \<Rightarrow> nat \<Rightarrow> world \<Rightarrow> (bool \<times> world) res" where
  "worker_events E n 0 k w = Inl FuelExhausted"
| "worker_events E n (Suc m) k w =
     andThen (poller_event k w) (\<lambda>(rc, ev, w1).
     case ev of
       None \<Rightarrow> Inr (False, w1)
     | Some (pevent, hndl) \<Rightarrow>
         if hndl = HEfd k then
           andThen (take_tasks E n m k pevent w1) (\<lambda>(stopped, w2).
           if stopped then Inr (True, w2) else worker_events E n m k w2)
         else
           (case hndl of
              HEfd _ \<Rightarrow> Inl (BadPointer ''NetWorkerFd'')
            | HSock i \<Rightarrow> andThen (run_fd E n i pevent w1) (worker_events E n m k)))"

definition worker_wait :: "env \<Rightarrow> nat \<Rightarrow> world \<Rightarrow> world res" where
  "worker_wait E k w =
     andThen (get_worker k w) (\<lambda>wk.
     andThen (NetPoller_Wait (env_os E) (- 1) (wk_poller wk) (w_trace w)) (\<lambda>(_, p, tr).
     put_poller k p (w\<lparr>w_trace := tr\<rparr>)))"

definition NetWorkerRoutine_pass :: "env \<Rightarrow> nat \<Rightarrow> nat \<Rightarrow> nat \<Rightarrow> world \<Rightarrow> (bool \<times> world) res" where
  "NetWorkerRoutine_pass E n m k w = andThen (worker_wait E k w) (worker_events E n m k)"

section \<open>Terminating the pool\<close>

text \<open>
  \<open>NetWorker::Terminate\<close> waits in \<open>routine_thread_.join()\<close> while the workers' threads run.
  \<open>js\<close> is the order in which their loops make passes: the thread of worker \<open>k\<close> is joined by the pass in
  which its routine returns. The threads of the workers below \<open>k\<close> have been joined before and
  have no more turns. A schedule that ends too soon leaves the caller waiting. The rest of
  the schedule is left for the workers that are joined next.
\<close>

primrec join_routine :: "env \<Rightarrow> nat \<Rightarrow> nat \<Rightarrow> nat \<Rightarrow> nat list \<Rightarrow> world \<Rightarrow> (nat list \<times> world) res" where
  "join_routine E n m k [] w = Inl FuelExhausted"
| "join_routine E n m k (j # js) w =
     (if j < k then join_routine E n m k js w
      else andThen (NetWorkerRoutine_pass E n m j w) (\<lambda>(returned, w1).
           if j = k \<and> returned then Inr (js, w1) else join_routine E n m k js w1))"

definition NetWorker_Terminate :: "env \<Rightarrow> nat \<Rightarrow> nat \<Rightarrow> nat \<Rightarrow> nat list \<Rightarrow> world \<Rightarrow> (nat list \<times> world) res" where
  "NetWorker_Terminate E n m k js w =
     andThen (NetWorker_Terminate_request E k w) (\<lambda>w1.
     andThen (join_routine E n m k js w1) (\<lambda>(js1, w2).
     andThen (NetWorker_Terminate_cleanup E k w2) (\<lambda>w3. Inr (js1, w3))))"

primrec pool_terminate_from :: "env \<Rightarrow> nat \<Rightarrow> nat \<Rightarrow> nat list \<Rightarrow> nat list \<Rightarrow> world \<Rightarrow> (nat list \<times> world) res" where
  "pool_terminate_from E n m [] js w = Inr (js, w)"
| "pool_terminate_from E n m (k # ks) js w =
     andThen (NetWorker_Terminate E n m k js w) (\<lambda>(js1, w1). pool_terminate_from E n m ks js1 w1)"

definition NetPool_Terminate :: "env \<Rightarrow> nat \<Rightarrow> nat \<Rightarrow> nat list \<Rightarrow> world \<Rightarrow> (nat list \<times> world) res" where
  "NetPool_Terminate E n m js w = pool_terminate_from E n m [0..<kNetWorkerNum] js w"

end
