(* ===== verification/Netlaws.thy ===== *)
theory Netlaws
  imports Netroutine
begin

text \<open>
  What the operations of the process do when the objects they use are there: the result
  of each as an equation on the state. Lemmas in \<open>live\<close> rewrite accesses to live objects.
\<close>

named_theorems live

lemma get_sock_live [live]: "w_socks w i = Some s \<Longrightarrow> get_sock i w = Inr s"
  by (simp add: get_sock_def)

lemma upd_sock_live [live]:
  "w_socks w i = Some s \<Longrightarrow> upd_sock i f w = Inr (w\<lparr>w_socks := (w_socks w)(i \<mapsto> f s)\<rparr>)"
  by (simp add: upd_sock_def get_sock_def)

lemma sock_state_live [live]: "w_socks w i = Some s \<Longrightarrow> sock_state i w = Inr (sk_state s)"
  by (simp add: sock_state_def get_sock_def)

lemma set_state_live [live]:
  "w_socks w i = Some s \<Longrightarrow> set_state i st w = Inr (w\<lparr>w_socks := (w_socks w)(i \<mapsto> s\<lparr>sk_state := st\<rparr>)\<rparr>)"
  by (simp add: set_state_def upd_sock_live)

lemma get_fsm_live [live]: "w_socks w i = Some s \<Longrightarrow> get_fsm (FSock i) w = Inr (sk_fsm s)" "get_fsm FDevice w = Inr (dv_fsm (w_dev w))"
  by (simp_all add: get_fsm_def get_sock_def)

lemma upd_fsm_live [live]:
  "w_socks w i = Some s \<Longrightarrow> upd_fsm (FSock i) g w = Inr (w\<lparr>w_socks := (w_socks w)(i \<mapsto> s\<lparr>sk_fsm := g (sk_fsm s)\<rparr>)\<rparr>)"
  by (cases s) (simp add: upd_fsm_def upd_sock_live)

lemma get_event_live [live]: "w_socks w i = Some s \<Longrightarrow> get_event (SockEv i k) w = Inr (sk_event s k)"
  by (simp add: get_event_def get_sock_def)

lemma update_as_constant:
  "f_stopped_update g x = x\<lparr>f_stopped := g (f_stopped x)\<rparr>"
  "sk_fsm_update h s = s\<lparr>sk_fsm := h (sk_fsm s)\<rparr>"
  "sk_event_update k s = s\<lparr>sk_event := k (sk_event s)\<rparr>"
  "sk_ctx_update c s = s\<lparr>sk_ctx := c (sk_ctx s)\<rparr>"
  "sk_wfd_update f s = s\<lparr>sk_wfd := f (sk_wfd s)\<rparr>"
  by (cases x, simp) (cases s, simp)+

lemma upd_event_live [live]:
  "w_socks w i = Some s \<Longrightarrow> upd_event (SockEv i k) g w =
     Inr (w\<lparr>w_socks := (w_socks w)(i \<mapsto> s\<lparr>sk_event := (sk_event s)(k := g (sk_event s k))\<rparr>)\<rparr>)"
  "w_socks w i = Some s \<Longrightarrow> upd_event (StoppedEv (FSock i)) g w =
     Inr (w\<lparr>w_socks := (w_socks w)(i \<mapsto> s\<lparr>sk_fsm := (sk_fsm s)\<lparr>f_stopped := g (f_stopped (sk_fsm s))\<rparr>\<rparr>)\<rparr>)"
  by (simp_all only: upd_event_def upd_fsm_def evid.case fsmid.case upd_sock_live
      update_as_constant(3) [of "\<lambda>ev. ev(k := g (ev k))" s] update_as_constant(2) [of "f_stopped_update g" s]
      update_as_constant(1) [of g "sk_fsm s"])

lemma put_live [live]:
  "w_socks w i = Some s \<Longrightarrow> put_events i q w = Inr (w\<lparr>w_socks := (w_socks w)(i \<mapsto> s\<lparr>sk_ctx := (sk_ctx s)\<lparr>cx_events := q\<rparr>\<rparr>)\<rparr>)"
  "w_socks w i = Some s \<Longrightarrow> put_eventsto i q w = Inr (w\<lparr>w_socks := (w_socks w)(i \<mapsto> s\<lparr>sk_ctx := (sk_ctx s)\<lparr>cx_eventsto := q\<rparr>\<rparr>)\<rparr>)"
  "w_socks w i = Some s \<Longrightarrow> put_msgq i q w = Inr (w\<lparr>w_socks := (w_socks w)(i \<mapsto> s\<lparr>sk_msgq := q\<rparr>)\<rparr>)"
  "w_socks w i = Some s \<Longrightarrow> put_handle i h tr w =
     Inr (w\<lparr>w_trace := tr, w_socks := (w_socks w)(i \<mapsto> s\<lparr>sk_wfd := (sk_wfd s)\<lparr>wf_handle := h\<rparr>\<rparr>)\<rparr>)"
  by (simp_all only: put_events_def put_eventsto_def put_msgq_def put_handle_def upd_sock_live
      update_as_constant(4) [of "cx_events_update (\<lambda>_. q)" s] update_as_constant(4) [of "cx_eventsto_update (\<lambda>_. q)" s])
    (simp add: upd_sock_live, simp only: update_as_constant(5) [of "wf_handle_update (\<lambda>_. h)" s])

lemma get_live [live]:
  "w_socks w i = Some s \<Longrightarrow> get_events i w = Inr (cx_events (sk_ctx s))"
  "w_socks w i = Some s \<Longrightarrow> get_eventsto i w = Inr (cx_eventsto (sk_ctx s))"
  "w_socks w i = Some s \<Longrightarrow> get_msgq i w = Inr (sk_msgq s)"
  by (simp_all add: get_events_def get_eventsto_def get_msgq_def get_sock_live)

lemma ctx_live [live]:
  "w_socks w i = Some s \<Longrightarrow> unlock_ctx i w = Inr (w\<lparr>w_socks := (w_socks w)(i \<mapsto> s\<lparr>sk_ctx := (sk_ctx s)\<lparr>cx_locked := False\<rparr>\<rparr>)\<rparr>)"
  "w_socks w i = Some s \<Longrightarrow> \<not> cx_locked (sk_ctx s) \<Longrightarrow>
     lock_ctx i w = Inr (w\<lparr>w_socks := (w_socks w)(i \<mapsto> s\<lparr>sk_ctx := (sk_ctx s)\<lparr>cx_locked := True\<rparr>\<rparr>)\<rparr>)"
  by (simp_all only: lock_ctx_def unlock_ctx_def upd_sock_live get_sock_live andThen.simps if_False
      update_as_constant(4) [of "cx_locked_update (\<lambda>_. False)" s] update_as_constant(4) [of "cx_locked_update (\<lambda>_. True)" s])

lemma get_worker_live [live]: "k < length (w_workers w) \<Longrightarrow> get_worker k w = Inr (w_workers w ! k)"
  by (simp add: get_worker_def)

lemma upd_worker_live [live]:
  "k < length (w_workers w) \<Longrightarrow> upd_worker k f w = Inr (w\<lparr>w_workers := (w_workers w)[k := f (w_workers w ! k)]\<rparr>)"
  by (simp add: upd_worker_def get_worker_def)

section \<open>Tables of tasks and events\<close>

text \<open>The tasks and the events of a socket are enumerations, so that its tables of them can be compared and searched by evaluation.\<close>

lemma UNIV_evk: "UNIV = {EvEstablished, EvSent, EvReceived, EvError}"
  by (auto intro: evk.exhaust)

lemma UNIV_tk: "UNIV = {TkConnecting, TkConnected, TkAccept, TkSend, TkRecv, TkStop}"
  by (auto intro: tk.exhaust)

instantiation evk :: enum
begin

definition "enum_class.enum = [EvEstablished, EvSent, EvReceived, EvError]"
definition "enum_class.enum_all P \<longleftrightarrow> P EvEstablished \<and> P EvSent \<and> P EvReceived \<and> P EvError"
definition "enum_class.enum_ex P \<longleftrightarrow> P EvEstablished \<or> P EvSent \<or> P EvReceived \<or> P EvError"

instance
  by standard (simp_all only: enum_evk_def enum_all_evk_def enum_ex_evk_def UNIV_evk, simp_all)

end

instantiation tk :: enum
begin

definition "enum_class.enum = [TkConnecting, TkConnected, TkAccept, TkSend, TkRecv, TkStop]"
definition "enum_class.enum_all P \<longleftrightarrow>
  P TkConnecting \<and> P TkConnected \<and> P TkAccept \<and> P TkSend \<and> P TkRecv \<and> P TkStop"
definition "enum_class.enum_ex P \<longleftrightarrow>
  P TkConnecting \<or> P TkConnected \<or> P TkAccept \<or> P TkSend \<or> P TkRecv \<or> P TkStop"

instance
  by standard (simp_all only: enum_tk_def enum_all_tk_def enum_ex_tk_def UNIV_tk, simp_all)

end

lemma all_evk: "(\<forall>e. P e) \<longleftrightarrow> P EvEstablished \<and> P EvSent \<and> P EvReceived \<and> P EvError"
  by (simp only: enum_all [symmetric] enum_all_evk_def)

lemma all_tk:
  "(\<forall>t. P t) \<longleftrightarrow> P TkConnecting \<and> P TkConnected \<and> P TkAccept \<and> P TkSend \<and> P TkRecv \<and> P TkStop"
  by (simp only: enum_all [symmetric] enum_all_tk_def)

section \<open>A socket is initialised\<close>

fun task_src :: "tk \<Rightarrow> int" where
  "task_src TkConnecting = kNetSockSrcTaskConnecting"
| "task_src TkConnected = kNetSockSrcTaskConnected"
| "task_src TkAccept = kNetSockSrcTaskAccept"
| "task_src TkSend = kNetSockSrcTaskSend"
| "task_src TkRecv = kNetSockSrcTaskRecv"
| "task_src TkStop = kNetSockSrcTaskStop"

fun item_of :: "nat \<Rightarrow> qitem \<Rightarrow> bool" where
  "item_of i (EvItem (SockEv j k)) = (j = i)"
| "item_of i (EvItem (StoppedEv f)) = (f = FSock i)"
| "item_of i (TaskItem j t) = (j = i)"
| "item_of i _ = False"

definition init_sock :: "nat \<Rightarrow> int \<Rightarrow> fsmid \<Rightarrow> sockaddr \<Rightarrow> nat \<Rightarrow> netsock \<Rightarrow> netsock" where
  "init_sock i src owner addr k s =
     s\<lparr>sk_s := - 1, sk_in_offset := 0, sk_out_offset := 0,
       sk_fsm := \<lparr>f_state = kNetFsmStateIdle, f_src = src, f_srcptr = PNull, f_owner = Some owner,
                   f_ctx = Some i, f_stopped = NetFsmEvent_new, f_handlers = SocketHandlers\<rparr>,
       sk_ip := addr, sk_state := kNetSockStateIdle, sk_worker := k,
       sk_wfd := (sk_wfd s)\<lparr>wf_src := kNetSockSrcFd, wf_owner := Some (FSock i)\<rparr>,
       sk_ctx := (sk_ctx s)\<lparr>cx_events := NetQueue_Init, cx_eventsto := NetQueue_Init\<rparr>,
       sk_task := (\<lambda>t. \<lparr>t_src = task_src t, t_owner = Some (FSock i)\<rparr>),
       sk_event := (\<lambda>_. NetFsmEvent_new), sk_asock := None, sk_errnum := 0, sk_msgq := NetQueue_Init\<rparr>"

definition next_worker :: "int \<Rightarrow> int" where
  "next_worker c = (if c + 1 \<ge> int kNetWorkerNum then 0 else c + 1)"

lemma full_updates:
  "t\<lparr>t_src := a, t_owner := b\<rparr> = \<lparr>t_src = a, t_owner = b\<rparr>"
  "e\<lparr>e_fsm := c, e_src := a, e_srcptr := p, e_type := d\<rparr> = \<lparr>e_fsm = c, e_src = a, e_srcptr = p, e_type = d\<rparr>"
  "x\<lparr>f_handlers := h, f_state := a, f_src := d, f_srcptr := p, f_owner := b, f_ctx := y, f_stopped := z\<rparr> =
   \<lparr>f_state = a, f_src = d, f_srcptr = p, f_owner = b, f_ctx = y, f_stopped = z, f_handlers = h\<rparr>"
  by (cases t, simp) (cases e, simp, cases x, simp)

lemma tk_updates:
  "f(TkConnecting := a, TkConnected := b, TkAccept := c, TkSend := d, TkRecv := e, TkStop := g) =
   (\<lambda>t. case t of TkConnecting \<Rightarrow> a | TkConnected \<Rightarrow> b | TkAccept \<Rightarrow> c | TkSend \<Rightarrow> d | TkRecv \<Rightarrow> e | TkStop \<Rightarrow> g)"
  by (simp add: fun_eq_iff all_tk)

lemma evk_updates:
  "f(EvEstablished := a, EvSent := b, EvReceived := c, EvError := d) =
   (\<lambda>e. case e of EvEstablished \<Rightarrow> a | EvSent \<Rightarrow> b | EvReceived \<Rightarrow> c | EvError \<Rightarrow> d)"
  by (simp add: fun_eq_iff all_evk)

lemma link_updates:
  "nx(EvItem (StoppedEv (FSock i)) := v, TaskItem i TkConnecting := v, TaskItem i TkConnected := v, TaskItem i TkAccept := v,
      TaskItem i TkSend := v, TaskItem i TkRecv := v, TaskItem i TkStop := v, EvItem (SockEv i EvEstablished) := v,
      EvItem (SockEv i EvSent) := v, EvItem (SockEv i EvReceived) := v, EvItem (SockEv i EvError) := v) =
   (\<lambda>x. if item_of i x then v else nx x)"
proof (rule ext)
  fix x
  show "(nx(EvItem (StoppedEv (FSock i)) := v, TaskItem i TkConnecting := v, TaskItem i TkConnected := v, TaskItem i TkAccept := v,
      TaskItem i TkSend := v, TaskItem i TkRecv := v, TaskItem i TkStop := v, EvItem (SockEv i EvEstablished) := v,
      EvItem (SockEv i EvSent) := v, EvItem (SockEv i EvReceived) := v, EvItem (SockEv i EvError) := v)) x =
   (if item_of i x then v else nx x)"
  proof (cases x)
    case (EvItem e)
    then show ?thesis
    proof (cases e)
      case (SockEv j k)
      with EvItem show ?thesis by (cases k) auto
    qed (use EvItem in auto)
  next
    case (TaskItem j t)
    then show ?thesis by (cases t) auto
  qed auto
qed

lemma Socket_Init_law:
  assumes s: "w_socks w i = Some s" and c: "0 \<le> w_cur_worker w" "w_cur_worker w < int kNetWorkerNum"
  shows "NetSocket_Init i src owner addr w =
     Inr (w\<lparr>w_cur_worker := next_worker (w_cur_worker w),
            w_next := (\<lambda>x. if item_of i x then NOT_IN_QUEUE else w_next w x),
            w_socks := (w_socks w)(i \<mapsto> init_sock i src owner addr (nat (w_cur_worker w)) s)\<rparr>)"
proof -
  have t: "(\<lambda>t. case t of TkConnecting \<Rightarrow> \<lparr>t_src = 2, t_owner = o1\<rparr> | TkConnected \<Rightarrow> \<lparr>t_src = 3, t_owner = o1\<rparr>
        | TkAccept \<Rightarrow> \<lparr>t_src = 4, t_owner = o1\<rparr> | TkSend \<Rightarrow> \<lparr>t_src = 5, t_owner = o1\<rparr>
        | TkRecv \<Rightarrow> \<lparr>t_src = 6, t_owner = o1\<rparr> | TkStop \<Rightarrow> \<lparr>t_src = 7, t_owner = o1\<rparr>) =
      (\<lambda>t. \<lparr>t_src = task_src t, t_owner = o1\<rparr>)" for o1 :: "fsmid option"
    by (simp add: fun_eq_iff all_tk)
  have e: "(\<lambda>e. case e of EvEstablished \<Rightarrow> a | EvSent \<Rightarrow> a | EvReceived \<Rightarrow> a | EvError \<Rightarrow> a) = (\<lambda>_. a)" for a :: netevent
    by (simp add: fun_eq_iff all_evk)
  from s c show ?thesis
    by (cases s)
      (simp add: NetSocket_Init_def NetCtx_Init_def NetFsm_Init_def NetFsmEvent_Init_def NetFsm_ChooseWorker_def
        NetCtx_ChooseWorker_def NetPool_ChooseWorker_def NetWorkerFd_Init_def NetWorkerTask_Init_def
        NetQueueItem_Init_def live deref_def init_sock_def next_worker_def Let_def tk_updates evk_updates link_updates
        t e NetFsmEvent_new_def full_updates)
qed

section \<open>Actions on a socket\<close>

text \<open>A socket whose machine is set up and not stopping.\<close>

definition running :: "netsock \<Rightarrow> bool" where
  "running s \<longleftrightarrow> f_handlers (sk_fsm s) = SocketHandlers \<and> f_state (sk_fsm s) \<noteq> kNetFsmStateStopping"

lemma dispatch_sock:
  assumes "w_socks w i = Some s" and "f_handlers (sk_fsm s) = SocketHandlers"
  shows "dispatch E False (FSock i) src type p w = NetSocketHandler E (dispatch E) i src type p w"
  by (subst dispatch_fix) (simp add: handler_step_def live assms)

lemma Feed_sock [live]:
  "w_socks w i = Some s \<Longrightarrow> running s \<Longrightarrow>
   NetFsm_Feed (dispatch E) (FSock i) src type p w = NetSocketHandler E (dispatch E) i src type p w"
  by (simp add: NetFsm_Feed_def NetFsm_Handle_def running_def live dispatch_sock)

lemma Action_sock [live]:
  "w_socks w i = Some s \<Longrightarrow> running s \<Longrightarrow> type > 0 \<Longrightarrow>
   NetFsm_Action (dispatch E) (FSock i) type w = NetSocketHandler E (dispatch E) i kNetFsmAction type PNull w"
  by (simp add: NetFsm_Action_def Feed_sock)

lemma InternalTasks_action [live]: "NetSocket_InternalTasks i kNetFsmAction type w = Inr (False, w)"
  by (simp add: NetSocket_InternalTasks_def)

lemma InternalTasks_fd [live]: "NetSocket_InternalTasks i kNetSockSrcFd type w = Inr (False, w)"
  by (simp add: NetSocket_InternalTasks_def)

lemma IsIdle_live [live]:
  "w_socks w i = Some s \<Longrightarrow>
   NetFsm_IsIdle (FSock i) w = Inr (f_state (sk_fsm s) = kNetFsmStateIdle \<and> w_next w (EvItem (StoppedEv (FSock i))) = NOT_IN_QUEUE)"
  by (auto simp: NetFsm_IsIdle_def live NetFsmEvent_Active_def NetQueueItem_IsInQueue_def)

text \<open>The transitions that an action makes alone.\<close>

fun action_target :: "int \<Rightarrow> int \<Rightarrow> int option" where
  "action_target st type =
     (if st = kNetSockStateIdle \<and> type = kNetFsmStart then Some kNetSockStateStarting
      else if st = kNetSockStateStarting \<and> type = kNetSockActionListen then Some kNetSockStateListening
      else if st = kNetSockStateStarting \<and> type = kNetSockActionConnect then Some kNetSockStateConnecting
      else if st = kNetSockStateStarting \<and> type = kNetSockActionBeingAccepted then Some kNetSockStateBeingAccepted
      else if st = kNetSockStateListening \<and> type = kNetSockActionAccept then Some kNetSockStateAccepting
      else if st = kNetSockStateAcceptingError \<and> type = kNetSockActionAccept then Some kNetSockStateAccepting
      else if st = kNetSockStateAccepting \<and> type = kNetSockActionDone then Some kNetSockStateListening
      else None)"

lemma Handler_action [live]:
  assumes "w_socks w i = Some s" and "action_target (sk_state s) type = Some st"
  shows "NetSocketHandler E run i kNetFsmAction type p w = Inr (w\<lparr>w_socks := (w_socks w)(i \<mapsto> s\<lparr>sk_state := st\<rparr>)\<rparr>)"
  using assms(2)
  by (auto simp: NetSocketHandler_def live assms(1) from_idle_def case_idle_def from_starting_def case_starting_def
      from_listening_def case_listening_def from_accepting_def case_accepting_def from_accepting_error_def
      case_accepting_error_def split: if_splits)

lemma Start_sock [live]:
  assumes s: "w_socks w i = Some s" and r: "f_handlers (sk_fsm s) = SocketHandlers" "f_state (sk_fsm s) = kNetFsmStateIdle"
    "w_next w (EvItem (StoppedEv (FSock i))) = NOT_IN_QUEUE" and st: "sk_state s = kNetSockStateIdle"
  shows "NetFsm_Start (dispatch E) (FSock i) w =
     Inr (w\<lparr>w_socks := (w_socks w)(i \<mapsto> s\<lparr>sk_state := kNetSockStateStarting,
                                             sk_fsm := (sk_fsm s)\<lparr>f_state := kNetFsmStateActive\<rparr>\<rparr>)\<rparr>)"
  by (simp add: NetFsm_Start_def live s r st NetFsm_Handle_def dispatch_sock [OF s r(1)] set_fsm_state_def)

section \<open>Queues of the world\<close>

text \<open>A push appends a fresh item and ignores a linked one; the links of other queues stay.\<close>

definition appended :: "qitem links \<Rightarrow> qitem \<Rightarrow> qitem list \<Rightarrow> qitem list" where
  "appended nx x xs = (if nx x = NOT_IN_QUEUE then xs @ [x] else xs)"

definition pushed :: "qitem links \<Rightarrow> qitem netqueue \<Rightarrow> qitem list \<Rightarrow> qitem \<Rightarrow> qitem links \<Rightarrow> qitem netqueue \<Rightarrow> bool" where
  "pushed nx q xs x nx' q' \<longleftrightarrow> NetQueue_Push x q nx = Inr (q', nx') \<and> queue_rep nx' q' (appended nx x xs) \<and>
     linked nx' = insert x (linked nx) \<and> (\<forall>y. y \<notin> set xs \<longrightarrow> y \<noteq> x \<longrightarrow> nx' y = nx y)"

lemma pushed_ex: "queue_rep nx q xs \<Longrightarrow> \<exists>q' nx'. pushed nx q xs x nx' q'"
proof (cases "nx x = NOT_IN_QUEUE")
  case True
  assume "queue_rep nx q xs"
  from Push_fresh_frame [OF this, of x] True show ?thesis by (auto simp: pushed_def appended_def)
next
  case False
  assume "queue_rep nx q xs"
  with False have "pushed nx q xs x nx q" using Push_linked [of x nx q] by (auto simp: pushed_def appended_def)
  then show ?thesis by blast
qed

lemma push_on_law: "get w = Inr q \<Longrightarrow> pushed (w_next w) q xs x nx' q' \<Longrightarrow> push_on x get put w = put q' (w\<lparr>w_next := nx'\<rparr>)"
  by (simp add: push_on_def pushed_def)

lemma pushed_keeps:
  "pushed nx q xs x nx' q' \<Longrightarrow> queue_rep nx q2 ys \<Longrightarrow> set ys \<inter> insert x (set xs) = {} \<Longrightarrow> queue_rep nx' q2 ys"
  by (subst queue_rep_frame [where nx = nx]) (auto simp: pushed_def)

lemma pushed_rep: "pushed nx q xs x nx' q' \<Longrightarrow> queue_rep nx' q' (appended nx x xs)"
  by (simp add: pushed_def)

lemma pushed_linked: "pushed nx q xs x nx' q' \<Longrightarrow> nx' y = NOT_IN_QUEUE \<longleftrightarrow> y \<noteq> x \<and> nx y = NOT_IN_QUEUE"
  by (auto simp: pushed_def linked_def)

section \<open>A task for a worker\<close>

text \<open>The call that wakes worker \<open>k\<close> is accepted by the kernel.\<close>

definition can_signal :: "env \<Rightarrow> int \<Rightarrow> bool" where
  "can_signal E efd \<longleftrightarrow> (\<forall>tr. sr_ret (env_os E (Sys_write efd (le_bytes 8 1) # tr)) = 8)"

lemma Signal_law: "can_signal E efd \<Longrightarrow> 0 \<le> efd \<Longrightarrow> NetEventFd_Signal (env_os E) efd tr = Inr (Sys_write efd (le_bytes 8 1) # tr)"
  by (simp add: NetEventFd_Signal_def can_signal_def Let_def)

lemma Execute_law:
  assumes k: "k < length (w_workers w)" and q: "pushed (w_next w) (wk_tasks (w_workers w ! k)) xs (TaskItem i t) nx' q'"
    and efd: "can_signal E (wk_efd (w_workers w ! k))" "0 \<le> wk_efd (w_workers w ! k)"
  shows "NetWorker_Execute E k i t w =
     Inr (w\<lparr>w_next := nx', w_workers := (w_workers w)[k := (w_workers w ! k)\<lparr>wk_tasks := q'\<rparr>],
            w_trace := Sys_write (wk_efd (w_workers w ! k)) (le_bytes 8 1) # w_trace w\<rparr>)"
proof -
  have "get_tasks k w = Inr (wk_tasks (w_workers w ! k))" by (simp add: get_tasks_def live k)
  from push_on_law [where get = "get_tasks k", OF this q, of "put_tasks k"] show ?thesis
    by (simp add: NetWorker_Execute_def put_tasks_def signal_worker_def live k Signal_law efd)
qed

lemma execute_task_law:
  assumes "w_socks w i = Some s" and "sk_worker s < length (w_workers w)"
    and "pushed (w_next w) (wk_tasks (w_workers w ! sk_worker s)) xs (TaskItem i t) nx' q'"
    and "can_signal E (wk_efd (w_workers w ! sk_worker s))" and "0 \<le> wk_efd (w_workers w ! sk_worker s)"
  shows "execute_task E i t w =
     Inr (w\<lparr>w_next := nx', w_workers := (w_workers w)[sk_worker s := (w_workers w ! sk_worker s)\<lparr>wk_tasks := q'\<rparr>],
            w_trace := Sys_write (wk_efd (w_workers w ! sk_worker s)) (le_bytes 8 1) # w_trace w\<rparr>)"
  unfolding execute_task_def get_sock_live [OF assms(1)] andThen.simps by (rule Execute_law [OF assms(2-5)])

section \<open>Eventfds\<close>

text \<open>
  \<open>raised os f tr\<close>: since the eventfd \<open>f\<close> was last read (or closed) it has been signalled, so that its counter is
  not zero. \<open>open_eventfd E f tr\<close> is what the manual page says of an eventfd that is open after the calls of \<open>tr\<close>:
  as long as it is not closed, a read while the counter is not zero returns its eight bytes.
\<close>

fun raised :: "os \<Rightarrow> fd \<Rightarrow> trace \<Rightarrow> bool" where
  "raised os f [] \<longleftrightarrow> False"
| "raised os f (Sys_write g bs # tr) \<longleftrightarrow>
     g = f \<and> bs = le_bytes 8 1 \<and> sr_ret (os (Sys_write g bs # tr)) = 8 \<or> raised os f tr"
| "raised os f (Sys_read g n # tr) \<longleftrightarrow> g \<noteq> f \<and> raised os f tr"
| "raised os f (Sys_close g # tr) \<longleftrightarrow> g \<noteq> f \<and> raised os f tr"
| "raised os f (_ # tr) \<longleftrightarrow> raised os f tr"

definition open_eventfd :: "env \<Rightarrow> fd \<Rightarrow> trace \<Rightarrow> bool" where
  "open_eventfd E f tr \<longleftrightarrow>
     (\<forall>new. Sys_close f \<notin> set new \<longrightarrow> raised (env_os E) f (new @ tr) \<longrightarrow> sr_ret (env_os E (Sys_read f 8 # new @ tr)) = 8)"

lemma open_eventfdD:
  "open_eventfd E f tr \<Longrightarrow> Sys_close f \<notin> set new \<Longrightarrow> raised (env_os E) f (new @ tr) \<Longrightarrow> sr_ret (env_os E (Sys_read f 8 # new @ tr)) = 8"
  by (simp add: open_eventfd_def)

lemma open_eventfd_later: "open_eventfd E f tr \<Longrightarrow> Sys_close f \<notin> set new \<Longrightarrow> open_eventfd E f (new @ tr)"
  unfolding open_eventfd_def by (metis Un_iff append.assoc set_append)

lemma raised_signal: "can_signal E f \<Longrightarrow> raised (env_os E) f (Sys_write f (le_bytes 8 1) # tr)"
  by (simp add: can_signal_def)

section \<open>Starting a socket\<close>

definition sets_flags :: "env \<Rightarrow> bool" where
  "sets_flags E \<longleftrightarrow> (\<forall>tr f. sr_ret (env_os E (Sys_fcntl f F_SETFD FD_CLOEXEC # tr)) = 0)"

lemma InitFromFd_law:
  assumes s: "w_socks w i = Some s" and st: "sk_state s = kNetSockStateIdle \<or> sk_state s = kNetSockStateBeingAccepted"
    and fd: "sk_s s = - 1" and E: "sets_flags E"
  shows "\<exists>tr. NetSocket_InitFromFd E i fd w = Inr (w\<lparr>w_socks := (w_socks w)(i \<mapsto> s\<lparr>sk_s := fd\<rparr>), w_trace := tr\<rparr>)"
  using st E
  by (auto simp: NetSocket_InitFromFd_def live s fd sys_def sets_flags_def Let_def CHECK_def)

text \<open>The system calls of \<open>InitFromFd\<close> and of the whole start of a socket, newest first, with the descriptor the kernel returns.\<close>

definition init_calls :: "env \<Rightarrow> int \<Rightarrow> trace \<Rightarrow> trace" where
  "init_calls E fd tr =
     (let ask = [Sys_fcntl fd F_GETFL 0, Sys_fcntl fd F_SETFD FD_CLOEXEC]; r = sr_ret (env_os E (ask @ tr));
          flags = (if r = - 1 then 0 else r)
      in (if and flags O_NONBLOCK = 0 then [Sys_fcntl fd F_SETFL (or flags O_NONBLOCK)] else []) @ ask)"

lemma InitFromFd_trace:
  "NetSocket_InitFromFd E i fd w = Inr w' \<Longrightarrow> w_trace w' = init_calls E fd (w_trace w) @ w_trace w"
  by (auto simp: NetSocket_InitFromFd_def andThen_eq_Inr_iff get_sock_def upd_sock_def sys_def init_calls_def CHECK_def Let_def
      split: option.splits if_splits)

abbreviation (input) socket_call :: syscall where
  "socket_call \<equiv> Sys_socket AF_INET (or SOCK_STREAM SOCK_CLOEXEC) 0"

definition socket_fd :: "env \<Rightarrow> trace \<Rightarrow> int" where
  "socket_fd E tr = sr_ret (env_os E (socket_call # tr))"

definition socket_calls :: "env \<Rightarrow> trace \<Rightarrow> trace" where
  "socket_calls E tr = init_calls E (socket_fd E tr) (socket_call # tr) @ [socket_call]"

lemma socket_calls_open: "Sys_close f \<notin> set (socket_calls E tr)"
  by (auto simp: socket_calls_def init_calls_def Let_def)

section \<open>The task queues of all workers\<close>

text \<open>\<open>tasks_are w T\<close>: the queue of worker \<open>k\<close> holds \<open>T k\<close>; only tasks are in it, each in one queue.\<close>

fun is_task :: "qitem \<Rightarrow> bool" where
  "is_task (TaskItem i t) = True"
| "is_task (StopItem k) = True"
| "is_task _ = False"

definition tasks_are :: "world \<Rightarrow> (nat \<Rightarrow> qitem list) \<Rightarrow> bool" where
  "tasks_are w T \<longleftrightarrow>
     (\<forall>k < length (w_workers w). queue_rep (w_next w) (wk_tasks (w_workers w ! k)) (T k)) \<and>
     (\<forall>j k. j \<noteq> k \<longrightarrow> set (T j) \<inter> set (T k) = {}) \<and> (\<forall>k. \<forall>x \<in> set (T k). is_task x) \<and>
     (\<forall>k. length (w_workers w) \<le> k \<longrightarrow> T k = [])"

definition grants :: "env \<Rightarrow> bool" where
  "grants E \<longleftrightarrow> (\<forall>efd. can_signal E efd) \<and> sets_flags E"

text \<open>
  A step that touches nothing but task queues and the links of tasks, and makes no system
  calls but those that wake workers.
\<close>

definition wakes :: "fd list \<Rightarrow> trace" where
  "wakes fs = map (\<lambda>f. Sys_write f (le_bytes 8 1)) fs"

definition only_tasks :: "world \<Rightarrow> world \<Rightarrow> bool" where
  "only_tasks w w' \<longleftrightarrow>
     (\<exists>nx ts fs. w' = w\<lparr>w_next := nx, w_workers := map2 (\<lambda>wk q. wk\<lparr>wk_tasks := q\<rparr>) (w_workers w) ts,
                        w_trace := wakes fs @ w_trace w\<rparr> \<and>
        length ts = length (w_workers w) \<and> (\<forall>x. \<not> is_task x \<longrightarrow> nx x = w_next w x))"

lemma only_tasks_simps:
  assumes "only_tasks w w'"
  shows "w_socks w' = w_socks w" "w_nsocks w' = w_nsocks w" "w_dev w' = w_dev w" "w_cur_worker w' = w_cur_worker w"
    "w_mem w' = w_mem w" "w_log w' = w_log w" "w_wraps w' = w_wraps w" "w_nwraps w' = w_nwraps w"
    "length (w_workers w') = length (w_workers w)" "\<not> is_task x \<Longrightarrow> w_next w' x = w_next w x"
    "k < length (w_workers w) \<Longrightarrow> wk_poller (w_workers w' ! k) = wk_poller (w_workers w ! k)"
    "k < length (w_workers w) \<Longrightarrow> wk_efd (w_workers w' ! k) = wk_efd (w_workers w ! k)"
  using assms by (auto simp: only_tasks_def)

lemma wakes_trace [simp]:
  "interest ep (wakes fs @ tr) f = interest ep tr f" "consumed os f (wakes fs @ tr) = consumed os f tr"
  by (induction fs) (simp_all add: wakes_def)

lemma only_tasks_trace:
  "only_tasks w w' \<Longrightarrow> interest ep (w_trace w') f = interest ep (w_trace w) f"
  "only_tasks w w' \<Longrightarrow> consumed os f (w_trace w') = consumed os f (w_trace w)"
  by (auto simp: only_tasks_def)

lemma update_as_map2:
  "k < length ws \<Longrightarrow> ws[k := (ws ! k)\<lparr>wk_tasks := q\<rparr>] = map2 (\<lambda>wk q. wk\<lparr>wk_tasks := q\<rparr>) ws ((map wk_tasks ws)[k := q])"
  by (rule nth_equalityI) (auto simp: nth_list_update)

lemma tasks_linked: "tasks_are w T \<Longrightarrow> x \<in> set (T j) \<Longrightarrow> w_next w x \<noteq> NOT_IN_QUEUE"
proof (cases "j < length (w_workers w)")
  case True
  assume "tasks_are w T" "x \<in> set (T j)"
  with True queue_rep_linked [of "w_next w" "wk_tasks (w_workers w ! j)" "T j"] show ?thesis
    by (auto simp: tasks_are_def)
qed (simp add: tasks_are_def)

lemma tasks_append:
  assumes k: "k < length (w_workers w)" and T: "tasks_are w T" and x: "is_task x"
    and p: "pushed (w_next w) (wk_tasks (w_workers w ! k)) (T k) x nx' q'"
    and w': "w_next w' = nx'" "w_workers w' = (w_workers w)[k := (w_workers w ! k)\<lparr>wk_tasks := q'\<rparr>]"
  shows "tasks_are w' (T(k := appended (w_next w) x (T k)))"
  unfolding tasks_are_def
proof (intro conjI allI impI ballI)
  fix j
  assume j: "j < length (w_workers w')"
  show "queue_rep (w_next w') (wk_tasks (w_workers w' ! j)) ((T(k := appended (w_next w) x (T k))) j)"
  proof (cases "j = k")
    case True
    with p k show ?thesis by (simp add: pushed_def w')
  next
    case False
    with T j have r: "queue_rep (w_next w) (wk_tasks (w_workers w ! j)) (T j)" by (simp add: tasks_are_def w')
    have nx: "nx' y = w_next w y" if "y \<in> set (T j)" for y
    proof (cases "y = x")
      case True
      with tasks_linked [OF T that] p show ?thesis by (simp add: pushed_def NetQueue_Push_def)
    next
      case neq: False
      from T False that have "y \<notin> set (T k)" unfolding tasks_are_def by blast
      with p neq show ?thesis by (simp add: pushed_def)
    qed
    with r False show ?thesis using queue_rep_frame [of "T j" nx' "w_next w"] by (simp add: w')
  qed
next
  fix j l :: nat
  assume "j \<noteq> l"
  with T have d: "set (T j) \<inter> set (T l) = {}" by (simp add: tasks_are_def)
  have new: "w_next w x = NOT_IN_QUEUE \<Longrightarrow> x \<notin> set (T j)" for j
    using tasks_linked [OF T] by blast
  with d \<open>j \<noteq> l\<close> show "set ((T(k := appended (w_next w) x (T k))) j) \<inter> set ((T(k := appended (w_next w) x (T k))) l) = {}"
    by (auto simp: appended_def)
next
  fix j y
  assume "y \<in> set ((T(k := appended (w_next w) x (T k))) j)"
  with T x show "is_task y" by (auto simp: tasks_are_def appended_def split: if_splits)
next
  fix j
  assume "length (w_workers w') \<le> j"
  with T k show "(T(k := appended (w_next w) x (T k))) j = []" by (auto simp: tasks_are_def w')
qed

lemma Execute_tasks:
  assumes k: "k < length (w_workers w)" and T: "tasks_are w T" and E: "grants E"
  shows "\<exists>w'. NetWorker_Execute E k i t w = Inr w' \<and>
     tasks_are w' (T(k := appended (w_next w) (TaskItem i t) (T k))) \<and> only_tasks w w' \<and>
     (\<forall>y. w_next w' y = NOT_IN_QUEUE \<longleftrightarrow> y \<noteq> TaskItem i t \<and> w_next w y = NOT_IN_QUEUE)"
proof -
  let ?x = "TaskItem i t" and ?q = "wk_tasks (w_workers w ! k)" and ?efd = "wk_efd (w_workers w ! k)"
  from T k have rep: "queue_rep (w_next w) ?q (T k)" by (simp add: tasks_are_def)
  from pushed_ex [OF rep, of ?x] obtain q' nx' where p: "pushed (w_next w) ?q (T k) ?x nx' q'" by blast
  let ?w = "w\<lparr>w_next := nx', w_workers := (w_workers w)[k := (w_workers w ! k)\<lparr>wk_tasks := q'\<rparr>]\<rparr>"
  have gt: "get_tasks k w = Inr ?q" by (simp add: get_tasks_def live k)
  have "NetEventFd_Signal (env_os E) ?efd (w_trace w) = Inr (wakes (if ?efd < 0 then [] else [?efd]) @ w_trace w)"
    using E by (simp add: NetEventFd_Signal_def grants_def can_signal_def wakes_def Let_def)
  then obtain tr fs where "NetWorker_Execute E k i t w = Inr (?w\<lparr>w_trace := tr\<rparr>)" and tr: "tr = wakes fs @ w_trace w"
    using push_on_law [where get = "get_tasks k" and put = "put_tasks k", OF gt p]
    by (auto simp: NetWorker_Execute_def put_tasks_def signal_worker_def live k)
  moreover have "tasks_are (?w\<lparr>w_trace := tr\<rparr>) (T(k := appended (w_next w) ?x (T k)))"
    by (rule tasks_append [OF k T _ p]) simp_all
  moreover have "only_tasks w (?w\<lparr>w_trace := tr\<rparr>)"
  proof -
    have "nx' y = w_next w y" if "\<not> is_task y" for y
    proof -
      from that T have "y \<notin> set (T k)" unfolding tasks_are_def by blast
      moreover from that have "y \<noteq> ?x" by auto
      ultimately show ?thesis using p by (simp add: pushed_def)
    qed
    then show ?thesis
      unfolding only_tasks_def
      by (intro exI [of _ nx'] exI [of _ "(map wk_tasks (w_workers w))[k := q']"] exI [of _ fs])
        (simp add: update_as_map2 [OF k] tr)
  qed
  ultimately show ?thesis using pushed_linked [OF p]
    by (intro exI [of _ "?w\<lparr>w_trace := tr\<rparr>"]) simp
qed

lemma only_tasks_trans: "only_tasks u v \<Longrightarrow> only_tasks v w \<Longrightarrow> only_tasks u w"
proof -
  assume "only_tasks u v" "only_tasks v w"
  then obtain nx ts fs nx' ts' fs' where
    v: "v = u\<lparr>w_next := nx, w_workers := map2 (\<lambda>wk q. wk\<lparr>wk_tasks := q\<rparr>) (w_workers u) ts, w_trace := wakes fs @ w_trace u\<rparr>"
      "length ts = length (w_workers u)" "\<And>x. \<not> is_task x \<Longrightarrow> nx x = w_next u x" and
    w: "w = v\<lparr>w_next := nx', w_workers := map2 (\<lambda>wk q. wk\<lparr>wk_tasks := q\<rparr>) (w_workers v) ts', w_trace := wakes fs' @ w_trace v\<rparr>"
      "length ts' = length (w_workers v)" "\<And>x. \<not> is_task x \<Longrightarrow> nx' x = w_next v x"
    unfolding only_tasks_def by blast
  have "map2 (\<lambda>wk q. wk\<lparr>wk_tasks := q\<rparr>) (map2 (\<lambda>wk q. wk\<lparr>wk_tasks := q\<rparr>) (w_workers u) ts) ts' =
        map2 (\<lambda>wk q. wk\<lparr>wk_tasks := q\<rparr>) (w_workers u) ts'"
    using v w by (auto intro!: nth_equalityI)
  with v w show ?thesis unfolding only_tasks_def
    by (intro exI [of _ nx'] exI [of _ ts'] exI [of _ "fs' @ fs"]) (simp add: wakes_def)
qed

lemma execute_task_tasks:
  assumes "w_socks w i = Some s" and "sk_worker s < length (w_workers w)" and "tasks_are w T" and "grants E"
  shows "\<exists>w'. execute_task E i t w = Inr w' \<and>
     tasks_are w' (T(sk_worker s := appended (w_next w) (TaskItem i t) (T (sk_worker s)))) \<and> only_tasks w w' \<and>
     (\<forall>y. w_next w' y = NOT_IN_QUEUE \<longleftrightarrow> y \<noteq> TaskItem i t \<and> w_next w y = NOT_IN_QUEUE)"
  unfolding execute_task_def get_sock_live [OF assms(1)] andThen.simps by (rule Execute_tasks [OF assms(2-4)])

text \<open>The one system call by which a task is announced.\<close>

definition woken :: "world \<Rightarrow> nat \<Rightarrow> trace" where
  "woken w k = (let f = wk_efd (w_workers w ! k) in if f < 0 then [] else [Sys_write f (le_bytes 8 1)])"

lemma Execute_trace:
  "NetWorker_Execute E k i t w = Inr w' \<Longrightarrow> w_trace w' = woken w k @ w_trace w"
  by (auto simp: NetWorker_Execute_def push_on_def put_tasks_def upd_worker_def get_worker_def signal_worker_def NetEventFd_Signal_def
      woken_def andThen_eq_Inr_iff CHECK_def Let_def split: if_splits)

lemma execute_task_trace:
  "execute_task E i t w = Inr w' \<Longrightarrow> w_socks w i = Some s \<Longrightarrow> w_trace w' = woken w (sk_worker s) @ w_trace w"
  by (auto simp: execute_task_def get_sock_live dest: Execute_trace)

lemma AsyncSendMsg_trace:
  "NetSocket_AsyncSendMsg E i m w = Inr w' \<Longrightarrow> w_socks w i = Some s \<Longrightarrow> w_trace w' = woken w (sk_worker s) @ w_trace w"
  by (auto simp: NetSocket_AsyncSendMsg_def push_on_def put_msgq_def upd_sock_def get_sock_def andThen_eq_Inr_iff woken_def Let_def
      dest!: execute_task_trace)

end
