(* ===== verification/Netflows.thy ===== *)
theory Netflows
  imports Netlaws
begin

unbundle bit_operations_syntax

text \<open>
  What happens from an event of a socket to its effect on the device: the state machine's
  step, the event it raises, the critical section that hands the event to the device and
  the device's answer, for the flows the library is made of (accepting, connecting,
  receiving, sending, stopping, failing).
\<close>

section \<open>Descriptors of a socket\<close>

abbreviation (input) handle_of :: "netsock \<Rightarrow> phandle" where
  "handle_of s \<equiv> wf_handle (sk_wfd s)"

abbreviation (input) poller_of :: "netsock \<Rightarrow> world \<Rightarrow> npoller" where
  "poller_of s w \<equiv> wk_poller (w_workers w ! sk_worker s)"

text \<open>The state after a poller operation on the handle of socket \<open>i\<close>.\<close>

definition polled :: "nat \<Rightarrow> netsock \<Rightarrow> npoller \<Rightarrow> phandle \<Rightarrow> trace \<Rightarrow> world \<Rightarrow> world" where
  "polled i s p h tr w =
     w\<lparr>w_trace := tr, w_workers := (w_workers w)[sk_worker s := (w_workers w ! sk_worker s)\<lparr>wk_poller := p\<rparr>],
       w_socks := (w_socks w)(i \<mapsto> s\<lparr>sk_wfd := (sk_wfd s)\<lparr>wf_handle := h\<rparr>\<rparr>)\<rparr>"

lemma same_worker: "ws[k := (ws ! k)\<lparr>wk_poller := wk_poller (ws ! k)\<rparr>] = ws"
  by (cases "k < length ws") (simp_all add: list_update_same_conv)

lemma AddFd_live:
  "w_socks w i = Some s \<Longrightarrow> sk_worker s < length (w_workers w) \<Longrightarrow>
   NetPoller_Add (poller_of s w) (sk_s s) (HSock i) (handle_of s) (w_trace w) = (h, tr) \<Longrightarrow>
   sock_AddFd i w = Inr (polled i s (poller_of s w) h tr w)"
  by (simp add: sock_AddFd_def NetWorker_AddFd_def with_poller_def live polled_def same_worker)

lemma SetIn_live:
  "w_socks w i = Some s \<Longrightarrow> sk_worker s < length (w_workers w) \<Longrightarrow>
   NetPoller_SetIn (poller_of s w) (HSock i) (handle_of s) (w_trace w) = (h, tr) \<Longrightarrow>
   sock_SetIn i w = Inr (polled i s (poller_of s w) h tr w)"
  by (simp add: sock_SetIn_def NetWorker_SetIn_def with_poller_def live polled_def same_worker)

lemma SetOut_live:
  "w_socks w i = Some s \<Longrightarrow> sk_worker s < length (w_workers w) \<Longrightarrow>
   NetPoller_SetOut (poller_of s w) (HSock i) (handle_of s) (w_trace w) = (h, tr) \<Longrightarrow>
   sock_SetOut i w = Inr (polled i s (poller_of s w) h tr w)"
  by (simp add: sock_SetOut_def NetWorker_SetOut_def with_poller_def live polled_def same_worker)

lemma ResetOut_live:
  "w_socks w i = Some s \<Longrightarrow> sk_worker s < length (w_workers w) \<Longrightarrow>
   NetPoller_ResetOut (poller_of s w) (HSock i) (handle_of s) (w_trace w) = Inr (p, h, tr) \<Longrightarrow>
   sock_ResetOut i w = Inr (polled i s p h tr w)"
  by (simp add: sock_ResetOut_def NetWorker_ResetOut_def with_poller_def live polled_def put_poller_def)

lemma RmFd_live:
  "w_socks w i = Some s \<Longrightarrow> sk_worker s < length (w_workers w) \<Longrightarrow>
   NetPoller_Rm (poller_of s w) (HSock i) (handle_of s) (w_trace w) = Inr (p, tr) \<Longrightarrow>
   sock_RmFd i w = Inr (polled i s p (handle_of s) tr w)"
  by (cases s) (simp add: sock_RmFd_def NetWorker_RmFd_def with_poller_def live polled_def put_poller_def fun_upd_idem)

lemma ResetOut_law:
  "poller_ok p \<Longrightarrow> \<exists>p' h' tr'. NetPoller_ResetOut p hp h tr = Inr (p', h', tr') \<and> poller_ok p' \<and>
     h_fd h' = h_fd h \<and> h_events h' = (if h_events h AND EPOLLOUT \<noteq> 0 then h_events h AND NOT EPOLLOUT else h_events h)"
  using poller_ok_invalidated [of p] by (auto simp: NetPoller_ResetOut_def Let_def invalidate_ne_ok)

text \<open>Updates of different fields commute; this orders them.\<close>

lemma world_order:
  "w\<lparr>w_trace := t, w_workers := ws\<rparr> = w\<lparr>w_workers := ws, w_trace := t\<rparr>"
  "w\<lparr>w_socks := m, w_trace := t\<rparr> = w\<lparr>w_trace := t, w_socks := m\<rparr>"
  "w\<lparr>w_socks := m, w_workers := ws\<rparr> = w\<lparr>w_workers := ws, w_socks := m\<rparr>"
  by simp_all

text \<open>What an operation on one descriptor leaves alone.\<close>

lemma polled_simps [simp]:
  "w_nsocks (polled i s p h tr w) = w_nsocks w" "w_dev (polled i s p h tr w) = w_dev w"
  "w_next (polled i s p h tr w) = w_next w" "w_cur_worker (polled i s p h tr w) = w_cur_worker w"
  "w_mem (polled i s p h tr w) = w_mem w" "w_log (polled i s p h tr w) = w_log w"
  "w_wraps (polled i s p h tr w) = w_wraps w" "w_trace (polled i s p h tr w) = tr"
  "length (w_workers (polled i s p h tr w)) = length (w_workers w)"
  "w_socks (polled i s p h tr w) = (w_socks w)(i \<mapsto> s\<lparr>sk_wfd := (sk_wfd s)\<lparr>wf_handle := h\<rparr>\<rparr>)"
  by (simp_all add: polled_def)

lemma wk_tasks_list_update:
  "k < length ws \<Longrightarrow> wk_tasks (ws[j := (ws ! j)\<lparr>wk_poller := p\<rparr>] ! k) = wk_tasks (ws ! k)"
  by (cases "j = k") simp_all

lemma polled_tasks: "tasks_are (polled i s p h tr w) T = tasks_are w T"
  by (auto simp: tasks_are_def polled_def wk_tasks_list_update)

lemma tasks_are_frame:
  assumes "tasks_are w T" and "w_workers w' = w_workers w" and "\<And>k x. x \<in> set (T k) \<Longrightarrow> w_next w' x = w_next w x"
  shows "tasks_are w' T"
  using assms queue_rep_frame [of _ "w_next w'" "w_next w"] unfolding tasks_are_def by (metis (no_types, lifting))

definition pollers_ok :: "world \<Rightarrow> bool" where
  "pollers_ok w \<longleftrightarrow> (\<forall>k < length (w_workers w). poller_ok (wk_poller (w_workers w ! k)))"

lemma tasks_are_updates [simp]:
  "tasks_are (w\<lparr>w_socks := m\<rparr>) T = tasks_are w T" "tasks_are (w\<lparr>w_trace := tr\<rparr>) T = tasks_are w T"
  "tasks_are (w\<lparr>w_dev := d\<rparr>) T = tasks_are w T" "tasks_are (w\<lparr>w_mem := mem\<rparr>) T = tasks_are w T"
  "tasks_are (w\<lparr>w_log := l\<rparr>) T = tasks_are w T"
  by (simp_all add: tasks_are_def)

lemma pollers_ok_updates [simp]:
  "pollers_ok (w\<lparr>w_socks := m\<rparr>) = pollers_ok w" "pollers_ok (w\<lparr>w_trace := tr\<rparr>) = pollers_ok w"
  "pollers_ok (w\<lparr>w_dev := d\<rparr>) = pollers_ok w" "pollers_ok (w\<lparr>w_next := nx\<rparr>) = pollers_ok w"
  "pollers_ok (w\<lparr>w_log := l\<rparr>) = pollers_ok w" "pollers_ok (w\<lparr>w_mem := mem\<rparr>) = pollers_ok w"
  by (simp_all add: pollers_ok_def)

lemma pollers_ok_polled: "pollers_ok w \<Longrightarrow> poller_ok p \<Longrightarrow> pollers_ok (polled i s p h tr w)"
  unfolding pollers_ok_def
proof (intro allI impI)
  fix k
  assume "\<forall>k<length (w_workers w). poller_ok (wk_poller (w_workers w ! k))" "poller_ok p"
    "k < length (w_workers (polled i s p h tr w))"
  then show "poller_ok (wk_poller (w_workers (polled i s p h tr w) ! k))"
    by (cases "sk_worker s = k") (simp_all add: polled_def)
qed

lemma only_tasks_pollers: "only_tasks w w' \<Longrightarrow> pollers_ok w' = pollers_ok w"
  by (simp add: pollers_ok_def only_tasks_simps)

section \<open>Raising an event and answering it\<close>

text \<open>A socket as \<open>NetSocket::Init\<close> set it up, in a device that is up.\<close>

definition attached :: "nat \<Rightarrow> netsock \<Rightarrow> bool" where
  "attached i s \<longleftrightarrow> running s \<and> f_owner (sk_fsm s) = Some FDevice \<and> f_ctx (sk_fsm s) = Some i \<and>
     f_src (sk_fsm s) = kNetDeviceSrcSocketEvent"

lemma attached_updates [simp]:
  "running (sk_event_update f s) = running s" "attached i (sk_event_update f s) = attached i s"
  "running (sk_ctx_update c s) = running s" "attached i (sk_ctx_update c s) = attached i s"
  "running (sk_wfd_update h s) = running s" "attached i (sk_wfd_update h s) = attached i s"
  "running (sk_state_update g s) = running s" "attached i (sk_state_update g s) = attached i s"
  "running (sk_asock_update p s) = running s" "attached i (sk_asock_update p s) = attached i s"
  "running (sk_s_update e s) = running s" "attached i (sk_s_update e s) = attached i s"
  "running (sk_msgq_update q s) = running s" "attached i (sk_msgq_update q s) = attached i s"
  "running (sk_errnum_update n s) = running s" "attached i (sk_errnum_update n s) = attached i s"
  "running (sk_busy_update b s) = running s" "attached i (sk_busy_update b s) = attached i s"
  by (simp_all add: running_def attached_def)

definition device_up :: "world \<Rightarrow> bool" where
  "device_up w \<longleftrightarrow> f_handlers (dv_fsm (w_dev w)) = DeviceHandlers \<and> f_state (dv_fsm (w_dev w)) \<noteq> kNetFsmStateStopping"

lemma device_up_updates [simp]:
  "device_up (w\<lparr>w_socks := m\<rparr>) = device_up w" "device_up (w\<lparr>w_trace := tr\<rparr>) = device_up w"
  "device_up (w\<lparr>w_next := nx\<rparr>) = device_up w" "device_up (w\<lparr>w_workers := ws\<rparr>) = device_up w"
  "device_up (w\<lparr>w_log := l\<rparr>) = device_up w" "device_up (w\<lparr>w_mem := mem\<rparr>) = device_up w"
  by (simp_all add: device_up_def)

definition quiet_event :: "nat \<Rightarrow> netevent" where
  "quiet_event i = \<lparr>e_fsm = Some (FSock i), e_src = - 1, e_srcptr = PNull, e_type = - 1\<rparr>"

lemma dispatch_device:
  "f_handlers (dv_fsm (w_dev w)) = DeviceHandlers \<Longrightarrow>
   dispatch E False FDevice src type p w = NetDeviceFsmHandler E (dispatch E) src type p w"
  by (subst dispatch_fix) (simp add: handler_step_def live)

lemma Feed_device [live]:
  "device_up w \<Longrightarrow> NetFsm_Feed (dispatch E) FDevice src type p w = NetDeviceFsmHandler E (dispatch E) src type p w"
  by (simp add: NetFsm_Feed_def NetFsm_Handle_def device_up_def live dispatch_device)

lemma Process_law:
  assumes s: "w_socks w i = Some s" and a: "attached i s" and d: "device_up w" and e: "e_fsm (sk_event s k) = Some (FSock i)"
  shows "NetFsmEvent_Process (dispatch E) (SockEv i k) w =
     NetDeviceFsmHandler E (dispatch E) (e_src (sk_event s k)) (e_type (sk_event s k)) (e_srcptr (sk_event s k))
       (w\<lparr>w_socks := (w_socks w)(i \<mapsto> s\<lparr>sk_event := (sk_event s)(k := quiet_event i)\<rparr>)\<rparr>)"
proof -
  have "(sk_event s k)\<lparr>e_src := - 1, e_type := - 1, e_srcptr := PNull\<rparr> = quiet_event i"
    using e by (cases "sk_event s k") (simp add: quiet_event_def)
  moreover have "device_up (w\<lparr>w_socks := m\<rparr>)" for m using d by (simp add: device_up_def)
  ultimately show ?thesis using a
    by (simp add: NetFsmEvent_Process_def live s e deref_def attached_def)
qed

lemma same_updates:
  "cx_events x = q \<Longrightarrow> x\<lparr>cx_events := q\<rparr> = x" "cx_eventsto x = q \<Longrightarrow> x\<lparr>cx_eventsto := q\<rparr> = x"
  "\<not> cx_locked x \<Longrightarrow> x\<lparr>cx_locked := False\<rparr> = x" "s\<lparr>sk_ctx := sk_ctx s\<rparr> = s"
  by (cases x, simp)+

lemma pop_events_live:
  "w_socks w i = Some s \<Longrightarrow> NetQueue_Pop (cx_events (sk_ctx s)) (w_next w) = Inr (x, q, nx) \<Longrightarrow>
   pop_from (get_events i) (put_events i) w =
     Inr (x, w\<lparr>w_next := nx, w_socks := (w_socks w)(i \<mapsto> s\<lparr>sk_ctx := (sk_ctx s)\<lparr>cx_events := q\<rparr>\<rparr>)\<rparr>)"
  by (simp add: pop_from_def live)

text \<open>Raising an event on an empty queue.\<close>

definition event_for :: "nat \<Rightarrow> anyptr \<Rightarrow> int \<Rightarrow> netevent" where
  "event_for i p type = \<lparr>e_fsm = Some (FSock i), e_src = kNetDeviceSrcSocketEvent, e_srcptr = p, e_type = type\<rparr>"

definition with_event :: "nat \<Rightarrow> evk \<Rightarrow> anyptr \<Rightarrow> int \<Rightarrow> netsock \<Rightarrow> netsock" where
  "with_event i k p type s =
     (let x = EvItem (SockEv i k) in
      s\<lparr>sk_event := (sk_event s)(k := event_for i p type), sk_ctx := (sk_ctx s)\<lparr>cx_events := \<lparr>q_head = At x, q_tail = At x\<rparr>\<rparr>\<rparr>)"

lemma raise_pending:
  assumes s: "w_socks w i = Some s" and a: "attached i s" and q: "cx_events (sk_ctx s) = NetQueue_Init"
    and free: "w_next w (EvItem (SockEv i k)) = NOT_IN_QUEUE" and p: "p \<noteq> PNull"
  shows "raise_sock i k type p w =
     Inr (w\<lparr>w_next := (w_next w)(EvItem (SockEv i k) := NULL), w_socks := (w_socks w)(i \<mapsto> with_event i k p type s)\<rparr>)"
proof -
  have full: "x\<lparr>e_fsm := Some (FSock i), e_src := 2, e_srcptr := p, e_type := type\<rparr> = event_for i p type" for x :: netevent
    by (cases x) (simp add: event_for_def)
  show ?thesis
    using a p free q by (simp add: raise_sock_def NetFsm_Raise_def live s attached_def full deref_def NetCtx_Raise_def push_on_def
      NetQueue_Push_def NetQueue_Init_def with_event_def Let_def)
qed

text \<open>An event raised on an empty queue: the next thing the critical section does is the device's answer to it.\<close>

lemma raise_then_process:
  assumes s: "w_socks w i = Some s" and a: "attached i s" and d: "device_up w"
    and q: "cx_events (sk_ctx s) = NetQueue_Init" and free: "w_next w (EvItem (SockEv i k)) = NOT_IN_QUEUE" and p: "p \<noteq> PNull"
  shows "\<exists>w1. raise_sock i k type p w = Inr w1 \<and>
     process_events E (Suc n) i w1 =
       andThen (NetDeviceFsmHandler E (dispatch E) kNetDeviceSrcSocketEvent type p
           (w\<lparr>w_socks := (w_socks w)(i \<mapsto> s\<lparr>sk_event := (sk_event s)(k := quiet_event i)\<rparr>)\<rparr>))
         (process_events E n i)"
proof -
  let ?x = "EvItem (SockEv i k)"
  let ?e = "\<lparr>e_fsm = Some (FSock i), e_src = kNetDeviceSrcSocketEvent, e_srcptr = p, e_type = type\<rparr>"
  let ?s = "s\<lparr>sk_event := (sk_event s)(k := ?e), sk_ctx := (sk_ctx s)\<lparr>cx_events := \<lparr>q_head = At ?x, q_tail = At ?x\<rparr>\<rparr>\<rparr>"
  let ?w1 = "w\<lparr>w_next := (w_next w)(?x := NULL), w_socks := (w_socks w)(i \<mapsto> ?s)\<rparr>"
  let ?s2 = "s\<lparr>sk_event := (sk_event s)(k := ?e)\<rparr>"
  let ?w2 = "w\<lparr>w_socks := (w_socks w)(i \<mapsto> ?s2)\<rparr>"
  have r: "raise_sock i k type p w = Inr ?w1"
    using raise_pending [OF s a q free p] by (simp add: with_event_def event_for_def Let_def)
  have "NetQueue_Pop (cx_events (sk_ctx ?s)) (w_next ?w1) = Inr (Some ?x, NetQueue_Init, w_next w)"
    using free by (simp add: NetQueue_Pop_def NetQueue_Init_def fun_upd_idem)
  moreover have "?s\<lparr>sk_ctx := (sk_ctx ?s)\<lparr>cx_events := NetQueue_Init\<rparr>\<rparr> = ?s2"
    by (simp add: same_updates(1) [OF q])
  ultimately have pop: "pop_from (get_events i) (put_events i) ?w1 = Inr (Some ?x, ?w2)"
    using pop_events_live [of ?w1 i ?s "Some ?x" NetQueue_Init "w_next w"] by simp
  have "NetFsmEvent_Process (dispatch E) (SockEv i k) ?w2 =
      NetDeviceFsmHandler E (dispatch E) kNetDeviceSrcSocketEvent type p
       (?w2\<lparr>w_socks := (w_socks ?w2)(i \<mapsto> ?s2\<lparr>sk_event := (sk_event ?s2)(k := quiet_event i)\<rparr>)\<rparr>)"
    using a d Process_law [of ?w2 i ?s2 k E] by (simp add: attached_def device_up_def running_def)
  then show ?thesis using r pop by (simp add: process_events.simps)
qed

section \<open>Critical sections\<close>

text \<open>A socket between two critical sections.\<close>

definition at_rest :: "nat \<Rightarrow> netsock \<Rightarrow> world \<Rightarrow> bool" where
  "at_rest i s w \<longleftrightarrow>
     w_socks w i = Some s \<and> attached i s \<and> sk_worker s < length (w_workers w) \<and>
     wf_owner (sk_wfd s) = Some (FSock i) \<and> wf_src (sk_wfd s) = kNetSockSrcFd \<and>
     (\<forall>t. sk_task s t = \<lparr>t_src = task_src t, t_owner = Some (FSock i)\<rparr>) \<and>
     cx_events (sk_ctx s) = NetQueue_Init \<and> cx_eventsto (sk_ctx s) = NetQueue_Init \<and> \<not> cx_locked (sk_ctx s) \<and>
     (\<forall>k. w_next w (EvItem (SockEv i k)) = NOT_IN_QUEUE)"

definition locked :: "netsock \<Rightarrow> netsock" where
  "locked s = s\<lparr>sk_ctx := (sk_ctx s)\<lparr>cx_locked := True\<rparr>\<rparr>"

lemma locked_simps [simp]:
  "sk_s (locked s) = sk_s s" "sk_fsm (locked s) = sk_fsm s" "sk_state (locked s) = sk_state s" "sk_worker (locked s) = sk_worker s"
  "sk_wfd (locked s) = sk_wfd s" "sk_task (locked s) = sk_task s" "sk_event (locked s) = sk_event s" "sk_asock (locked s) = sk_asock s"
  "sk_msgq (locked s) = sk_msgq s" "cx_events (sk_ctx (locked s)) = cx_events (sk_ctx s)" "sk_busy (locked s) = sk_busy s"
  "cx_eventsto (sk_ctx (locked s)) = cx_eventsto (sk_ctx s)" "attached i (locked s) = attached i s" "running (locked s) = running s"
  by (simp_all add: locked_def attached_def running_def)

lemma lock_at_rest: "at_rest i s w \<Longrightarrow> lock_ctx i w = Inr (w\<lparr>w_socks := (w_socks w)(i \<mapsto> locked s)\<rparr>)"
  by (simp add: at_rest_def live locked_def)

lemma run_fd_section:
  "at_rest i s w \<Longrightarrow> run_fd E n i pevent w =
     NetCtx_ExecuteCriticalSection E n i (NetFsm_Feed (dispatch E) (FSock i) kNetSockSrcFd pevent (PWfd i)) w"
  by (simp add: run_fd_def at_rest_def attached_def live)

lemma run_task_section:
  "at_rest i s w \<Longrightarrow> run_task E n i t w =
     NetCtx_ExecuteCriticalSection E n i (NetFsm_Feed (dispatch E) (FSock i) (task_src t) kNetWorkerTaskExecute (PTask i t)) w"
  by (simp add: run_task_def at_rest_def attached_def live)

lemma process_events_none:
  assumes "w_socks w c = Some s" and "cx_events (sk_ctx s) = NetQueue_Init"
  shows "process_events E (Suc n) c w = Inr w"
proof -
  have "NetQueue_Pop (cx_events (sk_ctx s)) (w_next w) = Inr (None, NetQueue_Init, w_next w)"
    by (simp add: assms NetQueue_Pop_def NetQueue_Init_def)
  from pop_events_live [OF assms(1) this] show ?thesis
    by (simp add: process_events.simps same_updates(1) [OF assms(2)] fun_upd_idem assms(1))
qed

lemma process_external_none: "process_external E f (Suc n) NetQueue_Init w = Inr w"
  by (simp add: process_external.simps pop_local_def NetQueue_Pop_def NetQueue_Init_def)

text \<open>What is left of a critical section once its events have been processed and nothing is for another context.\<close>

lemma section_law:
  assumes "lock_ctx c w = Inr w1" and "func w1 = Inr w2" and "process_events E n c w2 = Inr w3"
    and "w_socks w3 c = Some s" and "cx_eventsto (sk_ctx s) = NetQueue_Init"
  shows "NetCtx_ExecuteCriticalSection E (Suc n) c func w = unlock_ctx c w3"
  using assms by (simp add: live NetCtx_ExecuteCriticalSection.simps NetQueue_Empty_def NetQueue_Init_def)

lemma section_out:
  assumes "lock_ctx c w = Inr w1" and "func w1 = Inr w2" and "process_events E n c w2 = Inr w3"
    and "get_eventsto c w3 = Inr q" and "NetQueue_Empty q \<noteq> 1" and "andThen (put_eventsto c NetQueue_Init w3) (unlock_ctx c) = Inr w4"
  shows "NetCtx_ExecuteCriticalSection E (Suc n) c func w = process_external E (NetCtx_ExecuteCriticalSection E n) n q w4"
  using assms by (cases "put_eventsto c NetQueue_Init w3") (simp_all add: NetCtx_ExecuteCriticalSection.simps)

lemma quiet_section:
  assumes "lock_ctx c w = Inr w1" and "func w1 = Inr w2"
    and "w_socks w2 c = Some s" and "cx_events (sk_ctx s) = NetQueue_Init" and "cx_eventsto (sk_ctx s) = NetQueue_Init"
  shows "NetCtx_ExecuteCriticalSection E (Suc (Suc n)) c func w = unlock_ctx c w2"
  using section_law [of c w w1 func w2 E "Suc n" w2 s] assms process_events_none [OF assms(3,4)] by blast

text \<open>A critical section whose call ends by raising an event: the device's answer, then the lock is released.\<close>

lemma raised_section:
  assumes f: "lock_ctx i w = Inr w1" "func w1 = raise_sock i k type p w2"
    and s: "w_socks w2 i = Some s" "attached i s" "device_up w2" "cx_events (sk_ctx s) = NetQueue_Init"
      "w_next w2 (EvItem (SockEv i k)) = NOT_IN_QUEUE" "p \<noteq> PNull"
    and answer: "NetDeviceFsmHandler E (dispatch E) kNetDeviceSrcSocketEvent type p
        (w2\<lparr>w_socks := (w_socks w2)(i \<mapsto> s\<lparr>sk_event := (sk_event s)(k := quiet_event i)\<rparr>)\<rparr>) = Inr w3"
    and s3: "w_socks w3 i = Some s3" "cx_events (sk_ctx s3) = NetQueue_Init" "cx_eventsto (sk_ctx s3) = NetQueue_Init"
  shows "NetCtx_ExecuteCriticalSection E (Suc (Suc (Suc n))) i func w = unlock_ctx i w3"
proof -
  from raise_then_process [OF s, of type E "Suc n"] obtain w4 where
    "raise_sock i k type p w2 = Inr w4" "process_events E (Suc (Suc n)) i w4 = process_events E (Suc n) i w3"
    unfolding answer by auto
  with f process_events_none [OF s3(1,2)] s3 show ?thesis
    using section_law [of i w w1 func w4 E "Suc (Suc n)" w3 s3] by simp
qed

text \<open>A critical section that fails, or in which an answer of the device fails.\<close>

lemma section_fails:
  assumes "lock_ctx c w = Inr w1" and "andThen (func w1) (process_events E n c) = Inl e"
  shows "NetCtx_ExecuteCriticalSection E (Suc n) c func w = Inl e"
  using assms by (cases "func w1") (auto simp: NetCtx_ExecuteCriticalSection.simps)

text \<open>The three cases for an event of a socket's descriptor, in terms of its handler.\<close>

abbreviation (input) in_section :: "nat \<Rightarrow> netsock \<Rightarrow> world \<Rightarrow> world" where
  "in_section i s w \<equiv> w\<lparr>w_socks := (w_socks w)(i \<mapsto> locked s)\<rparr>"

abbreviation (input) on_fd :: "env \<Rightarrow> nat \<Rightarrow> int \<Rightarrow> world \<Rightarrow> world res" where
  "on_fd E i pevent \<equiv> NetSocketHandler E (dispatch E) i kNetSockSrcFd pevent (PWfd i)"

lemma feed_in_section:
  "at_rest i s w \<Longrightarrow> NetFsm_Feed (dispatch E) (FSock i) src type p (in_section i s w) = NetSocketHandler E (dispatch E) i src type p (in_section i s w)"
  by (rule Feed_sock [where s = "locked s"]) (simp_all add: at_rest_def attached_def)

lemma fd_quiet:
  assumes r: "at_rest i s w" and f: "on_fd E i pevent (in_section i s w) = Inr w2"
    and s: "w_socks w2 i = Some s2" "cx_events (sk_ctx s2) = NetQueue_Init" "cx_eventsto (sk_ctx s2) = NetQueue_Init"
  shows "run_fd E (Suc (Suc n)) i pevent w = unlock_ctx i w2"
  unfolding run_fd_section [OF r]
  using quiet_section [OF lock_at_rest [OF r], of "NetFsm_Feed (dispatch E) (FSock i) kNetSockSrcFd pevent (PWfd i)" w2 s2 E n] f s
  unfolding feed_in_section [OF r] by blast

lemma fd_raised:
  assumes r: "at_rest i s w" and f: "on_fd E i pevent (in_section i s w) = raise_sock i k type p w2"
    and s: "w_socks w2 i = Some s2" "attached i s2" "device_up w2" "cx_events (sk_ctx s2) = NetQueue_Init"
      "w_next w2 (EvItem (SockEv i k)) = NOT_IN_QUEUE" "p \<noteq> PNull"
    and answer: "NetDeviceFsmHandler E (dispatch E) kNetDeviceSrcSocketEvent type p
        (w2\<lparr>w_socks := (w_socks w2)(i \<mapsto> s2\<lparr>sk_event := (sk_event s2)(k := quiet_event i)\<rparr>)\<rparr>) = Inr w3"
    and s3: "w_socks w3 i = Some s3" "cx_events (sk_ctx s3) = NetQueue_Init" "cx_eventsto (sk_ctx s3) = NetQueue_Init"
  shows "run_fd E (Suc (Suc (Suc n))) i pevent w = unlock_ctx i w3"
  unfolding run_fd_section [OF r]
  using raised_section [OF lock_at_rest [OF r], of "NetFsm_Feed (dispatch E) (FSock i) kNetSockSrcFd pevent (PWfd i)", OF _ s answer s3] f
  unfolding feed_in_section [OF r] by blast

lemma fd_fails:
  assumes r: "at_rest i s w" and f: "andThen (on_fd E i pevent (in_section i s w)) (process_events E n i) = Inl e"
  shows "run_fd E (Suc n) i pevent w = Inl e"
  unfolding run_fd_section [OF r]
  using section_fails [OF lock_at_rest [OF r], of "NetFsm_Feed (dispatch E) (FSock i) kNetSockSrcFd pevent (PWfd i)" E n e] f
  unfolding feed_in_section [OF r] by blast

end
