(* ===== verification/Netaccept.thy ===== *)
theory Netaccept
  imports Netflows
begin

text \<open>
  The accepting side, from \<open>NetDevice::PairListenSocket\<close> to a connection that is handed to
  a waiting socket: the listener gives the new descriptor to the socket it is paired with,
  the device activates that socket and pairs the listener with a fresh one.
\<close>

section \<open>Pairing the listener with a fresh socket\<close>

definition paired :: "nat \<Rightarrow> netsock \<Rightarrow> world \<Rightarrow> world" where
  "paired l ls w =
     (let n = w_nsocks w in
      w\<lparr>w_nsocks := Suc n, w_cur_worker := next_worker (w_cur_worker w),
        w_next := (\<lambda>x. if item_of n x then NOT_IN_QUEUE else w_next w x),
        w_dev := dv_sock_sets_update (List.insert n) (w_dev w),
        w_socks := (w_socks w)
          (n \<mapsto> (let s = init_sock n kNetDeviceSrcSocketEvent FDevice \<lparr>sin_family = 0, sin_port = 0, s_addr = 0\<rparr>
                         (nat (w_cur_worker w)) NetSocket_new
                  in s\<lparr>sk_fsm := (sk_fsm s)\<lparr>f_state := kNetFsmStateActive\<rparr>,
                       sk_state := kNetSockStateBeingAccepted, sk_asock := Some l\<rparr>),
           l \<mapsto> ls\<lparr>sk_state := kNetSockStateAccepting, sk_asock := Some n\<rparr>)\<rparr>)"

definition waiting_sock :: "nat \<Rightarrow> nat \<Rightarrow> nat \<Rightarrow> netsock" where
  "waiting_sock n l k =
     (let s = init_sock n kNetDeviceSrcSocketEvent FDevice \<lparr>sin_family = 0, sin_port = 0, s_addr = 0\<rparr> k NetSocket_new
      in s\<lparr>sk_fsm := (sk_fsm s)\<lparr>f_state := kNetFsmStateActive\<rparr>,
           sk_state := kNetSockStateBeingAccepted, sk_asock := Some l\<rparr>)"

lemma paired_simps [simp]:
  "w_nsocks (paired l ls w) = Suc (w_nsocks w)" "w_cur_worker (paired l ls w) = next_worker (w_cur_worker w)"
  "w_workers (paired l ls w) = w_workers w" "w_trace (paired l ls w) = w_trace w" "w_mem (paired l ls w) = w_mem w"
  "w_dev (paired l ls w) = dv_sock_sets_update (List.insert (w_nsocks w)) (w_dev w)"
  "w_next (paired l ls w) x = (if item_of (w_nsocks w) x then NOT_IN_QUEUE else w_next w x)"
  "w_socks (paired l ls w) = (w_socks w)(w_nsocks w \<mapsto> waiting_sock (w_nsocks w) l (nat (w_cur_worker w)),
     l \<mapsto> ls\<lparr>sk_state := kNetSockStateAccepting, sk_asock := Some (w_nsocks w)\<rparr>)"
  by (simp_all add: paired_def waiting_sock_def Let_def)

lemma PairListen_law:
  assumes l: "w_socks w (dv_listen (w_dev w)) = Some ls" "running ls" "sk_state ls = kNetSockStateListening" "sk_asock ls = None"
    and k: "sk_worker ls < length (w_workers w)" and c: "0 \<le> w_cur_worker w" "w_cur_worker w < int kNetWorkerNum"
    and n: "dv_listen (w_dev w) \<noteq> w_nsocks w" "\<And>k t. TaskItem (w_nsocks w) t \<notin> set (T k)"
    and T: "tasks_are w T" and E: "grants E"
  shows "\<exists>w'. NetDevice_PairListenSocket E (dispatch E) w = Inr w' \<and>
     only_tasks (paired (dv_listen (w_dev w)) ls w) w' \<and>
     tasks_are w' (T(sk_worker ls := appended (w_next w) (TaskItem (dv_listen (w_dev w)) TkAccept) (T (sk_worker ls)))) \<and>
     (\<forall>y. w_next w' y = NOT_IN_QUEUE \<longleftrightarrow> y \<noteq> TaskItem (dv_listen (w_dev w)) TkAccept \<and>
        w_next (paired (dv_listen (w_dev w)) ls w) y = NOT_IN_QUEUE)"
proof -
  let ?l = "dv_listen (w_dev w)" and ?n = "w_nsocks w"
  let ?w = "paired ?l ls w"
  have nl: "?n \<noteq> ?l" using n(1) by simp
  have run: "running ls" by fact
  have "NetDevice_PairListenSocket E (dispatch E) w = execute_task E ?l TkAccept ?w"
    using l(1,3,4) nl c run
    by (simp add: NetDevice_PairListenSocket_def new_sock_def Socket_Init_law insert_sock_def NetSocket_Accept_def
        paired_def live Let_def init_sock_def running_def upd_dev_def fun_upd_twist cong: if_cong)
  moreover have "tasks_are ?w T"
  proof (rule tasks_are_frame [OF T])
    fix k x
    assume x: "x \<in> set (T k)"
    with T have "is_task x" by (simp add: tasks_are_def)
    moreover have "is_task x \<Longrightarrow> item_of ?n x \<Longrightarrow> \<exists>t. x = TaskItem ?n t" by (cases x) auto
    ultimately have "\<not> item_of ?n x" using x n(2) by blast
    then show "w_next ?w x = w_next w x" by simp
  qed simp
  moreover have "appended (w_next ?w) (TaskItem ?l TkAccept) xs = appended (w_next w) (TaskItem ?l TkAccept) xs" for xs
    using nl by (simp add: appended_def)
  ultimately show ?thesis
    using execute_task_tasks [of ?w ?l "ls\<lparr>sk_state := kNetSockStateAccepting, sk_asock := Some ?n\<rparr>" T E TkAccept] k E
    by (simp del: paired_simps(7)) blast
qed

section \<open>Handing a connection over\<close>

text \<open>The state after the listener \<open>l\<close> has given descriptor \<open>fd\<close> to \<open>a\<close>: the event for \<open>a\<close> is the only one in \<open>l\<close>'s outgoing queue.\<close>

definition accepted_event :: "nat \<Rightarrow> netevent" where
  "accepted_event a = \<lparr>e_fsm = Some (FSock a), e_src = kNetDeviceSrcSocketEvent, e_srcptr = PSock a, e_type = kNetSockEventTypeAccepted\<rparr>"

definition handed_sock :: "int \<Rightarrow> nat \<Rightarrow> netsock \<Rightarrow> netsock" where
  "handed_sock fd a s =
     s\<lparr>sk_s := fd, sk_state := kNetSockStateAccepted, sk_event := (sk_event s)(EvEstablished := accepted_event a), sk_asock := None\<rparr>"

definition freed_listener :: "nat \<Rightarrow> netsock \<Rightarrow> netsock" where
  "freed_listener a ls =
     (let x = EvItem (SockEv a EvEstablished) in
      ls\<lparr>sk_ctx := (sk_ctx ls)\<lparr>cx_eventsto := \<lparr>q_head = At x, q_tail = At x\<rparr>\<rparr>, sk_asock := None, sk_state := kNetSockStateListening\<rparr>)"

definition handed :: "int \<Rightarrow> nat \<Rightarrow> netsock \<Rightarrow> nat \<Rightarrow> netsock \<Rightarrow> npoller \<Rightarrow> trace \<Rightarrow> world \<Rightarrow> world" where
  "handed fd l ls a s p tr w =
     w\<lparr>w_trace := tr, w_next := (w_next w)(EvItem (SockEv a EvEstablished) := NULL),
       w_workers := (w_workers w)[sk_worker ls := (w_workers w ! sk_worker ls)\<lparr>wk_poller := p\<rparr>],
       w_socks := (w_socks w)(a \<mapsto> handed_sock fd a s, l \<mapsto> freed_listener a ls)\<rparr>"

definition accepts :: "env \<Rightarrow> int \<Rightarrow> int \<Rightarrow> trace \<Rightarrow> bool" where
  "accepts E lfd fd tr \<longleftrightarrow> sr_ret (env_os E (Sys_accept4 lfd # tr)) = fd \<and> 0 < fd"

lemma accept_law:
  assumes l: "w_socks w l = Some ls" "sk_state ls = kNetSockStateAccepting" "sk_asock ls = Some a" "f_ctx (sk_fsm ls) = Some l"
      "cx_eventsto (sk_ctx ls) = NetQueue_Init" "sk_worker ls < length (w_workers w)"
    and a: "w_socks w a = Some s" "sk_state s = kNetSockStateBeingAccepted" "sk_s s = - 1" "a \<noteq> l"
      "w_next w (EvItem (SockEv a EvEstablished)) = NOT_IN_QUEUE"
    and p: "poller_ok (poller_of ls w)" and E: "sets_flags E" "accepts E (sk_s ls) fd (w_trace w)"
  shows "\<exists>tr p. poller_ok p \<and> NetSocketHandler E r l kNetSockSrcFd kNetWorkerFdIn ptr w = Inr (handed fd l ls a s p tr w)"
proof -
  let ?x = "EvItem (SockEv a EvEstablished)"
  let ?w1 = "w\<lparr>w_trace := Sys_accept4 (sk_s ls) # w_trace w\<rparr>"
  from InitFromFd_law [of ?w1 a s E fd] a E obtain tr1 where
    i: "NetSocket_InitFromFd E a fd ?w1 = Inr (?w1\<lparr>w_socks := (w_socks ?w1)(a \<mapsto> s\<lparr>sk_s := fd\<rparr>), w_trace := tr1\<rparr>)" by auto
  let ?ls = "ls\<lparr>sk_ctx := (sk_ctx ls)\<lparr>cx_eventsto := \<lparr>q_head = At ?x, q_tail = At ?x\<rparr>\<rparr>, sk_asock := None\<rparr>"
  let ?w2 = "w\<lparr>w_trace := tr1, w_next := (w_next w)(?x := NULL), w_socks := (w_socks w)(a \<mapsto> handed_sock fd a s, l \<mapsto> ?ls)\<rparr>"
  have e: "y\<lparr>e_fsm := Some (FSock a), e_src := 2, e_type := 2, e_srcptr := PSock a\<rparr> = accepted_event a" for y :: netevent
    by (cases y) (simp add: accepted_event_def)
  have "accept_connection E l w = andThen (sock_RmFd l ?w2) (set_state l kNetSockStateListening)"
    using l a(1,4,5) E i
    by (simp add: accept_connection_def accepts_def hand_over_def get_asock_def live deref_def sys_def Let_def NetFsm_RaiseTo_def
        NetCtx_RaiseTo_def push_on_def NetQueue_Push_def NetQueue_Init_def e handed_sock_def fun_upd_twist)
  moreover from Rm_law [OF p] obtain p' tr2 where
    "NetPoller_Rm (poller_of ls w) (HSock l) (handle_of ls) tr1 = Inr (p', tr2)" "poller_ok p'" by blast
  moreover from this have "sock_RmFd l ?w2 = Inr (polled l ?ls p' (handle_of ls) tr2 ?w2)"
    using RmFd_live [of ?w2 l ?ls p' tr2] l(6) by simp
  moreover have "set_state l kNetSockStateListening (polled l ?ls p' (handle_of ls) tr2 ?w2) = Inr (handed fd l ls a s p' tr2 w)"
    by (cases ls) (simp add: live polled_def handed_def freed_listener_def Let_def)
  ultimately show ?thesis
    using l(1,2) by (auto simp: NetSocketHandler_def live from_accepting_def case_accepting_def Let_def)
qed

section \<open>The device's answer\<close>

definition active_sock :: "netsock \<Rightarrow> netsock" where
  "active_sock s = s\<lparr>sk_wfd := (sk_wfd s)\<lparr>wf_handle := \<lparr>h_fd = sk_s s, h_events = 0\<rparr>\<rparr>, sk_state := kNetSockStateActive\<rparr>"

lemma Activate_law:
  assumes s: "w_socks w a = Some s" "running s" "sk_state s = kNetSockStateAccepted" and k: "sk_worker s < length (w_workers w)"
  shows "\<exists>tr. NetSocket_Activate (dispatch E) a w = Inr (w\<lparr>w_trace := tr, w_socks := (w_socks w)(a \<mapsto> active_sock s)\<rparr>)"
proof -
  obtain h tr where h: "NetPoller_Add (poller_of s w) (sk_s s) (HSock a) (handle_of s) (w_trace w) = (h, tr)" by fastforce
  then have "h = \<lparr>h_fd = sk_s s, h_events = 0\<rparr>" by (cases "handle_of s") (auto simp: NetPoller_Add_def)
  with AddFd_live [OF s(1) k h] s show ?thesis
    by (intro exI [of _ tr]) (simp add: NetSocket_Activate_def live NetSocketHandler_def from_accepted_def case_accepted_def
        polled_def same_worker active_sock_def)
qed

definition queued :: "world \<Rightarrow> nat \<Rightarrow> tk \<Rightarrow> nat \<Rightarrow> (nat \<Rightarrow> qitem list) \<Rightarrow> nat \<Rightarrow> qitem list" where
  "queued w i t k T = T(k := appended (w_next w) (TaskItem i t) (T k))"

lemma accepted_answer:
  assumes a: "w_socks w a = Some s" "running s" "sk_state s = kNetSockStateAccepted" "sk_worker s < length (w_workers w)"
    and l: "w_socks w l = Some ls" "running ls" "sk_state ls = kNetSockStateListening" "sk_asock ls = None"
      "sk_worker ls < length (w_workers w)" "dv_listen (w_dev w) = l" "l \<noteq> a" "l \<noteq> w_nsocks w" "a \<noteq> w_nsocks w"
    and c: "0 \<le> w_cur_worker w" "w_cur_worker w < int kNetWorkerNum"
    and T: "tasks_are w T" "\<And>k t. TaskItem (w_nsocks w) t \<notin> set (T k)" and E: "grants E"
  shows "\<exists>w'. NetDeviceFsmHandler E (dispatch E) kNetDeviceSrcSocketEvent kNetSockEventTypeAccepted (PSock a) w = Inr w' \<and>
     w_socks w' = (w_socks w)(a \<mapsto> active_sock s, w_nsocks w \<mapsto> waiting_sock (w_nsocks w) l (nat (w_cur_worker w)),
                    l \<mapsto> ls\<lparr>sk_state := kNetSockStateAccepting, sk_asock := Some (w_nsocks w)\<rparr>) \<and>
     w_nsocks w' = Suc (w_nsocks w) \<and> w_cur_worker w' = next_worker (w_cur_worker w) \<and>
     w_dev w' = dv_sock_sets_update (List.insert (w_nsocks w)) (w_dev w) \<and>
     length (w_workers w') = length (w_workers w) \<and> pollers_ok w' = pollers_ok w \<and>
     (\<forall>x. \<not> is_task x \<longrightarrow> w_next w' x = (if item_of (w_nsocks w) x then NOT_IN_QUEUE else w_next w x)) \<and>
     tasks_are w' (queued w l TkAccept (sk_worker ls) (queued w a TkRecv (sk_worker s) T))"
proof -
  from Activate_law [OF a, of E] obtain tr where
    act: "NetSocket_Activate (dispatch E) a w = Inr (w\<lparr>w_trace := tr, w_socks := (w_socks w)(a \<mapsto> active_sock s)\<rparr>)" by blast
  let ?w1 = "w\<lparr>w_trace := tr, w_socks := (w_socks w)(a \<mapsto> active_sock s)\<rparr>"
  have "tasks_are ?w1 T" by (rule tasks_are_frame [OF T(1)]) simp_all
  then obtain w2 where w2: "execute_task E a TkRecv ?w1 = Inr w2" "tasks_are w2 (queued w a TkRecv (sk_worker s) T)"
      "only_tasks ?w1 w2" "\<And>y. w_next w2 y = NOT_IN_QUEUE \<longleftrightarrow> y \<noteq> TaskItem a TkRecv \<and> w_next w y = NOT_IN_QUEUE"
    using execute_task_tasks [of ?w1 a "active_sock s" T E TkRecv] a(4) E
    by (auto simp: active_sock_def queued_def appended_def)
  note same = only_tasks_simps [OF w2(3)]
  have new: "TaskItem (w_nsocks w) t \<notin> set (queued w a TkRecv (sk_worker s) T k)" for t k
    using T(2) l(9) by (auto simp: queued_def appended_def)
  have app: "appended (w_next w2) (TaskItem l TkAccept) xs = appended (w_next w) (TaskItem l TkAccept) xs" for xs
    using w2(4) l(7) by (simp add: appended_def)
  have "\<exists>w3. NetDevice_PairListenSocket E (dispatch E) w2 = Inr w3 \<and> only_tasks (paired l ls w2) w3 \<and>
      tasks_are w3 (queued w l TkAccept (sk_worker ls) (queued w a TkRecv (sk_worker s) T))"
    using PairListen_law [of w2 ls "queued w a TkRecv (sk_worker s) T" E] l c w2(2) E new
    unfolding same queued_def [of w l TkAccept] app [symmetric] by auto
  then obtain w3 where w3: "NetDevice_PairListenSocket E (dispatch E) w2 = Inr w3" "only_tasks (paired l ls w2) w3"
      "tasks_are w3 (queued w l TkAccept (sk_worker ls) (queued w a TkRecv (sk_worker s) T))" by blast
  note last = only_tasks_simps [OF w3(2)]
  have "pollers_ok w3 = pollers_ok w"
    by (simp add: pollers_ok_def last same)
  moreover have "NetDeviceFsmHandler E (dispatch E) kNetDeviceSrcSocketEvent kNetSockEventTypeAccepted (PSock a) w = Inr w3"
    using act w2(1) w3(1) by (simp add: NetDeviceFsmHandler_def as_sock_def)
  ultimately show ?thesis
    using w3(3) by (intro exI [of _ w3]) (simp add: last same)
qed

section \<open>The whole critical section\<close>

text \<open>A device whose listener \<open>l\<close> waits for a connection on behalf of socket \<open>a\<close>; \<open>T\<close> are the queued tasks.\<close>

definition accept_ready :: "nat \<Rightarrow> nat \<Rightarrow> (nat \<Rightarrow> qitem list) \<Rightarrow> world \<Rightarrow> bool" where
  "accept_ready l a T w \<longleftrightarrow>
     device_up w \<and> dv_listen (w_dev w) = l \<and> l \<noteq> a \<and> l < w_nsocks w \<and> a < w_nsocks w \<and>
     0 \<le> w_cur_worker w \<and> w_cur_worker w < int kNetWorkerNum \<and> length (w_workers w) = kNetWorkerNum \<and>
     pollers_ok w \<and> tasks_are w T \<and> (\<forall>k i t. TaskItem i t \<in> set (T k) \<longrightarrow> i < w_nsocks w) \<and>
     (\<exists>ls. at_rest l ls w \<and> sk_state ls = kNetSockStateAccepting \<and> sk_asock ls = Some a) \<and>
     (\<exists>s. at_rest a s w \<and> sk_state s = kNetSockStateBeingAccepted \<and> sk_s s = - 1 \<and> sk_asock s = Some l)"

lemma waiting_at_rest:
  assumes "w_socks w n = Some (waiting_sock n l k)" and "k < length (w_workers w)"
    and "\<And>e. w_next w (EvItem (SockEv n e)) = NOT_IN_QUEUE"
  shows "at_rest n (waiting_sock n l k) w"
  using assms by (simp add: at_rest_def waiting_sock_def init_sock_def attached_def running_def NetSocket_new_def Let_def)

text \<open>The listener's part: what remains is the critical section of the accepted socket.\<close>

definition after_handing :: "int \<Rightarrow> nat \<Rightarrow> netsock \<Rightarrow> nat \<Rightarrow> netsock \<Rightarrow> npoller \<Rightarrow> trace \<Rightarrow> world \<Rightarrow> world" where
  "after_handing fd l ls a s p tr w =
     w\<lparr>w_trace := tr, w_workers := (w_workers w)[sk_worker ls := (w_workers w ! sk_worker ls)\<lparr>wk_poller := p\<rparr>],
       w_socks := (w_socks w)(a \<mapsto> handed_sock fd a s, l \<mapsto> ls\<lparr>sk_asock := None, sk_state := kNetSockStateListening\<rparr>)\<rparr>"

lemma listener_feed:
  assumes l: "at_rest l ls w" "sk_state ls = kNetSockStateAccepting" "sk_asock ls = Some a"
    and a: "w_socks w a = Some s" "sk_state s = kNetSockStateBeingAccepted" "sk_s s = - 1" "a \<noteq> l" "attached a s"
      "w_next w (EvItem (SockEv a EvEstablished)) = NOT_IN_QUEUE"
    and p: "pollers_ok w" and E: "sets_flags E" "accepts E (sk_s ls) fd (w_trace w)"
  shows "\<exists>tr p. poller_ok p \<and>
     NetFsm_Feed (dispatch E) (FSock l) kNetSockSrcFd kNetWorkerFdIn (PWfd l) (w\<lparr>w_socks := (w_socks w)(l \<mapsto> locked ls)\<rparr>) =
     Inr (handed fd l (locked ls) a s p tr (w\<lparr>w_socks := (w_socks w)(l \<mapsto> locked ls)\<rparr>))"
proof -
  note rest = l(1) [unfolded at_rest_def]
  let ?w1 = "w\<lparr>w_socks := (w_socks w)(l \<mapsto> locked ls)\<rparr>"
  have "w_socks ?w1 l = Some (locked ls)" "running (locked ls)" using rest by (simp_all add: attached_def)
  then have "NetFsm_Feed (dispatch E) (FSock l) kNetSockSrcFd kNetWorkerFdIn (PWfd l) ?w1 =
      NetSocketHandler E (dispatch E) l kNetSockSrcFd kNetWorkerFdIn (PWfd l) ?w1" by (rule Feed_sock)
  then show ?thesis
    using accept_law [of ?w1 l "locked ls" a s E fd "dispatch E" "PWfd l"] rest l a p E
    by (auto simp: attached_def pollers_ok_def)
qed

text \<open>After the handler the section leaves, with the event of the accepted socket in its private queue.\<close>

lemma handed_leaves:
  fixes fd :: int and s :: netsock and p :: npoller and tr :: trace
  assumes l: "at_rest l ls w" and a: "w_next w (EvItem (SockEv a EvEstablished)) = NOT_IN_QUEUE" "a \<noteq> l"
  defines "w2 \<equiv> handed fd l (locked ls) a s p tr (w\<lparr>w_socks := (w_socks w)(l \<mapsto> locked ls)\<rparr>)"
    and "q \<equiv> \<lparr>q_head = At (EvItem (SockEv a EvEstablished)), q_tail = At (EvItem (SockEv a EvEstablished))\<rparr>"
  shows "process_events E (Suc n) l w2 = Inr w2" and "get_eventsto l w2 = Inr q"
    and "\<exists>w4. andThen (put_eventsto l NetQueue_Init w2) (unlock_ctx l) = Inr w4 \<and>
       pop_local q w4 = Inr (Some (EvItem (SockEv a EvEstablished)), NetQueue_Init, after_handing fd l ls a s p tr w)"
proof -
  let ?x = "EvItem (SockEv a EvEstablished)"
  note rest = l [unfolded at_rest_def]
  have w2: "w_socks w2 l = Some (freed_listener a (locked ls))" by (simp add: w2_def handed_def)
  show "process_events E (Suc n) l w2 = Inr w2"
    using rest by (intro process_events_none [OF w2]) (simp add: freed_listener_def Let_def)
  show "get_eventsto l w2 = Inr q" using w2 by (simp add: live freed_listener_def Let_def q_def)
  let ?w4 = "w\<lparr>w_trace := tr, w_next := (w_next w)(?x := NULL),
       w_workers := (w_workers w)[sk_worker ls := (w_workers w ! sk_worker ls)\<lparr>wk_poller := p\<rparr>],
       w_socks := (w_socks w)(a \<mapsto> handed_sock fd a s, l \<mapsto> ls\<lparr>sk_asock := None, sk_state := kNetSockStateListening\<rparr>)\<rparr>"
  have same: "(sk_ctx ls)\<lparr>cx_eventsto := NetQueue_Init, cx_locked := False\<rparr> = sk_ctx ls"
    using rest by (cases "sk_ctx ls") simp
  have "(freed_listener a (locked ls))\<lparr>sk_ctx := (sk_ctx (freed_listener a (locked ls)))\<lparr>cx_eventsto := NetQueue_Init, cx_locked := False\<rparr>\<rparr> =
      ls\<lparr>sk_asock := None, sk_state := kNetSockStateListening\<rparr>"
    using same by (simp add: freed_listener_def locked_def Let_def)
  then have "andThen (put_eventsto l NetQueue_Init w2) (unlock_ctx l) = Inr ?w4"
    using a(2) by (simp add: live w2) (simp add: handed_def w2_def)
  moreover have "pop_local q ?w4 = Inr (Some ?x, NetQueue_Init, after_handing fd l ls a s p tr w)"
    using a(1) by (simp add: q_def pop_local_def NetQueue_Pop_def NetQueue_Init_def after_handing_def fun_upd_idem)
  ultimately show "\<exists>w4. andThen (put_eventsto l NetQueue_Init w2) (unlock_ctx l) = Inr w4 \<and>
       pop_local q w4 = Inr (Some ?x, NetQueue_Init, after_handing fd l ls a s p tr w)" by blast
qed

lemma listener_part:
  assumes l: "at_rest l ls w" "sk_state ls = kNetSockStateAccepting" "sk_asock ls = Some a"
    and a: "w_socks w a = Some s" "sk_state s = kNetSockStateBeingAccepted" "sk_s s = - 1" "a \<noteq> l" "attached a s"
      "w_next w (EvItem (SockEv a EvEstablished)) = NOT_IN_QUEUE"
    and p: "pollers_ok w" and E: "sets_flags E" "accepts E (sk_s ls) fd (w_trace w)"
  shows "\<exists>tr p. poller_ok p \<and>
     NetCtx_ExecuteCriticalSection E (Suc (Suc (Suc m))) l
       (NetFsm_Feed (dispatch E) (FSock l) kNetSockSrcFd kNetWorkerFdIn (PWfd l)) w =
     NetCtx_ExecuteCriticalSection E (Suc (Suc m)) a (NetFsmEvent_Process (dispatch E) (SockEv a EvEstablished))
       (after_handing fd l ls a s p tr w)"
proof -
  let ?x = "EvItem (SockEv a EvEstablished)" and ?q = "\<lparr>q_head = At (EvItem (SockEv a EvEstablished)), q_tail = At (EvItem (SockEv a EvEstablished))\<rparr>"
  let ?sec = "NetCtx_ExecuteCriticalSection E (Suc (Suc m))"
  let ?feed = "NetFsm_Feed (dispatch E) (FSock l) kNetSockSrcFd kNetWorkerFdIn (PWfd l)"
  from listener_feed [OF assms] obtain tr p where p: "poller_ok p" and
    feed: "?feed (w\<lparr>w_socks := (w_socks w)(l \<mapsto> locked ls)\<rparr>) = Inr (handed fd l (locked ls) a s p tr (w\<lparr>w_socks := (w_socks w)(l \<mapsto> locked ls)\<rparr>))" by blast
  note leave = handed_leaves [OF l(1) a(6,4), where fd = fd and s = s and p = p and tr = tr]
  from leave(3) obtain w4 where w4: "andThen (put_eventsto l NetQueue_Init (handed fd l (locked ls) a s p tr (w\<lparr>w_socks := (w_socks w)(l \<mapsto> locked ls)\<rparr>))) (unlock_ctx l) = Inr w4"
    "pop_local ?q w4 = Inr (Some ?x, NetQueue_Init, after_handing fd l ls a s p tr w)" by blast
  have "NetQueue_Empty ?q \<noteq> 1" by (simp add: NetQueue_Empty_def)
  from section_out [where func = ?feed, OF lock_at_rest [OF l(1)] feed leave(1,2) this w4(1)]
  have "NetCtx_ExecuteCriticalSection E (Suc (Suc (Suc m))) l ?feed w = process_external E ?sec (Suc (Suc m)) ?q w4" .
  moreover have "w_socks (after_handing fd l ls a s p tr w) a = Some (handed_sock fd a s)"
    using a(4) by (simp add: after_handing_def)
  moreover have "process_external E ?sec (Suc m) NetQueue_Init = Inr"
    by (rule ext) (rule process_external_none)
  ultimately have "NetCtx_ExecuteCriticalSection E (Suc (Suc (Suc m))) l ?feed w =
     ?sec a (NetFsmEvent_Process (dispatch E) (SockEv a EvEstablished)) (after_handing fd l ls a s p tr w)"
    using a(5) w4(2) by (simp add: live process_external.simps handed_sock_def accepted_event_def deref_def attached_def)
  with p show ?thesis by blast
qed

text \<open>The accepted socket's part. The result: the socket with its event consumed and its descriptor registered.\<close>

definition accepted_sock :: "nat \<Rightarrow> netsock \<Rightarrow> netsock" where
  "accepted_sock a s = active_sock (s\<lparr>sk_event := (sk_event s)(EvEstablished := quiet_event a)\<rparr>)"

lemma socket_part:
  assumes a: "at_rest a s w" "sk_state s = kNetSockStateAccepted" "sk_event s EvEstablished = accepted_event a"
    and d: "device_up w"
    and l: "w_socks w l = Some ls" "running ls" "sk_state ls = kNetSockStateListening" "sk_asock ls = None"
      "sk_worker ls < length (w_workers w)" "dv_listen (w_dev w) = l" "l \<noteq> a" "l \<noteq> w_nsocks w" "a \<noteq> w_nsocks w"
    and c: "0 \<le> w_cur_worker w" "w_cur_worker w < int kNetWorkerNum"
    and T: "tasks_are w T" "\<And>k t. TaskItem (w_nsocks w) t \<notin> set (T k)" and E: "grants E"
  shows "\<exists>w'. NetCtx_ExecuteCriticalSection E (Suc (Suc m)) a (NetFsmEvent_Process (dispatch E) (SockEv a EvEstablished)) w = Inr w' \<and>
     w_socks w' = (w_socks w)(a \<mapsto> accepted_sock a s, w_nsocks w \<mapsto> waiting_sock (w_nsocks w) l (nat (w_cur_worker w)),
                    l \<mapsto> ls\<lparr>sk_state := kNetSockStateAccepting, sk_asock := Some (w_nsocks w)\<rparr>) \<and>
     w_nsocks w' = Suc (w_nsocks w) \<and> w_cur_worker w' = next_worker (w_cur_worker w) \<and>
     w_dev w' = dv_sock_sets_update (List.insert (w_nsocks w)) (w_dev w) \<and>
     length (w_workers w') = length (w_workers w) \<and> pollers_ok w' = pollers_ok w \<and>
     (\<forall>x. \<not> is_task x \<longrightarrow> w_next w' x = (if item_of (w_nsocks w) x then NOT_IN_QUEUE else w_next w x)) \<and>
     tasks_are w' (queued w l TkAccept (sk_worker ls) (queued w a TkRecv (sk_worker s) T))"
proof -
  let ?w1 = "w\<lparr>w_socks := (w_socks w)(a \<mapsto> locked s)\<rparr>"
  let ?s2 = "(locked s)\<lparr>sk_event := (sk_event s)(EvEstablished := quiet_event a)\<rparr>"
  let ?w2 = "w\<lparr>w_socks := (w_socks w)(a \<mapsto> ?s2)\<rparr>"
  note rest = a(1) [unfolded at_rest_def]
  have p: "NetFsmEvent_Process (dispatch E) (SockEv a EvEstablished) ?w1 =
      NetDeviceFsmHandler E (dispatch E) kNetDeviceSrcSocketEvent kNetSockEventTypeAccepted (PSock a) ?w2"
    using Process_law [of ?w1 a "locked s" EvEstablished E] rest a(3) d by (simp add: accepted_event_def device_up_def)
  have T2: "tasks_are ?w2 T" by (rule tasks_are_frame [OF T(1)]) simp_all
  have po: "pollers_ok ?w2 = pollers_ok w" by (simp add: pollers_ok_def)
  have "queued ?w2 i t k U = queued w i t k U" for i t k U by (simp add: queued_def)
  then obtain w3 where w3: "NetDeviceFsmHandler E (dispatch E) kNetDeviceSrcSocketEvent kNetSockEventTypeAccepted (PSock a) ?w2 = Inr w3"
     "w_socks w3 = (w_socks ?w2)(a \<mapsto> active_sock ?s2, w_nsocks w \<mapsto> waiting_sock (w_nsocks w) l (nat (w_cur_worker w)),
                    l \<mapsto> ls\<lparr>sk_state := kNetSockStateAccepting, sk_asock := Some (w_nsocks w)\<rparr>)"
     "w_nsocks w3 = Suc (w_nsocks w)" "w_cur_worker w3 = next_worker (w_cur_worker w)"
     "w_dev w3 = dv_sock_sets_update (List.insert (w_nsocks w)) (w_dev w)"
     "length (w_workers w3) = length (w_workers w)" "pollers_ok w3 = pollers_ok w"
     "\<And>x. \<not> is_task x \<Longrightarrow> w_next w3 x = (if item_of (w_nsocks w) x then NOT_IN_QUEUE else w_next w x)"
     "tasks_are w3 (queued w l TkAccept (sk_worker ls) (queued w a TkRecv (sk_worker s) T))"
    using accepted_answer [of ?w2 a ?s2 l ls T E] rest a(2) l c T2 T(2) E
    by (auto simp: attached_def po cong: if_cong)
  have s3: "w_socks w3 a = Some (active_sock ?s2)" using l(7,9) by (simp add: w3)
  have "NetCtx_ExecuteCriticalSection E (Suc (Suc m)) a (NetFsmEvent_Process (dispatch E) (SockEv a EvEstablished)) w = unlock_ctx a w3"
  proof (rule quiet_section [OF lock_at_rest [OF a(1)] _ s3])
    show "NetFsmEvent_Process (dispatch E) (SockEv a EvEstablished) ?w1 = Inr w3" using p w3(1) by simp
  qed (use rest in \<open>simp_all add: active_sock_def locked_def\<close>)
  moreover have "(sk_ctx s)\<lparr>cx_locked := False\<rparr> = sk_ctx s" using rest by (cases "sk_ctx s") simp
  then have "(active_sock ?s2)\<lparr>sk_ctx := (sk_ctx (active_sock ?s2))\<lparr>cx_locked := False\<rparr>\<rparr> = accepted_sock a s"
    by (simp add: active_sock_def accepted_sock_def locked_def)
  then have "unlock_ctx a w3 = Inr (w3\<lparr>w_socks := (w_socks w3)(a \<mapsto> accepted_sock a s)\<rparr>)"
    by (simp only: ctx_live(1) [OF s3])
  moreover have "(w_socks w3)(a \<mapsto> accepted_sock a s) = (w_socks w)(a \<mapsto> accepted_sock a s, w_nsocks w \<mapsto> waiting_sock (w_nsocks w) l (nat (w_cur_worker w)),
                    l \<mapsto> ls\<lparr>sk_state := kNetSockStateAccepting, sk_asock := Some (w_nsocks w)\<rparr>)"
    using l(7,9) by (simp add: w3(2) fun_upd_twist)
  moreover have "tasks_are (w3\<lparr>w_socks := (w_socks w3)(a \<mapsto> accepted_sock a s)\<rparr>) (queued w l TkAccept (sk_worker ls) (queued w a TkRecv (sk_worker s) T))"
    by (rule tasks_are_frame [OF w3(9)]) simp_all
  ultimately show ?thesis
    using w3 by (intro exI [of _ "w3\<lparr>w_socks := (w_socks w3)(a \<mapsto> accepted_sock a s)\<rparr>"]) (simp add: pollers_ok_def)
qed

text \<open>Everything but the tables of sockets and links is as before; the sockets at rest stay at rest.\<close>

lemma at_rest_frame:
  assumes "at_rest i s w" and "w_socks w' i = Some s" and "length (w_workers w') = length (w_workers w)"
    and "\<And>k. w_next w' (EvItem (SockEv i k)) = w_next w (EvItem (SockEv i k))"
  shows "at_rest i s w'"
  using assms by (simp add: at_rest_def)

lemma after_handing_simps [simp]:
  "w_nsocks (after_handing fd l ls a s p tr w) = w_nsocks w" "w_cur_worker (after_handing fd l ls a s p tr w) = w_cur_worker w"
  "w_dev (after_handing fd l ls a s p tr w) = w_dev w" "w_next (after_handing fd l ls a s p tr w) = w_next w"
  "length (w_workers (after_handing fd l ls a s p tr w)) = length (w_workers w)"
  "w_socks (after_handing fd l ls a s p tr w) =
     (w_socks w)(a \<mapsto> handed_sock fd a s, l \<mapsto> ls\<lparr>sk_asock := None, sk_state := kNetSockStateListening\<rparr>)"
  "tasks_are (after_handing fd l ls a s p tr w) T = tasks_are w T"
  by (auto simp: after_handing_def tasks_are_def wk_tasks_list_update)

lemma pollers_ok_after_handing: "pollers_ok w \<Longrightarrow> poller_ok p \<Longrightarrow> pollers_ok (after_handing fd l ls a s p tr w)"
  using pollers_ok_polled [of w p l ls "handle_of ls" tr] by (simp add: pollers_ok_def after_handing_def polled_def)

text \<open>What the two parts leave is ready for the next connection.\<close>

lemma ready_again:
  assumes r: "accept_ready l a T w" and ls: "w_socks w l = Some ls" and s: "w_socks w a = Some s"
    and w': "w_socks w' = (w_socks w)(a \<mapsto> accepted_sock a (handed_sock fd a s),
        w_nsocks w \<mapsto> waiting_sock (w_nsocks w) l (nat (w_cur_worker w)),
        l \<mapsto> ls\<lparr>sk_state := kNetSockStateAccepting, sk_asock := Some (w_nsocks w)\<rparr>)"
     "w_nsocks w' = Suc (w_nsocks w)" "w_cur_worker w' = next_worker (w_cur_worker w)"
     "w_dev w' = dv_sock_sets_update (List.insert (w_nsocks w)) (w_dev w)" "length (w_workers w') = length (w_workers w)" "pollers_ok w'"
     "\<And>x. \<not> is_task x \<Longrightarrow> w_next w' x = (if item_of (w_nsocks w) x then NOT_IN_QUEUE else w_next w x)"
     "tasks_are w' (queued w l TkAccept (sk_worker ls) (queued w a TkRecv (sk_worker s) T))"
  shows "accept_ready l (w_nsocks w) (queued w l TkAccept (sk_worker ls) (queued w a TkRecv (sk_worker s) T)) w'"
    and "at_rest a (accepted_sock a (handed_sock fd a s)) w'"
proof -
  let ?n = "w_nsocks w" and ?a = "accepted_sock a (handed_sock fd a s)"
    and ?l = "ls\<lparr>sk_state := kNetSockStateAccepting, sk_asock := Some (w_nsocks w)\<rparr>"
  from r ls s have l: "at_rest l ls w" and a: "at_rest a s w"
    and w: "l \<noteq> a" "l \<noteq> ?n" "a \<noteq> ?n" "0 \<le> w_cur_worker w" "w_cur_worker w < int kNetWorkerNum"
      "length (w_workers w) = kNetWorkerNum" and T: "\<And>k i t. TaskItem i t \<in> set (T k) \<Longrightarrow> i < ?n"
    by (auto simp: accept_ready_def at_rest_def)
  have socks: "w_socks w' a = Some ?a" "w_socks w' ?n = Some (waiting_sock ?n l (nat (w_cur_worker w)))" "w_socks w' l = Some ?l"
    using w(1-3) by (simp_all add: w'(1))
  show "at_rest a ?a w'"
    using a w(3) socks by (simp add: at_rest_def accepted_sock_def active_sock_def handed_sock_def w'(5,7))
  have "at_rest l ?l w'" using l w(2) socks by (simp add: at_rest_def w'(5,7))
  moreover have "at_rest ?n (waiting_sock ?n l (nat (w_cur_worker w))) w'"
    using w(4-6) by (intro waiting_at_rest [OF socks(2)]) (simp_all add: w'(5,7))
  moreover have "TaskItem i t \<in> set (queued w l TkAccept (sk_worker ls) (queued w a TkRecv (sk_worker s) T) k) \<Longrightarrow> i < Suc ?n" for i t k
    using T r by (auto simp: queued_def appended_def accept_ready_def less_Suc_eq split: if_splits)
  ultimately show "accept_ready l ?n (queued w l TkAccept (sk_worker ls) (queued w a TkRecv (sk_worker s) T)) w'"
    using w w'(2-8) socks r
    by (auto simp: accept_ready_def device_up_def waiting_sock_def init_sock_def next_worker_def Let_def)
qed

lemma accept_section:
  assumes r: "accept_ready l a T w" and ls: "w_socks w l = Some ls" and s: "w_socks w a = Some s"
    and E: "grants E" "accepts E (sk_s ls) fd (w_trace w)"
  shows "\<exists>w'. run_fd E (Suc (Suc (Suc m))) l kNetPollerIn w = Inr w' \<and>
     accept_ready l (w_nsocks w) (queued w l TkAccept (sk_worker ls) (queued w a TkRecv (sk_worker s) T)) w' \<and>
     (\<exists>s'. at_rest a s' w' \<and> sk_state s' = kNetSockStateActive \<and> sk_s s' = fd \<and>
        wf_handle (sk_wfd s') = \<lparr>h_fd = fd, h_events = 0\<rparr> \<and> sk_asock s' = None) \<and>
     w_nsocks w' = Suc (w_nsocks w) \<and> (\<forall>j. j \<notin> {a, l, w_nsocks w} \<longrightarrow> w_socks w' j = w_socks w j) \<and>
     map_option sk_s (w_socks w' l) = Some (sk_s ls) \<and> map_option sk_worker (w_socks w' l) = Some (sk_worker ls)"
proof -
  let ?n = "w_nsocks w" and ?s1 = "handed_sock fd a s" and ?l1 = "ls\<lparr>sk_asock := None, sk_state := kNetSockStateListening\<rparr>"
  from r ls s have l: "at_rest l ls w" "sk_state ls = kNetSockStateAccepting" "sk_asock ls = Some a"
    and a: "at_rest a s w" "sk_state s = kNetSockStateBeingAccepted" "sk_s s = - 1"
    and w: "device_up w" "dv_listen (w_dev w) = l" "l \<noteq> a" "l \<noteq> ?n" "a \<noteq> ?n" "0 \<le> w_cur_worker w" "w_cur_worker w < int kNetWorkerNum"
      "pollers_ok w" "tasks_are w T" "\<And>k i t. TaskItem i t \<in> set (T k) \<Longrightarrow> i < ?n"
    by (auto simp: accept_ready_def at_rest_def)
  obtain tr p where p: "poller_ok p" and
    first: "run_fd E (Suc (Suc (Suc m))) l kNetPollerIn w =
      NetCtx_ExecuteCriticalSection E (Suc (Suc m)) a (NetFsmEvent_Process (dispatch E) (SockEv a EvEstablished))
       (after_handing fd l ls a s p tr w)"
    using listener_part [OF l s a(2,3) w(3) [symmetric] _ _ w(8) _ E(2)] a(1) E(1)
    unfolding run_fd_section [OF l(1)] at_rest_def grants_def by blast
  let ?w1 = "after_handing fd l ls a s p tr w"
  have a1: "at_rest a ?s1 ?w1" using a(1) w(3) by (simp add: at_rest_def handed_sock_def)
  have up: "device_up ?w1" using w(1) by (simp add: device_up_def)
  have new: "TaskItem ?n t \<notin> set (T k)" for k t using w(10) by blast
  have q: "queued ?w1 i t k U = queued w i t k U" for i t k U by (simp add: queued_def)
  have po: "pollers_ok ?w1" by (rule pollers_ok_after_handing [OF w(8) p])
  from l(1) have rl: "running ls" "sk_worker ls < length (w_workers w)" by (simp_all add: at_rest_def attached_def)
  obtain w' where run: "run_fd E (Suc (Suc (Suc m))) l kNetPollerIn w = Inr w'" and
     w': "w_socks w' = (w_socks w)(a \<mapsto> accepted_sock a ?s1, ?n \<mapsto> waiting_sock ?n l (nat (w_cur_worker w)),
                    l \<mapsto> ls\<lparr>sk_state := kNetSockStateAccepting, sk_asock := Some ?n\<rparr>)"
     "w_nsocks w' = Suc ?n" "w_cur_worker w' = next_worker (w_cur_worker w)"
     "w_dev w' = dv_sock_sets_update (List.insert ?n) (w_dev w)" "length (w_workers w') = length (w_workers w)" "pollers_ok w'"
     "\<And>x. \<not> is_task x \<Longrightarrow> w_next w' x = (if item_of ?n x then NOT_IN_QUEUE else w_next w x)"
     "tasks_are w' (queued w l TkAccept (sk_worker ls) (queued w a TkRecv (sk_worker s) T))"
    using socket_part [of a ?s1 ?w1 l ?l1 T E m, OF a1 _ _ up _ _ _ _ _ _ w(3)] rl w(2,4-7,9) new E(1)
    unfolding first q by (simp add: handed_sock_def po fun_upd_twist [of a l] cong: if_cong) blast
  from ready_again [OF r ls s w'] run show ?thesis
    using w(3-5) by (intro exI [of _ w'] conjI) (auto simp: w'(1,2) accepted_sock_def active_sock_def handed_sock_def)
qed

section \<open>Watching the listener again\<close>

lemma InternalTasks_accept:
  assumes s: "w_socks w i = Some s" and k: "sk_worker s < length (w_workers w)"
  shows "\<exists>tr. NetSocket_InternalTasks i kNetSockSrcTaskAccept kNetWorkerTaskExecute w =
     Inr (True, polled i s (poller_of s w) \<lparr>h_fd = sk_s s, h_events = EPOLLIN\<rparr> tr w) \<and>
     interest (p_ep (poller_of s w)) tr (sk_s s) = Some (HSock i, EPOLLIN)"
proof -
  obtain h tr where h: "NetPoller_Add (poller_of s w) (sk_s s) (HSock i) (handle_of s) (w_trace w) = (h, tr)" by fastforce
  let ?s = "s\<lparr>sk_wfd := (sk_wfd s)\<lparr>wf_handle := h\<rparr>\<rparr>" and ?w = "polled i s (poller_of s w) h tr w"
  have e: "poller_of ?s ?w = poller_of s w" using k by (simp add: polled_def)
  obtain h1 tr1 where h1: "NetPoller_SetIn (poller_of ?s ?w) (HSock i) (handle_of ?s) (w_trace ?w) = (h1, tr1)" by fastforce
  have "h1 = \<lparr>h_fd = sk_s s, h_events = EPOLLIN\<rparr>" "interest (p_ep (poller_of s w)) tr1 (sk_s s) = Some (HSock i, EPOLLIN)"
    using h h1 unfolding e by (cases "handle_of s"; auto simp: NetPoller_Add_def NetPoller_SetIn_def)+
  moreover have "sock_SetIn i ?w = Inr (polled i s (poller_of s w) h1 tr1 w)"
    using SetIn_live [of ?w i ?s h1 tr1] h1 k unfolding e by (simp add: polled_def same_worker)
  ultimately show ?thesis
    using AddFd_live [OF s k h] by (auto simp: NetSocket_InternalTasks_def)
qed

text \<open>A task that only touches the descriptor of its socket.\<close>

lemma internal_task_section:
  assumes r: "at_rest i s w"
    and t: "NetSocket_InternalTasks i (task_src t) kNetWorkerTaskExecute (w\<lparr>w_socks := (w_socks w)(i \<mapsto> locked s)\<rparr>) =
      Inr (True, polled i (locked s) p h tr (w\<lparr>w_socks := (w_socks w)(i \<mapsto> locked s)\<rparr>))"
  shows "run_task E (Suc (Suc n)) i t w = Inr (polled i s p h tr w)"
proof -
  let ?w1 = "w\<lparr>w_socks := (w_socks w)(i \<mapsto> locked s)\<rparr>" and ?s2 = "(locked s)\<lparr>sk_wfd := (sk_wfd s)\<lparr>wf_handle := h\<rparr>\<rparr>"
  note rest = r [unfolded at_rest_def]
  have f: "NetFsm_Feed (dispatch E) (FSock i) (task_src t) kNetWorkerTaskExecute (PTask i t) ?w1 = Inr (polled i (locked s) p h tr ?w1)"
    using rest t by (simp add: live attached_def NetSocketHandler_def)
  have s2: "w_socks (polled i (locked s) p h tr ?w1) i = Some ?s2" by simp
  have "run_task E (Suc (Suc n)) i t w = unlock_ctx i (polled i (locked s) p h tr ?w1)"
    unfolding run_task_section [OF r]
    by (rule quiet_section [where func = "NetFsm_Feed (dispatch E) (FSock i) (task_src t) kNetWorkerTaskExecute (PTask i t)",
          OF lock_at_rest [OF r] f s2]) (use rest in simp_all)
  moreover have "(sk_ctx s)\<lparr>cx_locked := False\<rparr> = sk_ctx s" using rest by (cases "sk_ctx s") simp
  then have "?s2\<lparr>sk_ctx := (sk_ctx ?s2)\<lparr>cx_locked := False\<rparr>\<rparr> = s\<lparr>sk_wfd := (sk_wfd s)\<lparr>wf_handle := h\<rparr>\<rparr>"
    by (cases s) (simp add: locked_def)
  ultimately show ?thesis by (simp only: ctx_live(1) [OF s2]) (simp add: polled_def)
qed

lemma at_rest_polled:
  "at_rest i s w \<Longrightarrow> at_rest i (s\<lparr>sk_wfd := (sk_wfd s)\<lparr>wf_handle := h\<rparr>\<rparr>) (polled i s p h tr w)"
  "at_rest j s' w \<Longrightarrow> i \<noteq> j \<Longrightarrow> at_rest j s' (polled i s p h tr w)"
  by (simp_all add: at_rest_def)

lemma accept_task_law:
  assumes r: "accept_ready l a T w" and ls: "w_socks w l = Some ls"
  shows "\<exists>w' ls'. run_task E (Suc (Suc n)) l TkAccept w = Inr w' \<and> accept_ready l a T w' \<and>
     w_socks w' = (w_socks w)(l \<mapsto> ls') \<and> sk_s ls' = sk_s ls \<and> sk_worker ls' = sk_worker ls \<and>
     w_nsocks w' = w_nsocks w \<and> w_next w' = w_next w \<and>
     wf_handle (sk_wfd ls') = \<lparr>h_fd = sk_s ls, h_events = EPOLLIN\<rparr> \<and>
     interest (p_ep (wk_poller (w_workers w' ! sk_worker ls))) (w_trace w') (sk_s ls) = Some (HSock l, EPOLLIN)"
proof -
  from r ls have l: "at_rest l ls w" "sk_state ls = kNetSockStateAccepting" "sk_asock ls = Some a" "pollers_ok w"
    "sk_worker ls < length (w_workers w)" by (auto simp: accept_ready_def at_rest_def)
  let ?p = "poller_of ls w" and ?h = "\<lparr>h_fd = sk_s ls, h_events = EPOLLIN\<rparr>"
  obtain tr where t: "interest (p_ep ?p) tr (sk_s ls) = Some (HSock l, EPOLLIN)"
    "NetSocket_InternalTasks l (task_src TkAccept) kNetWorkerTaskExecute (w\<lparr>w_socks := (w_socks w)(l \<mapsto> locked ls)\<rparr>) =
      Inr (True, polled l (locked ls) ?p ?h tr (w\<lparr>w_socks := (w_socks w)(l \<mapsto> locked ls)\<rparr>))"
    using InternalTasks_accept [of "w\<lparr>w_socks := (w_socks w)(l \<mapsto> locked ls)\<rparr>" l "locked ls"] l(5) by auto
  let ?w = "polled l ls ?p ?h tr w"
  have "accept_ready l a T ?w"
    using r l pollers_ok_polled [of w ?p l ls ?h tr] at_rest_polled(1) [OF l(1), of ?h ?p tr] at_rest_polled(2) [of _ _ w l ls ?p ?h tr]
    unfolding accept_ready_def device_up_def polled_simps(1-4,9) polled_tasks
    by (fastforce simp: pollers_ok_def)
  moreover have "wk_poller (w_workers ?w ! sk_worker ls) = ?p" using l(5) by (simp add: polled_def)
  ultimately show ?thesis
    using internal_task_section [OF l(1) t(2)] t(1)
    by (intro exI [of _ ?w] exI [of _ "ls\<lparr>sk_wfd := (sk_wfd ls)\<lparr>wf_handle := ?h\<rparr>\<rparr>"]) simp
qed

end
