(* ===== verification/Netpreserve.thy ===== *)
theory Netpreserve
  imports Netroutine "HOL-Library.Sublist"
begin

text \<open>
  What every operation of the process keeps. \<open>world_pred\<close> is the interface of a state
  predicate that does not look at logs and memory, survives more system calls in the trace and
  a change of a worker or a socket that leaves their queues alone, and every
  operation on the queues: pushing, popping, ordering a task with a signal, and exchanging a queue for an empty one
  while a local variable holds its items. The lemmas of the locale carry such a predicate through every
  operation below the device; \<open>device_pred\<close> adds what the device changes, and carries it
  through the handlers and the critical sections; \<open>thread_pred\<close> adds the exchange of a worker's tasks, and
  carries it through the worker's loop. The predicate has
  the queues that are held in local variables as its first argument.
\<close>

section \<open>Queues and their places\<close>

text \<open>The queues of the process: tasks of worker \<open>k\<close>, the two event queues of the context of socket \<open>c\<close>, messages of socket \<open>i\<close>.\<close>

datatype place = Tasks nat | Events nat | Eventsto nat | Msgs nat

fun get_place :: "place \<Rightarrow> world \<Rightarrow> qitem netqueue res" where
  "get_place (Tasks k) = get_tasks k"
| "get_place (Events c) = get_events c"
| "get_place (Eventsto c) = get_eventsto c"
| "get_place (Msgs i) = get_msgq i"

fun put_place :: "place \<Rightarrow> qitem netqueue \<Rightarrow> world \<Rightarrow> world res" where
  "put_place (Tasks k) = put_tasks k"
| "put_place (Events c) = put_events c"
| "put_place (Eventsto c) = put_eventsto c"
| "put_place (Msgs i) = put_msgq i"

text \<open>Queues in local variables, with the place each was taken from.\<close>

type_synonym held = "nat \<rightharpoonup> place \<times> qitem netqueue"

text \<open>The items that belong in a place, and the items of objects that have been made.\<close>

fun suits :: "place \<Rightarrow> qitem \<Rightarrow> bool" where
  "suits (Tasks k) (TaskItem i t) = True"
| "suits (Tasks k) (StopItem j) = (j = k)"
| "suits (Events c) (EvItem e) = True"
| "suits (Eventsto c) (EvItem e) = True"
| "suits (Msgs i) (MsgItem k) = True"
| "suits _ _ = False"

fun known :: "qitem \<Rightarrow> world \<Rightarrow> bool" where
  "known (EvItem (SockEv i k)) w = (i < w_nsocks w)"
| "known (EvItem (StoppedEv (FSock i))) w = (i < w_nsocks w)"
| "known (EvItem (StoppedEv FDevice)) w = True"
| "known (TaskItem i t) w = (i < w_nsocks w)"
| "known (StopItem k) w = True"
| "known (MsgItem k) w = (k < w_nwraps w)"

text \<open>The queues that only their socket uses, and the section of a worker that takes a new task: push and signal.\<close>

fun local :: "place \<Rightarrow> bool" where
  "local (Tasks k) = False"
| "local d = True"

definition order_task :: "env \<Rightarrow> nat \<Rightarrow> qitem \<Rightarrow> world \<Rightarrow> world res" where
  "order_task E k x w = andThen (push_on x (get_tasks k) (put_tasks k) w) (signal_worker E k)"

text \<open>A change of a socket that leaves its worker and its queues alone and keeps its state in range.\<close>

definition calm :: "netsock \<Rightarrow> netsock \<Rightarrow> bool" where
  [simp]: "calm s s' \<longleftrightarrow>
     sk_worker s' = sk_worker s \<and> sk_msgq s' = sk_msgq s \<and>
     cx_events (sk_ctx s') = cx_events (sk_ctx s) \<and> cx_eventsto (sk_ctx s') = cx_eventsto (sk_ctx s) \<and>
     (sk_state s' = sk_state s \<or> 0 \<le> sk_state s' \<and> sk_state s' \<le> kNetSockStateAcceptingError)"

text \<open>The first part of \<open>NetDevice::Init\<close>, before the listener is started, is made from objects that nobody uses yet.\<close>

definition init_objects :: "env \<Rightarrow> world \<Rightarrow> (nat \<times> world) res" where
  "init_objects E w =
     andThen (NetPool_Init E w) (\<lambda>(_, w).
     andThen (NetFsm_Init FDevice (- 1) DeviceHandlers None None w) (\<lambda>w.
     let w = upd_dev (dv_ip_update (\<lambda>_. u_Token2Ip (env_user E) (- 1))) w;
         l = dv_listen (w_dev w) in
     andThen (NetSocket_Init l kNetDeviceSrcSocketEvent FDevice (dv_ip (w_dev w)) w) (\<lambda>w. Inr (l, w))))"

lemma Init_split:
  "NetDevice_Init E run w =
     andThen (init_objects E w) (\<lambda>(l, w).
     andThen (NetSocket_Start E run l AF_INET SOCK_STREAM 0 w) (\<lambda>(_, w).
     andThen (NetSocket_Bind E l w) (\<lambda>(_, w).
     andThen (NetSocket_Listen E run l kListenBacklog w) (\<lambda>(_, w).
     NetDevice_PairListenSocket E run w))))"
  by (simp add: NetDevice_Init_def init_objects_def Let_def andThen_assoc split_def)

section \<open>Traces grow\<close>

text \<open>The system calls of an operation come in front of those that were made before.\<close>

lemma suffix_sys: "suffix tr0 tr \<Longrightarrow> suffix tr0 (c # tr)"
  by (rule suffix_ConsI)

lemma descriptor_grows:
  "NetCloseFd os f tr = Inr tr' \<Longrightarrow> suffix tr tr'"
  "NetEventFd_Signal os f tr = Inr tr' \<Longrightarrow> suffix tr tr'"
  "NetEventFd_Unsignal os f tr = Inr tr' \<Longrightarrow> suffix tr tr'"
  by (auto simp: NetCloseFd_def NetEventFd_Signal_def NetEventFd_Unsignal_def CHECK_def Let_def andThen_eq_Inr_iff
      intro: suffix_ConsI split: if_splits)

lemma poller_grows:
  "NetPoller_Add p f hp h tr = (h', tr') \<Longrightarrow> suffix tr tr'"
  "NetPoller_Rm p hp h tr = Inr (p', tr') \<Longrightarrow> suffix tr tr'"
  "NetPoller_SetIn p hp h tr = (h', tr') \<Longrightarrow> suffix tr tr'"
  "NetPoller_ResetIn p hp h tr = Inr (p', h', tr') \<Longrightarrow> suffix tr tr'"
  "NetPoller_SetOut p hp h tr = (h', tr') \<Longrightarrow> suffix tr tr'"
  "NetPoller_ResetOut p hp h tr = Inr (p', h', tr') \<Longrightarrow> suffix tr tr'"
  by (auto simp: NetPoller_Add_def NetPoller_Rm_def NetPoller_SetIn_def NetPoller_ResetIn_def NetPoller_SetOut_def
      NetPoller_ResetOut_def Let_def andThen_eq_Inr_iff intro: suffix_ConsI split: if_splits)

lemma wait_loop_grows: "wait_loop os ep timeout tr = Some x \<Longrightarrow> suffix tr (snd x)"
  by (erule wait_loop.raw_induct [where P = "\<lambda>os ep timeout tr x. suffix tr (snd x)", rotated])
    (force simp: Let_def suffix_Cons split: if_splits dest: suffix_ConsD)

lemma Wait_grows: "NetPoller_Wait os timeout p tr = Inr (rc, p', tr') \<Longrightarrow> suffix tr tr'"
  by (auto simp: NetPoller_Wait_def Let_def andThen_eq_Inr_iff split: option.splits dest: wait_loop_grows)

lemma SendRaw_grows: "NetSocket_SendRaw os mem s tr = (rc, s', tr') \<Longrightarrow> suffix tr tr'"
  by (auto simp: NetSocket_SendRaw_def send_header_def send_payload_def write_some_def Let_def
      split: prod.splits if_splits intro: suffix_ConsI)

lemma RecvRaw_grows: "NetSocket_RecvRaw os u mem s tr = (rc, s', mem', tr') \<Longrightarrow> suffix tr tr'"
  by (auto simp: NetSocket_RecvRaw_def recv_header_def recv_payload_def read_some_def Let_def
      split: prod.splits if_splits intro: suffix_ConsI)

section \<open>The interface\<close>

locale world_pred =
  fixes P :: "held \<Rightarrow> world \<Rightarrow> bool"
  assumes frame: "P L w \<Longrightarrow> suffix (w_trace w) (w_trace w') \<Longrightarrow> w_workers w' = w_workers w \<Longrightarrow> w_socks w' = w_socks w \<Longrightarrow> w_nsocks w' = w_nsocks w \<Longrightarrow>
      w_next w' = w_next w \<Longrightarrow> w_nwraps w' = w_nwraps w \<Longrightarrow> w_cur_worker w' = w_cur_worker w \<Longrightarrow> w_dev w' = w_dev w \<Longrightarrow> P L w'"
    and worker: "P L w \<Longrightarrow> k < length (w_workers w) \<Longrightarrow> wk_tasks wk = wk_tasks (w_workers w ! k) \<Longrightarrow>
      wk_efd wk = wk_efd (w_workers w ! k) \<Longrightarrow> P L (w\<lparr>w_workers := (w_workers w)[k := wk]\<rparr>)"
    and sock: "P L w \<Longrightarrow> w_socks w i = Some s \<Longrightarrow> calm s s' \<Longrightarrow> P L (w\<lparr>w_socks := (w_socks w)(i \<mapsto> s')\<rparr>)"
    and machine: "P L w \<Longrightarrow> P L (upd_dev (dv_fsm_update g) w)"
    and cur: "P L w \<Longrightarrow> 0 \<le> c \<Longrightarrow> c < int kNetWorkerNum \<Longrightarrow> P L (w\<lparr>w_cur_worker := c\<rparr>)"
    and made: "P L w \<Longrightarrow> w_socks w i = Some s \<Longrightarrow> i < w_nsocks w"
    and push: "P L w \<Longrightarrow> local d \<Longrightarrow> suits d x \<Longrightarrow> known x w \<Longrightarrow> after (P L) (push_on x (get_place d) (put_place d) w)"
    and order: "P L w \<Longrightarrow> suits (Tasks k) x \<Longrightarrow> known x w \<Longrightarrow> after (P L) (order_task E k x w)"
    and pop: "P L w \<Longrightarrow> local d \<Longrightarrow> after (\<lambda>(x, w). P L w) (pop_from (get_place d) (put_place d) w)"
    and take: "P L w \<Longrightarrow> local d \<Longrightarrow> L j = None \<Longrightarrow> get_place d w = Inr q \<Longrightarrow>
      after (P (L(j \<mapsto> (d, q)))) (put_place d NetQueue_Init w)"
    and pop_held: "P L w \<Longrightarrow> local d \<Longrightarrow> L j = Some (d, q) \<Longrightarrow>
      after (\<lambda>(x, q', w). P (L(j := if x = None then None else Some (d, q'))) w) (pop_local q w)"
    and cleanup: "P L w \<Longrightarrow> after (P L) (NetWorker_Terminate_cleanup E k w)"
    and message: "P L w \<Longrightarrow> P L (w\<lparr>w_wraps := ws, w_nwraps := Suc (w_nwraps w),
      w_next := (w_next w)(MsgItem (w_nwraps w) := NOT_IN_QUEUE)\<rparr>)"
begin

section \<open>Sequencing\<close>

lemma seq: "after (P L) m \<Longrightarrow> (\<And>w. P L w \<Longrightarrow> after Q (k w)) \<Longrightarrow> after Q (andThen m k)"
  by (rule after_andThen)

lemma seqv:
  "after (\<lambda>(x, w). P L w) m \<Longrightarrow> (\<And>x w. P L w \<Longrightarrow> after Q (f x w)) \<Longrightarrow> after Q (andThen m (\<lambda>(x, w). f x w))"
  by (erule after_andThen) auto

lemma seqv3:
  "after (\<lambda>(x, y, w). P L w) m \<Longrightarrow> (\<And>x y w. P L w \<Longrightarrow> after Q (f x y w)) \<Longrightarrow>
   after Q (andThen m (\<lambda>(x, y, w). f x y w))"
  by (erule after_andThen) auto

lemma ret: "P L w \<Longrightarrow> after (P L) (Inr w)"
  by (rule after_Inr)

lemma retv: "P L w \<Longrightarrow> after (\<lambda>(x, w). P L w) (Inr (x, w))" "P L w \<Longrightarrow> after (\<lambda>(x, y, w). P L w) (Inr (x, y, w))"
  by (rule after_Inr, simp)+

lemma check: "P L w \<Longrightarrow> after (P L) (CHECK msg b w)" "P L w \<Longrightarrow> after (\<lambda>(x, w). P L w) (CHECK msg b (x, w))"
  by (rule after_CHECK, simp)+

lemma case_sys:
  "P L w \<Longrightarrow> (\<And>r w'. P L w' \<Longrightarrow> after Q (f r w')) \<Longrightarrow> after Q (case sys E c w of (r, w) \<Rightarrow> f r w)"
proof -
  assume w: "P L w" and f: "\<And>r w'. P L w' \<Longrightarrow> after Q (f r w')"
  from w have "P L (snd (sys E c w))" by (rule frame) (simp_all add: sys_def suffix_Cons)
  from f [OF this, of "fst (sys E c w)"] show ?thesis by (simp add: split_beta)
qed

lemmas reads = after_read [where 'a = netsock] after_read [where 'a = networker] after_read [where 'a = netfsm]
  after_read [where 'a = netevent] after_read [where 'a = nat] after_read [where 'a = bool] after_read [where 'a = int]
  after_read [where 'a = "qitem netqueue"] after_read [where 'a = trace] after_read [where 'a = "int \<times> trace"]
  after_read [where 'a = "npoller \<times> trace"] after_read [where 'a = "npoller \<times> phandle \<times> trace"]
  after_read [where 'a = fsmid] after_read [where 'a = netmsg] after_read [where 'a = "nat option"]
  after_read [where 'a = "qitem links"] after_read [where 'a = "qitem netqueue \<times> qitem links"]
  after_read [where 'a = "qitem option \<times> qitem netqueue \<times> qitem links"]
  after_read [where 'a = "int \<times> int \<times> trace"] after_read [where 'a = "int \<times> npoller \<times> trace"]
  after_read [where 'a = "int \<times> (int \<times> hptr) option \<times> npoller"] after_read [where 'a = unit]

lemmas steps = seq seqv seqv3 ret retv check reads case_sys after_Inl after_if after_option

section \<open>Primitive updates\<close>

lemma outside [simp]:
  "P L w \<Longrightarrow> suffix (w_trace w) tr \<Longrightarrow> P L (w\<lparr>w_trace := tr\<rparr>)" "P L w \<Longrightarrow> P L (w\<lparr>w_log := l\<rparr>)"
  "P L w \<Longrightarrow> P L (w\<lparr>w_mem := m\<rparr>)" "P L w \<Longrightarrow> P L (w\<lparr>w_wraps := ws\<rparr>)"
  "P L w \<Longrightarrow> suffix (w_trace w) tr \<Longrightarrow> P L (w\<lparr>w_mem := m, w_trace := tr\<rparr>)"
  "P L w \<Longrightarrow> suffix (w_trace w) tr \<Longrightarrow> P L (w\<lparr>w_trace := tr, w_mem := m\<rparr>)"
  by (erule frame; simp)+

lemma upd_sock_keeps: "(\<And>s. calm s (f s)) \<Longrightarrow> P L w \<Longrightarrow> after (P L) (upd_sock i f w)"
  unfolding upd_sock_def get_sock_def
  by (auto simp: after_def andThen_eq_Inr_iff simp del: calm_def split: option.splits intro: sock)

lemma upd_worker_keeps:
  "(\<And>wk. wk_tasks (f wk) = wk_tasks wk) \<Longrightarrow> (\<And>wk. wk_efd (f wk) = wk_efd wk) \<Longrightarrow> P L w \<Longrightarrow> after (P L) (upd_worker k f w)"
  unfolding upd_worker_def get_worker_def by (auto simp: after_def intro: worker)

lemma seq_get_sock:
  "P L w \<Longrightarrow> (\<And>s. w_socks w i = Some s \<Longrightarrow> after Q (g s)) \<Longrightarrow> after Q (andThen (get_sock i w) g)"
  by (auto simp: get_sock_def after_Inl split: option.split)

lemma set_state_keeps: "0 \<le> st \<Longrightarrow> st \<le> kNetSockStateAcceptingError \<Longrightarrow> P L w \<Longrightarrow> after (P L) (set_state i st w)"
  unfolding set_state_def by (rule upd_sock_keeps) simp_all

lemma close_fd_keeps: "P L w \<Longrightarrow> after (P L) (close_fd E f w)"
  by (auto simp: close_fd_def after_def andThen_eq_Inr_iff dest: descriptor_grows)

lemma bad_keeps:
  "P L w \<Longrightarrow> after (P L) (NetFsmBadAction i src type w)" "P L w \<Longrightarrow> after (P L) (NetFsmBadState i src type w)"
  "P L w \<Longrightarrow> after (P L) (NetFsmBadSource i src type w)"
  unfolding NetFsmBadAction_def NetFsmBadState_def NetFsmBadSource_def kLibMsgFsmError_def
  by (intro steps; simp)+

lemma pop_keeps:
  "P L w \<Longrightarrow> after (\<lambda>(x, w). P L w) (pop_from (get_events c) (put_events c) w)"
  "P L w \<Longrightarrow> after (\<lambda>(x, w). P L w) (pop_from (get_msgq i) (put_msgq i) w)"
  using pop [of L w "Events c"] pop [of L w "Msgs i"] by simp_all

section \<open>Workers\<close>

lemma unsignal_keeps: "P L w \<Longrightarrow> after (P L) (unsignal_worker E k w)"
  by (auto simp: unsignal_worker_def after_def andThen_eq_Inr_iff dest: descriptor_grows)

lemma Execute_keeps: "P L w \<Longrightarrow> i < w_nsocks w \<Longrightarrow> after (P L) (NetWorker_Execute E k i t w)"
  using order [of L w k "TaskItem i t"] by (simp add: NetWorker_Execute_def order_task_def)

lemma put_handle_keeps: "P L w \<Longrightarrow> suffix (w_trace w) tr \<Longrightarrow> after (P L) (put_handle i h tr w)"
  unfolding put_handle_def by (intro upd_sock_keeps; simp)

lemma put_poller_keeps: "P L w \<Longrightarrow> after (P L) (put_poller k p w)"
  unfolding put_poller_def by (rule upd_worker_keeps) simp_all

lemma after_poller:
  "(\<And>p' tr'. m2 = Inr (p', tr') \<Longrightarrow> after Q (f2 p' tr')) \<Longrightarrow> after Q (andThen m2 (\<lambda>(p', tr'). f2 p' tr'))"
  "(\<And>p' h' tr'. m3 = Inr (p', h', tr') \<Longrightarrow> after Q (f3 p' h' tr')) \<Longrightarrow> after Q (andThen m3 (\<lambda>(p', h', tr'). f3 p' h' tr'))"
  by (auto simp: after_def andThen_eq_Inr_iff)

lemma poll_keeps:
  "P L w \<Longrightarrow> after (P L) (NetWorker_AddFd k s i w)" "P L w \<Longrightarrow> after (P L) (NetWorker_RmFd k i w)"
  "P L w \<Longrightarrow> after (P L) (NetWorker_SetIn k i w)" "P L w \<Longrightarrow> after (P L) (NetWorker_ResetIn k i w)"
  "P L w \<Longrightarrow> after (P L) (NetWorker_SetOut k i w)" "P L w \<Longrightarrow> after (P L) (NetWorker_ResetOut k i w)"
  unfolding NetWorker_AddFd_def NetWorker_RmFd_def NetWorker_SetIn_def NetWorker_ResetIn_def
    NetWorker_SetOut_def NetWorker_ResetOut_def with_poller_def
  by (intro reads; auto intro!: seq put_poller_keeps put_handle_keeps after_poller dest: poller_grows split: prod.split)+

lemma ChooseWorker_keeps: "P L w \<Longrightarrow> after (\<lambda>(k, w). P L w \<and> k < kNetWorkerNum) (NetPool_ChooseWorker w)"
  unfolding NetPool_ChooseWorker_def Let_def by (intro after_if after_Inr after_Inl) (auto intro: cur)

section \<open>Machines and events\<close>

lemma upd_fsm_keeps: "P L w \<Longrightarrow> after (P L) (upd_fsm f g w)"
  unfolding upd_fsm_def by (cases f) (auto intro: machine after_Inr upd_sock_keeps)

lemma upd_event_keeps: "P L w \<Longrightarrow> after (P L) (upd_event e g w)"
  unfolding upd_event_def by (cases e) (auto intro: upd_fsm_keeps upd_sock_keeps)

text \<open>An event that has been filled in belongs to an object that has been made.\<close>

lemma upd_event_known: "P L w \<Longrightarrow> after (\<lambda>w. P L w \<and> known (EvItem e) w) (upd_event e g w)"
proof -
  assume w: "P L w"
  have keeps: "after (\<lambda>w. P L w \<and> i < w_nsocks w) (upd_sock i f w)" if "\<And>s. calm s (f s)" for i f
    using upd_sock_keeps [OF that w, of i] made [OF w, of i]
    by (auto simp: after_def upd_sock_def get_sock_def andThen_eq_Inr_iff simp del: calm_def split: option.splits)
  show ?thesis unfolding upd_event_def upd_fsm_def
    using w by (auto split: evid.split fsmid.split intro!: keeps after_Inr machine)
qed

lemma Raise_keeps:
  "P L w \<Longrightarrow> after (P L) (NetFsm_Raise f e type srcptr w)" "P L w \<Longrightarrow> after (P L) (NetFsm_RaiseTo f d e src type srcptr w)"
proof -
  assume w: "P L w"
  have "after (P L) (NetCtx_Raise c e v)" "after (P L) (NetCtx_RaiseTo c e v)" if "P L v \<and> known (EvItem e) v" for c v
    using that push [of L v "Events c" "EvItem e"] push [of L v "Eventsto c" "EvItem e"]
    by (simp_all add: NetCtx_Raise_def NetCtx_RaiseTo_def)
  then show "after (P L) (NetFsm_Raise f e type srcptr w)" "after (P L) (NetFsm_RaiseTo f d e src type srcptr w)"
    unfolding NetFsm_Raise_def NetFsm_RaiseTo_def
    by (intro reads after_andThen [OF upd_event_known [OF w]]; blast)+
qed

lemma set_fsm_state_keeps: "P L w \<Longrightarrow> after (P L) (set_fsm_state f st w)"
  unfolding set_fsm_state_def by (rule upd_fsm_keeps)

lemma Stopped_keeps:
  "P L w \<Longrightarrow> after (P L) (NetFsm_Stopped f type w)" "P L w \<Longrightarrow> after (P L) (NetFsm_StoppedNoEvent f w)"
  unfolding NetFsm_Stopped_def NetFsm_StoppedNoEvent_def by (intro steps Raise_keeps set_fsm_state_keeps; simp)+

section \<open>Operations of a socket\<close>

lemma InitFromFd_keeps: "P L w \<Longrightarrow> after (P L) (NetSocket_InitFromFd E i fd w)"
  unfolding NetSocket_InitFromFd_def Let_def
  by (intro steps upd_sock_keeps; (simp add: sys_def suffix_Cons)?)

text \<open>A machine called back keeps the predicate.\<close>

definition run_keeps :: "run \<Rightarrow> bool" where
  "run_keeps run \<longleftrightarrow> (\<forall>L sd f src type p w. P L w \<longrightarrow> after (P L) (run sd f src type p w))"

lemma run_keepsD: "run_keeps run \<Longrightarrow> P L w \<Longrightarrow> after (P L) (run sd f src type p w)"
  by (simp add: run_keeps_def)

lemma machine_keeps:
  "run_keeps run \<Longrightarrow> P L w \<Longrightarrow> after (P L) (NetFsm_Feed run f src type p w)"
  "run_keeps run \<Longrightarrow> P L w \<Longrightarrow> after (P L) (NetFsm_Action run f type w)"
  "run_keeps run \<Longrightarrow> P L w \<Longrightarrow> after (P L) (NetFsm_Start run f w)"
  "run_keeps run \<Longrightarrow> P L w \<Longrightarrow> after (P L) (NetFsm_Stop run f w)"
  unfolding NetFsm_Action_def NetFsm_Feed_def NetFsm_Start_def NetFsm_Stop_def NetFsm_Handle_def NetFsm_ShutdownHandle_def
  by (intro steps run_keepsD [of run] set_fsm_state_keeps; assumption)+

lemma Process_keeps: "run_keeps run \<Longrightarrow> P L w \<Longrightarrow> after (P L) (NetFsmEvent_Process run e w)"
  unfolding NetFsmEvent_Process_def by (intro steps upd_event_keeps machine_keeps; assumption)

lemma execute_task_keeps: "P L w \<Longrightarrow> after (P L) (execute_task E i t w)"
  unfolding execute_task_def by (rule seq_get_sock) (auto intro: Execute_keeps made)

lemma Start_keeps: "run_keeps run \<Longrightarrow> P L w \<Longrightarrow> after (\<lambda>(x, w). P L w) (NetSocket_Start E run i d t p w)"
  unfolding NetSocket_Start_def Let_def
  by (intro steps InitFromFd_keeps machine_keeps; assumption)

lemma StartFd_keeps: "run_keeps run \<Longrightarrow> P L w \<Longrightarrow> after (P L) (NetSocket_StartFd E run i fd w)"
  unfolding NetSocket_StartFd_def by (intro steps InitFromFd_keeps machine_keeps; assumption)

lemma Bind_keeps: "P L w \<Longrightarrow> after (\<lambda>(x, w). P L w) (NetSocket_Bind E i w)"
  unfolding NetSocket_Bind_def Let_def by (intro steps; assumption)

lemma Listen_keeps: "run_keeps run \<Longrightarrow> P L w \<Longrightarrow> after (\<lambda>(x, w). P L w) (NetSocket_Listen E run i b w)"
  unfolding NetSocket_Listen_def Let_def by (intro steps machine_keeps; assumption)

lemma Accept_keeps: "run_keeps run \<Longrightarrow> P L w \<Longrightarrow> after (P L) (NetSocket_Accept E run i l w)"
  unfolding NetSocket_Accept_def
  by (intro steps machine_keeps execute_task_keeps upd_sock_keeps; (assumption | simp))

lemma Connect_keeps: "run_keeps run \<Longrightarrow> P L w \<Longrightarrow> after (P L) (NetSocket_Connect E run i w)"
  unfolding NetSocket_Connect_def Let_def
  by (intro steps machine_keeps execute_task_keeps upd_sock_keeps; (assumption | simp))

lemma Activate_keeps: "run_keeps run \<Longrightarrow> P L w \<Longrightarrow> after (P L) (NetSocket_Activate run i w)"
  unfolding NetSocket_Activate_def by (rule machine_keeps)

lemma AsyncStop_keeps: "P L w \<Longrightarrow> after (P L) (NetSocket_AsyncStop E i w)"
  unfolding NetSocket_AsyncStop_def by (intro steps execute_task_keeps Raise_keeps; assumption)

lemma AsyncSendMsg_keeps: "P L w \<Longrightarrow> after (P L) (NetSocket_AsyncSendMsg E i m w)"
proof -
  assume w: "P L w"
  let ?w = "w\<lparr>w_wraps := (w_wraps w)(w_nwraps w \<mapsto> NetMsgWrapper_New m), w_nwraps := Suc (w_nwraps w),
      w_next := (w_next w)(MsgItem (w_nwraps w) := NOT_IN_QUEUE)\<rparr>"
  have "after (P L) (push_on (MsgItem (w_nwraps w)) (get_msgq i) (put_msgq i) ?w)"
    using push [OF message [OF w], of "Msgs i" "MsgItem (w_nwraps w)"] by simp
  then show ?thesis unfolding NetSocket_AsyncSendMsg_def Let_def NetQueueItem_Init_def
    by (rule seq) (rule execute_task_keeps)
qed

lemma Dequeue_keeps: "P L w \<Longrightarrow> after (\<lambda>(x, w). P L w) (NetSocket_DequeueNetMsgToBuf i w)"
  unfolding NetSocket_DequeueNetMsgToBuf_def
  by (intro steps pop_keeps)
    (auto split: qitem.split option.split intro!: steps upd_sock_keeps simp: load_msg_def)

lemma GetErr_keeps: "P L w \<Longrightarrow> after (\<lambda>(x, w). P L w) (NetSocket_GetErr E i w)"
  unfolding NetSocket_GetErr_def Let_def by (intro steps; assumption)

lemma SendRaw_worker: "NetSocket_SendRaw os mem s tr = (rc, s', tr') \<Longrightarrow>
   sk_worker s' = sk_worker (s :: netsock) \<and> sk_state s' = sk_state s \<and> sk_msgq s' = sk_msgq s \<and> sk_ctx s' = sk_ctx s"
  by (auto simp: NetSocket_SendRaw_def Let_def split: prod.splits if_splits)

lemma RecvRaw_worker:
  "NetSocket_RecvRaw os u mem s tr = (rc, s', mem', tr') \<Longrightarrow>
   sk_worker s' = sk_worker (s :: netsock) \<and> sk_state s' = sk_state s \<and> sk_msgq s' = sk_msgq s \<and> sk_ctx s' = sk_ctx s"
  by (auto simp: NetSocket_RecvRaw_def recv_header_def recv_payload_def Let_def split: prod.splits if_splits)

lemma sock_outside:
  assumes "P L w" and "suffix (w_trace w) tr" and "w_socks w i = Some s" and "sk_worker s' = sk_worker s \<and> sk_state s' = sk_state s \<and> sk_msgq s' = sk_msgq s \<and> sk_ctx s' = sk_ctx s"
  shows "P L (w\<lparr>w_trace := tr, w_socks := (w_socks w)(i \<mapsto> s')\<rparr>)"
    and "P L (w\<lparr>w_trace := tr, w_mem := m, w_socks := (w_socks w)(i \<mapsto> s')\<rparr>)"
  using sock [of L "w\<lparr>w_trace := tr\<rparr>" i s s'] sock [of L "w\<lparr>w_trace := tr, w_mem := m\<rparr>" i s s'] assms by simp_all

lemma raw_keeps:
  "P L w \<Longrightarrow> after (\<lambda>(x, w). P L w) (sock_SendRaw E i w)" "P L w \<Longrightarrow> after (\<lambda>(x, w). P L w) (sock_RecvRaw E i w)"
  unfolding sock_SendRaw_def sock_RecvRaw_def get_sock_def upd_sock_def
  by (auto simp: after_def andThen_eq_Inr_iff Let_def split: option.splits prod.splits
      intro!: sock_outside dest: SendRaw_worker RecvRaw_worker SendRaw_grows RecvRaw_grows)

lemma sock_poll_keeps:
  "P L w \<Longrightarrow> after (P L) (sock_AddFd i w)" "P L w \<Longrightarrow> after (P L) (sock_RmFd i w)" "P L w \<Longrightarrow> after (P L) (sock_SetIn i w)"
  "P L w \<Longrightarrow> after (P L) (sock_SetOut i w)" "P L w \<Longrightarrow> after (P L) (sock_ResetOut i w)" "P L w \<Longrightarrow> after (P L) (sock_close E i w)"
  unfolding sock_AddFd_def sock_RmFd_def sock_SetIn_def sock_SetOut_def sock_ResetOut_def sock_close_def
  by (intro steps poll_keeps close_fd_keeps upd_sock_keeps; (assumption | simp))+

lemma InternalTasks_keeps: "P L w \<Longrightarrow> after (\<lambda>(x, w). P L w) (NetSocket_InternalTasks i src type w)"
  unfolding NetSocket_InternalTasks_def Let_def by (intro steps sock_poll_keeps; assumption)

section \<open>The handlers of a socket\<close>

text \<open>The continuation \<open>k\<close> of a case is the code it runs on into.\<close>

lemma unexpected_keeps:
  assumes k: "\<And>w. P L w \<Longrightarrow> after (P L) (k w)" and w: "P L w"
  shows "after (P L) (unexpected_action i src type k w)" and "after (P L) (unexpected_source i src type k w)"
  unfolding unexpected_action_def unexpected_source_def
  by (rule seq, rule bad_keeps, rule w, erule k)+

lemma raise_keeps: "P L w \<Longrightarrow> after (P L) (raise_sock i e type p w)"
  unfolding raise_sock_def by (rule Raise_keeps)

lemma fd_error_keeps: "P L w \<Longrightarrow> after (P L) (fd_error E i w)"
  unfolding fd_error_def by (intro steps sock_poll_keeps set_state_keeps raise_keeps; (assumption | simp))

lemma shutdown_keeps:
  "P L w \<Longrightarrow> after (P L) (shutdown_finish2 i w)" "P L w \<Longrightarrow> after (P L) (shutdown_finish1 E i w)"
  unfolding shutdown_finish1_def shutdown_finish2_def
  by (intro steps sock_poll_keeps set_state_keeps Stopped_keeps; (assumption | simp))+

lemma shutdown_stop_keeps: "run_keeps run \<Longrightarrow> P L w \<Longrightarrow> after (P L) (shutdown_stop E run i w)"
  unfolding shutdown_stop_def
  by (intro steps shutdown_keeps set_state_keeps machine_keeps AsyncStop_keeps upd_sock_keeps; (assumption | simp))

lemma ShutdownHandler_keeps: "run_keeps run \<Longrightarrow> P L w \<Longrightarrow> after (P L) (NetSocketShutdownHandler E run i src type p w)"
  unfolding NetSocketShutdownHandler_def
  by (intro steps InternalTasks_keeps shutdown_stop_keeps shutdown_keeps sock_poll_keeps bad_keeps; assumption)

lemma connect_finished_keeps: "P L w \<Longrightarrow> after (P L) (connect_finished E i w)"
  unfolding connect_finished_def Let_def
  by (intro steps sock_poll_keeps set_state_keeps GetErr_keeps raise_keeps upd_sock_keeps; (assumption | simp))

lemma active_keeps:
  "P L w \<Longrightarrow> after (P L) (active_in E i w)" "P L w \<Longrightarrow> after (P L) (active_send E i w)"
  unfolding active_in_def active_send_def
  by (intro steps raw_keeps raise_keeps upd_sock_keeps; (assumption | simp))+

lemma active_out_keeps: "P L w \<Longrightarrow> after (P L) (active_out E i w)"
  unfolding active_out_def
  by (intro steps Dequeue_keeps active_keeps sock_poll_keeps upd_sock_keeps; (assumption | simp))

lemma hand_over_keeps: "P L w \<Longrightarrow> after (P L) (hand_over E i fd w)"
  unfolding hand_over_def get_asock_def
  by (intro steps InitFromFd_keeps set_state_keeps Raise_keeps upd_sock_keeps sock_poll_keeps; (assumption | simp))

lemma accept_keeps: "P L w \<Longrightarrow> after (P L) (accept_connection E i w)"
  unfolding accept_connection_def Let_def
  by (intro steps hand_over_keeps sock_poll_keeps raise_keeps upd_sock_keeps; (assumption | simp))

lemmas case_steps = steps unexpected_keeps set_state_keeps sock_poll_keeps raise_keeps execute_task_keeps
  AsyncStop_keeps connect_finished_keeps fd_error_keeps active_keeps active_out_keeps accept_keeps

lemma case_keeps:
  assumes k: "\<And>w. P L w \<Longrightarrow> after (P L) (k w)" and w: "P L w"
  shows "after (P L) (case_idle i src type k w)" and "after (P L) (case_starting i src type k w)"
    and "after (P L) (case_being_accepted i src type k w)" and "after (P L) (case_accepted i src type k w)"
    and "after (P L) (case_connecting E i src type k w)" and "after (P L) (case_active E i src type k w)"
    and "after (P L) (case_removing_fd E i src type k w)" and "after (P L) (case_listening i src type k w)"
    and "after (P L) (case_accepting E i src type k w)" and "after (P L) (case_accepting_error i src type k w)"
    and "run_keeps run \<Longrightarrow> after (P L) (case_cancelling run i src type k w)"
  unfolding case_idle_def case_starting_def case_being_accepted_def case_accepted_def case_connecting_def
    case_active_def case_removing_fd_def case_listening_def case_accepting_def case_accepting_error_def
    case_cancelling_def get_asock_def Let_def
  by ((intro case_steps machine_keeps; (assumption | rule w | erule k | simp))+)

lemma Handler_keeps: "run_keeps run \<Longrightarrow> P L w \<Longrightarrow> after (P L) (NetSocketHandler E run i src type p w)"
  unfolding NetSocketHandler_def from_idle_def from_starting_def from_being_accepted_def from_accepted_def
    from_connecting_def from_active_def from_removing_fd_def from_done_def from_listening_def from_accepting_def
    from_accepting_error_def from_cancelling_def from_default_def sock_state_def
  by (intro steps InternalTasks_keeps case_keeps bad_keeps; assumption)

end

section \<open>The device\<close>

text \<open>
  A predicate that also survives what the device does: making, owning, naming and
  deleting sockets, and its callbacks and completion queue.
\<close>

definition owned :: "nat \<Rightarrow> world \<Rightarrow> bool" where
  "owned i w \<longleftrightarrow> i \<in> set (dv_sock_sets (w_dev w))"

locale device_pred = world_pred P for P :: "held \<Rightarrow> world \<Rightarrow> bool" +
  assumes create: "P L w \<Longrightarrow> d = w_dev w \<or> d = dv_sock_sets_update (List.insert (w_nsocks w)) (w_dev w) \<Longrightarrow>
          after (\<lambda>w'. P L w' \<and> w_dev w' = d \<and> w_nsocks w < w_nsocks w')
            (NetSocket_Init (w_nsocks w) src owner a ((snd (new_sock w))\<lparr>w_dev := d\<rparr>))"
    and own: "P L w \<Longrightarrow> i < w_nsocks w \<Longrightarrow> P L (insert_sock i w)"
    and token_owned: "P L w \<Longrightarrow> (t, i) \<in> set (dv_token2sock (w_dev w)) \<Longrightarrow> owned i w"
    and name_sock: "P L w \<Longrightarrow> owned i w \<Longrightarrow> P L (emplace_sock t i w)"
    and delete: "P L w \<Longrightarrow> P L (w\<lparr>w_socks := (w_socks w)(i := None)\<rparr>)"
    and other_dev: "P L w \<Longrightarrow> dv_token2sock (f (w_dev w)) = dv_token2sock (w_dev w) \<Longrightarrow>
          dv_sock_sets (f (w_dev w)) = dv_sock_sets (w_dev w) \<Longrightarrow> P L (upd_dev f w)"
begin

lemma delete_keeps: "P L w \<Longrightarrow> after (P L) (delete_sock i w)"
  unfolding delete_sock_def by (intro reads ret delete)

lemma find_by_ip_owned:
  "P L w \<Longrightarrow> set m \<subseteq> set (dv_token2sock (w_dev w)) \<Longrightarrow>
   after (\<lambda>r. case r of None \<Rightarrow> True | Some i \<Rightarrow> owned i w) (find_by_ip a m w)"
proof (induction a m w rule: find_by_ip.induct)
  case (2 a t i rest w)
  then have "owned i w" by (auto intro: token_owned)
  with 2 show ?case by (auto simp: after_def andThen_eq_Inr_iff)
qed (simp add: after_def)

lemma new_socket_keeps:
  assumes "P L w"
  shows "after (\<lambda>w'. P L w' \<and> owned (w_nsocks w) w')
     (NetSocket_Init (w_nsocks w) src owner a (insert_sock (w_nsocks w) (snd (new_sock w))))"
proof -
  let ?d = "dv_sock_sets_update (List.insert (w_nsocks w)) (w_dev w)"
  have "insert_sock (w_nsocks w) (snd (new_sock w)) = (snd (new_sock w))\<lparr>w_dev := ?d\<rparr>"
    by (simp add: insert_sock_def upd_dev_def new_sock_def)
  moreover have "P L v \<and> w_dev v = ?d \<and> w_nsocks w < w_nsocks v \<Longrightarrow> P L v \<and> owned (w_nsocks w) v" for v
    by (simp add: owned_def)
  ultimately show ?thesis using after_mono [OF create [OF assms, of ?d src owner a]] by simp
qed

lemma route_keeps: "P L w \<Longrightarrow> after (\<lambda>(i, w). P L w) (route E token w)"
proof -
  assume w: "P L w"
  have new: "after (\<lambda>(i, w). P L w)
      (andThen (NetSocket_Init (w_nsocks w) kNetDeviceSrcSocketEvent FDevice a (insert_sock (w_nsocks w) (snd (new_sock w)))) (\<lambda>v.
       andThen (NetSocket_IsIdle (w_nsocks w) (emplace_sock token (w_nsocks w) v)) (\<lambda>idle.
       CHECK msg idle (w_nsocks w, emplace_sock token (w_nsocks w) v))))" for a msg
    by (rule after_andThen [OF new_socket_keeps [OF w]]) (intro reads check name_sock; simp)
  have found: "after (\<lambda>r. case r of None \<Rightarrow> True | Some i \<Rightarrow> owned i w) (find_by_ip a (dv_token2sock (w_dev w)) w)" for a
    by (rule find_by_ip_owned [OF w]) simp
  show ?thesis
    unfolding route_def Let_def
    by (cases "NetDevice_Token2Socket token w")
      (auto intro!: after_Inr after_andThen [OF found] name_sock w new [simplified new_sock_def snd_conv]
        simp: new_sock_def split: option.split)
qed

lemma SendMsg_keeps: "run_keeps run \<Longrightarrow> P L w \<Longrightarrow> after (\<lambda>(x, w). P L w) (NetDevice_SendMsg E run m w)"
  unfolding NetDevice_SendMsg_def NetSocket_IsIdle_def
  by (intro steps route_keeps Start_keeps Connect_keeps AsyncSendMsg_keeps; assumption)

lemma SendData_keeps: "run_keeps run \<Longrightarrow> P L w \<Longrightarrow> after (\<lambda>(x, w). P L w) (NetDevice_SendData E run s d w)"
  unfolding NetDevice_SendData_def Let_def by (intro steps SendMsg_keeps; assumption)

lemma callback_keeps: "P L w \<Longrightarrow> P L (emplace_callback t cb w)"
  unfolding emplace_callback_def by (auto intro: other_dev)

lemma ReadData_keeps: "run_keeps run \<Longrightarrow> P L w \<Longrightarrow> after (\<lambda>(x, w). P L w) (NetDevice_ReadData E run s d cb w)"
  unfolding NetDevice_ReadData_def Let_def by (intro SendMsg_keeps callback_keeps)

lemma ParseNetMsg_keeps: "run_keeps run \<Longrightarrow> P L w \<Longrightarrow> after (\<lambda>(x, w). P L w) (NetDevice_ParseNetMsg E run m w)"
  unfolding NetDevice_ParseNetMsg_def Let_def
  by (intro steps SendMsg_keeps other_dev; (assumption | simp))

lemma PairListenSocket_keeps: "run_keeps run \<Longrightarrow> P L w \<Longrightarrow> after (P L) (NetDevice_PairListenSocket E run w)"
proof -
  assume r: "run_keeps run" and w: "P L w"
  let ?i = "w_nsocks w" and ?w = "snd (new_sock w)"
  have "?w\<lparr>w_dev := w_dev w\<rparr> = ?w" by (simp add: new_sock_def)
  with create [OF w, of "w_dev w"]
  have init: "after (\<lambda>v. P L v \<and> w_dev v = w_dev w \<and> ?i < w_nsocks v) (NetSocket_Init ?i src owner a ?w)" for src owner a
    by simp
  have "after (P L) (andThen (NetSocket_Init ?i src owner a ?w) (\<lambda>v. NetSocket_Accept E run ?i (l v) (insert_sock ?i v)))"
    for src owner a l
    by (rule after_andThen [OF init], rule Accept_keeps [OF r], rule own) simp_all
  then show ?thesis
    unfolding NetDevice_PairListenSocket_def Let_def
    by (simp add: split_beta insert_sock_def upd_dev_def) (simp add: new_sock_def)
qed

lemma DeviceHandler_keeps: "run_keeps run \<Longrightarrow> P L w \<Longrightarrow> after (P L) (NetDeviceFsmHandler E run src type p w)"
  unfolding NetDeviceFsmHandler_def
  by (intro steps execute_task_keeps ParseNetMsg_keeps Activate_keeps PairListenSocket_keeps delete_keeps; assumption)

section \<open>Handlers, critical sections and the worker's loop\<close>

lemma handler_step_keeps: "run_keeps run \<Longrightarrow> run_keeps (handler_step E run)"
  unfolding run_keeps_def [of "handler_step E run"] handler_step_def NetDeviceFsmShutdownHandler_def
  by (intro allI impI reads)
    (auto split: handler.split fsmid.split
      intro: ShutdownHandler_keeps Handler_keeps DeviceHandler_keeps after_Inl after_Inr)

lemma dispatch_keeps: "run_keeps (dispatch E)"
proof -
  have "run_keeps (\<lambda>_ _ _ _ _ _. Inl FuelExhausted)" by (simp add: run_keeps_def after_Inl)
  then show ?thesis unfolding dispatch_eq [of E "\<lambda>_ _ _ _ _ _. Inl FuelExhausted"]
    by (intro handler_step_keeps)
qed

lemma lock_keeps: "P L w \<Longrightarrow> after (P L) (lock_ctx c w)" "P L w \<Longrightarrow> after (P L) (unlock_ctx c w)"
  unfolding lock_ctx_def unlock_ctx_def by (intro steps upd_sock_keeps; (assumption | simp))+

lemma after_item:
  "(\<And>e. x = Some (EvItem e) \<Longrightarrow> after Q (f e)) \<Longrightarrow> (x = None \<Longrightarrow> after Q m) \<Longrightarrow>
   after Q (case x of None \<Rightarrow> m | Some (EvItem e) \<Rightarrow> f e | Some _ \<Rightarrow> Inl err)"
  by (auto split: option.split qitem.split simp: after_Inl)

lemma process_events_keeps: "P L w \<Longrightarrow> after (P L) (process_events E n c w)"
proof (induction n arbitrary: w)
  case (Suc n)
  show ?case unfolding process_events.simps
    by (rule seqv [OF pop_keeps(1) [OF Suc.prems]])
      (intro after_item ret seq [OF Process_keeps [OF dispatch_keeps]] Suc.IH; assumption)
qed (simp add: after_Inl section_simps)

lemma pop_first:
  "P (L(j \<mapsto> (d, q))) w \<Longrightarrow> local d \<Longrightarrow>
   after (\<lambda>(x, q', w). P (L(j := if x = None then None else Some (d, q'))) w) (pop_local q w)"
  using pop_held [of "L(j \<mapsto> (d, q))" w d j q] by simp

lemma held_item:
  assumes pop: "after (\<lambda>(x, q', w). P (L(j := if x = None then None else Some (d, q'))) w) (pop_local q w)" and L: "L j = None"
    and stop: "\<And>q' w. P L w \<Longrightarrow> after Q (f (None, q', w))"
    and go: "\<And>x q' w. P (L(j \<mapsto> (d, q'))) w \<Longrightarrow> after Q (f (Some x, q', w))"
  shows "after Q (andThen (pop_local q w) f)"
proof (rule after_andThen [OF pop])
  fix r :: "qitem option \<times> qitem netqueue \<times> world"
  assume "case r of (x, q', w) \<Rightarrow> P (L(j := if x = None then None else Some (d, q'))) w"
  then show "after Q (f r)"
    using stop go L by (cases r; cases "fst r") (auto simp: fun_upd_idem)
qed

lemma process_external_keeps:
  assumes sec: "\<And>L c func w. (\<And>v. P L v \<Longrightarrow> after (P L) (func v)) \<Longrightarrow> P L w \<Longrightarrow> finite (dom L) \<Longrightarrow> after (P L) (section c func w)"
    and L: "L j = None" "finite (dom L)" and d: "local d"
  shows "P (L(j \<mapsto> (d, q))) w \<Longrightarrow> after (P L) (process_external E section n q w)"
proof (induction n arbitrary: q w)
  case (Suc n)
  have fin: "finite (dom (L(j \<mapsto> (d, q'))))" for q' using L(2) by simp
  show ?case unfolding process_external.simps
    by (rule held_item [OF pop_first [OF Suc.prems d] L(1)])
      (auto split: qitem.split simp: after_Inl
        intro!: ret reads seq [OF sec [OF Process_keeps [OF dispatch_keeps]]] Suc.IH fin)
qed (simp add: after_Inl section_simps)

lemma section_keeps:
  "(\<And>v. P L v \<Longrightarrow> after (P L) (func v)) \<Longrightarrow> P L w \<Longrightarrow> finite (dom L) \<Longrightarrow>
   after (P L) (NetCtx_ExecuteCriticalSection E n c func w)"
proof (induction n arbitrary: L c func w)
  case (Suc n)
  from Suc.prems(3) obtain j where j: "L j = None" using ex_new_if_finite [of "dom L"] by auto
  have out: "after (P L) (andThen (put_eventsto c NetQueue_Init v) (\<lambda>v. andThen (unlock_ctx c v)
      (process_external E (NetCtx_ExecuteCriticalSection E n) n q)))" if "P L v" "get_eventsto c v = Inr q" for v q
    using take [OF that(1) _ j, of "Eventsto c" q] that(2)
    by (intro seq [OF _ seq [OF lock_keeps(2) process_external_keeps [where d = "Eventsto c", OF Suc.IH j Suc.prems(3)]]]) simp_all
  have leave: "after (P L) (andThen (get_eventsto c v) (\<lambda>q. if NetQueue_Empty q = 1 then unlock_ctx c v
      else andThen (put_eventsto c NetQueue_Init v) (\<lambda>v. andThen (unlock_ctx c v)
        (process_external E (NetCtx_ExecuteCriticalSection E n) n q))))" if "P L v" for v
    by (rule after_read) (auto intro: lock_keeps out that)
  show ?case unfolding NetCtx_ExecuteCriticalSection.simps
    by (rule seq [OF lock_keeps(1) [OF Suc.prems(2)]], rule seq [OF Suc.prems(1)], assumption,
        rule seq [OF process_events_keeps], assumption, rule leave)
qed (simp add: after_Inl section_simps)

lemma run_task_keeps:
  "P L w \<Longrightarrow> finite (dom L) \<Longrightarrow> after (P L) (run_task E n i t w)"
  "P L w \<Longrightarrow> finite (dom L) \<Longrightarrow> after (P L) (run_fd E n i ev w)"
  unfolding run_task_def run_fd_def
  by (intro steps section_keeps machine_keeps dispatch_keeps; assumption)+

lemma worker_keeps:
  "P L w \<Longrightarrow> after (\<lambda>(x, y, w). P L w) (poller_event k w)"
  "P L w \<Longrightarrow> after (P L) (worker_wait E k w)"
  unfolding poller_event_def worker_wait_def
  by (auto intro!: reads seq ret retv put_poller_keeps dest: Wait_grows)

lemma stop_all_keeps: "P L w \<Longrightarrow> after (P L) (stop_all E is w)"
  by (induction "is" arbitrary: w) (auto intro!: ret seq AsyncStop_keeps)

lemma Init_keeps:
  assumes "after (\<lambda>(l, w). P L w) (init_objects E w)"
  shows "after (P L) (NetDevice_Init E (dispatch E) w)"
  unfolding Init_split
  by (intro seqv [OF assms] seqv Start_keeps Bind_keeps Listen_keeps PairListenSocket_keeps dispatch_keeps; assumption)

end

text \<open>
  A predicate may also survive that a worker takes the tasks of its queue, for the workers in \<open>W\<close>,
  and that it takes the next one of the tasks it holds, for the workers in \<open>V\<close>.
\<close>

locale thread_pred = device_pred P for P :: "held \<Rightarrow> world \<Rightarrow> bool" +
  fixes W V :: "nat set"
  assumes exchange: "P L w \<Longrightarrow> k \<in> W \<Longrightarrow> L j = None \<Longrightarrow> get_tasks k w = Inr q \<Longrightarrow>
      after (P (L(j \<mapsto> (Tasks k, q)))) (put_tasks k NetQueue_Init w)"
    and pop_task: "P L w \<Longrightarrow> k \<in> V \<Longrightarrow> L j = Some (Tasks k, q) \<Longrightarrow>
      after (\<lambda>(x, q', w). P (L(j := if x = None then None else Some (Tasks k, q'))) w) (pop_local q w)"
begin

lemma pop_own:
  "P (L(j \<mapsto> (Tasks k, q))) w \<Longrightarrow> k \<in> V \<Longrightarrow>
   after (\<lambda>(x, q', w). P (L(j := if x = None then None else Some (Tasks k, q'))) w) (pop_local q w)"
  using pop_task [of "L(j \<mapsto> (Tasks k, q))" w k j q] by simp

lemma discard_keeps: "k \<in> V \<Longrightarrow> P (L(j \<mapsto> (Tasks k, q))) w \<Longrightarrow> L j = None \<Longrightarrow> after (P L) (discard_tasks n q w)"
proof (induction n arbitrary: q w)
  case (Suc n)
  show ?case unfolding discard_tasks.simps
    by (rule held_item [OF pop_own [OF Suc.prems(2,1)] Suc.prems(3)]) (auto intro: ret Suc.IH [OF Suc.prems(1) _ Suc.prems(3)])
qed (simp add: after_Inl)

lemma run_tasks_keeps:
  assumes L: "L j = None" "finite (dom L)" and k: "k \<in> V"
  shows "P (L(j \<mapsto> (Tasks k, q))) w \<Longrightarrow> after (\<lambda>(x, w). P L w) (run_tasks E n m k q w)"
proof (induction m arbitrary: q w)
  case (Suc m)
  have fin: "finite (dom (L(j \<mapsto> (Tasks k, q'))))" for q' using L(2) by simp
  show ?case unfolding run_tasks.simps
    by (rule held_item [OF pop_own [OF Suc.prems k] L(1)])
      (auto split: qitem.split simp: after_Inl
        intro!: retv seq [OF discard_keeps [where L = L and j = j, OF k _ L(1)]] seq [OF run_task_keeps(1) [OF _ fin]] Suc.IH)
qed (simp add: after_Inl)

lemma swap_keeps:
  "P L w \<Longrightarrow> k \<in> W \<Longrightarrow> L j = None \<Longrightarrow> (\<And>q w. P (L(j \<mapsto> (Tasks k, q))) w \<Longrightarrow> after Q (f q w)) \<Longrightarrow>
   after Q (andThen (get_tasks k w) (\<lambda>q. andThen (put_tasks k NetQueue_Init w) (f q)))"
  by (rule after_read) (rule seq, use exchange [of L w k j] in auto)

lemma take_tasks_keeps: "k \<in> W \<Longrightarrow> k \<in> V \<Longrightarrow> P L w \<Longrightarrow> finite (dom L) \<Longrightarrow> after (\<lambda>(x, w). P L w) (take_tasks E n m k ev w)"
proof -
  assume k: "k \<in> W" "k \<in> V" and w: "P L w" and fin: "finite (dom L)"
  from fin obtain j where j: "L j = None" using ex_new_if_finite [of "dom L"] by auto
  show ?thesis unfolding take_tasks_def
    by (rule seq [OF check(1) [OF w]], rule seq [OF unsignal_keeps], assumption, rule swap_keeps [of L _ k j, OF _ k(1) j],
        assumption, rule run_tasks_keeps [OF j fin k(2)], assumption)
qed

lemma worker_events_keeps: "k \<in> W \<Longrightarrow> k \<in> V \<Longrightarrow> P L w \<Longrightarrow> finite (dom L) \<Longrightarrow> after (\<lambda>(x, w). P L w) (worker_events E n m k w)"
proof (induction m arbitrary: w)
  case (Suc m)
  show ?case unfolding worker_events.simps
    by (rule seqv3, rule worker_keeps, rule Suc)
      (auto split: option.split hptr.split intro!: retv seqv [OF take_tasks_keeps] seq [OF run_task_keeps(2)] Suc simp: after_Inl)
qed (simp add: after_Inl)

lemma pass_keeps: "k \<in> W \<Longrightarrow> k \<in> V \<Longrightarrow> P L w \<Longrightarrow> finite (dom L) \<Longrightarrow> after (\<lambda>(x, w). P L w) (NetWorkerRoutine_pass E n m k w)"
  unfolding NetWorkerRoutine_pass_def by (intro seq worker_keeps worker_events_keeps)

end

end
