(* ===== verification/Netplaces.thy ===== *)
theory Netplaces
  imports Netpreserve Netlaws
begin

text \<open>
  All queues of the process at once. Workers' task queues, the event queues of the contexts,
  the message queues of the sockets and the queues that local variables hold share the links
  of their items. \<open>intact\<close> says that they hold disjoint lists of the right items, and that a task that is marked as
  queued is in one of them; this survives every operation (an instance of the interface of
  \<open>Netpreserve\<close>).
\<close>

section \<open>The queues\<close>

fun place_queue :: "world \<Rightarrow> place \<Rightarrow> qitem netqueue" where
  "place_queue w (Tasks k) = (if k < length (w_workers w) then wk_tasks (w_workers w ! k) else NetQueue_Init)"
| "place_queue w (Events c) = (case w_socks w c of None \<Rightarrow> NetQueue_Init | Some s \<Rightarrow> cx_events (sk_ctx s))"
| "place_queue w (Eventsto c) = (case w_socks w c of None \<Rightarrow> NetQueue_Init | Some s \<Rightarrow> cx_eventsto (sk_ctx s))"
| "place_queue w (Msgs i) = (case w_socks w i of None \<Rightarrow> NetQueue_Init | Some s \<Rightarrow> sk_msgq s)"

text \<open>A queue is in a place or in a local variable.\<close>

datatype spot = In place | Var nat

fun queue_at :: "held \<Rightarrow> world \<Rightarrow> spot \<Rightarrow> qitem netqueue" where
  "queue_at L w (In d) = place_queue w d"
| "queue_at L w (Var j) = (case L j of None \<Rightarrow> NetQueue_Init | Some (d, q) \<Rightarrow> q)"

fun origin :: "held \<Rightarrow> spot \<Rightarrow> place option" where
  "origin L (In d) = Some d"
| "origin L (Var j) = map_option fst (L j)"

text \<open>No worker has been terminated.\<close>

definition staffed :: "world \<Rightarrow> bool" where
  "staffed w \<longleftrightarrow> - 1 \<notin> wk_efd ` set (w_workers w)"

definition lists_ok :: "held \<Rightarrow> world \<Rightarrow> (spot \<Rightarrow> qitem list) \<Rightarrow> bool" where
  "lists_ok L w ls \<longleftrightarrow>
     (\<forall>a. queue_rep (w_next w) (queue_at L w a) (ls a)) \<and>
     (\<forall>a b. a \<noteq> b \<longrightarrow> set (ls a) \<inter> set (ls b) = {}) \<and>
     (\<forall>a x. x \<in> set (ls a) \<longrightarrow> (\<exists>d. origin L a = Some d \<and> suits d x)) \<and>
     (\<forall>x. w_next w x \<noteq> NOT_IN_QUEUE \<longrightarrow> known x w) \<and>
     (staffed w \<longrightarrow> (\<forall>x. is_task x \<and> w_next w x \<noteq> NOT_IN_QUEUE \<longrightarrow> (\<exists>a. x \<in> set (ls a))))"

definition intact :: "held \<Rightarrow> world \<Rightarrow> bool" where
  "intact L w \<longleftrightarrow> (\<exists>ls. lists_ok L w ls)"

lemma intactI: "lists_ok L w ls \<Longrightarrow> intact L w"
  by (auto simp: intact_def)

lemma lists_okD:
  assumes "lists_ok L w ls"
  shows "queue_rep (w_next w) (queue_at L w a) (ls a)" and "a \<noteq> b \<Longrightarrow> set (ls a) \<inter> set (ls b) = {}"
    and "x \<in> set (ls a) \<Longrightarrow> \<exists>d. origin L a = Some d \<and> suits d x"
    and "w_next w x \<noteq> NOT_IN_QUEUE \<Longrightarrow> known x w"
    and "staffed w \<Longrightarrow> is_task x \<Longrightarrow> w_next w x \<noteq> NOT_IN_QUEUE \<Longrightarrow> \<exists>a. x \<in> set (ls a)"
  using assms by (simp_all add: lists_ok_def)

lemma known_mono: "known x w \<Longrightarrow> w_nsocks w \<le> w_nsocks w' \<Longrightarrow> w_nwraps w \<le> w_nwraps w' \<Longrightarrow> known x w'"
  by (cases "(x, w)" rule: known.cases) auto

text \<open>What the queues do not depend on.\<close>

lemma lists_ok_frame:
  assumes "lists_ok L w ls" and "\<And>d. place_queue w' d = place_queue w d" and "w_next w' = w_next w"
    and "w_nsocks w \<le> w_nsocks w'" and "w_nwraps w \<le> w_nwraps w'" and "map wk_efd (w_workers w') = map wk_efd (w_workers w)"
  shows "lists_ok L w' ls"
proof -
  have "queue_at L w' a = queue_at L w a" for a using assms(2) by (cases a) auto
  moreover have "staffed w' = staffed w" using arg_cong [OF assms(6), of set] by (simp add: staffed_def)
  ultimately show ?thesis using assms(1,3) known_mono [OF _ assms(4,5)] by (simp add: lists_ok_def)
qed

lemma intact_frame:
  "intact L w \<Longrightarrow> (\<And>d. place_queue w' d = place_queue w d) \<Longrightarrow> w_next w' = w_next w \<Longrightarrow> w_nsocks w \<le> w_nsocks w' \<Longrightarrow>
   w_nwraps w \<le> w_nwraps w' \<Longrightarrow> map wk_efd (w_workers w') = map wk_efd (w_workers w) \<Longrightarrow> intact L w'"
  unfolding intact_def using lists_ok_frame by blast

section \<open>Operations on one queue\<close>

lemma get_place_queue: "get_place d w = Inr q \<Longrightarrow> q = place_queue w d"
  by (cases d) (auto simp: get_tasks_def get_events_def get_eventsto_def get_msgq_def get_worker_def get_sock_def andThen_eq_Inr_iff
      split: option.splits if_splits)

lemma put_place_law:
  assumes "put_place d q w = Inr w'"
  shows "place_queue w' = (place_queue w)(d := q)" and "w_next w' = w_next w" and "w_nsocks w' = w_nsocks w"
    and "w_nwraps w' = w_nwraps w" and "map wk_efd (w_workers w') = map wk_efd (w_workers w)"
proof -
  show "place_queue w' = (place_queue w)(d := q)"
  proof
    fix e
    show "place_queue w' e = ((place_queue w)(d := q)) e"
      using assms by (cases d; cases e)
        (auto simp: put_tasks_def put_events_def put_eventsto_def put_msgq_def upd_worker_def upd_sock_def get_worker_def get_sock_def
          nth_list_update split: option.splits if_splits)
  qed
  show "w_next w' = w_next w" "w_nsocks w' = w_nsocks w" "w_nwraps w' = w_nwraps w"
    "map wk_efd (w_workers w') = map wk_efd (w_workers w)"
    using assms by (cases d; auto simp: put_tasks_def put_events_def put_eventsto_def put_msgq_def upd_worker_def upd_sock_def
        get_worker_def get_sock_def map_update list_update_same_conv split: option.splits if_splits)+
qed

text \<open>One queue changes, by a push of a fresh item or by a pop.\<close>

lemma lists_ok_change:
  assumes ls: "lists_ok L w ls" and a: "origin L' a = Some d" "\<And>b. b \<noteq> a \<Longrightarrow> origin L' b = origin L b"
    and q: "\<And>b. b \<noteq> a \<Longrightarrow> queue_at L' w' b = queue_at L w b" "queue_rep (w_next w') (queue_at L' w' a) xs"
    and others: "\<And>b. b \<noteq> a \<Longrightarrow> queue_rep (w_next w') (queue_at L w b) (ls b)"
    and xs: "\<And>b. b \<noteq> a \<Longrightarrow> set xs \<inter> set (ls b) = {}" "\<And>x. x \<in> set xs \<Longrightarrow> suits d x"
    and nx: "\<And>x. w_next w' x \<noteq> NOT_IN_QUEUE \<Longrightarrow> known x w'"
      "\<And>x. w_next w' x \<noteq> NOT_IN_QUEUE \<Longrightarrow> x \<notin> set xs \<Longrightarrow> w_next w x \<noteq> NOT_IN_QUEUE \<and> x \<notin> set (ls a)"
    and efd: "staffed w' = staffed w"
  shows "lists_ok L' w' (ls(a := xs))"
  unfolding lists_ok_def
proof (intro conjI allI impI)
  fix b show "queue_rep (w_next w') (queue_at L' w' b) ((ls(a := xs)) b)" using q others by (cases "b = a") auto
next
  fix b c :: spot assume "b \<noteq> c"
  then show "set ((ls(a := xs)) b) \<inter> set ((ls(a := xs)) c) = {}"
    using xs(1) lists_okD(2) [OF ls, of b c] by (cases "b = a"; cases "c = a") (auto simp: Int_commute)
next
  fix b x assume "x \<in> set ((ls(a := xs)) b)"
  then show "\<exists>d. origin L' b = Some d \<and> suits d x" using a xs(2) lists_okD(3) [OF ls, of x b] by (cases "b = a") auto
next
  fix x assume "w_next w' x \<noteq> NOT_IN_QUEUE" then show "known x w'" by (rule nx(1))
next
  fix x assume st: "staffed w'" and x: "is_task x \<and> w_next w' x \<noteq> NOT_IN_QUEUE"
  show "\<exists>b. x \<in> set ((ls(a := xs)) b)"
  proof (cases "x \<in> set xs")
    case False
    with nx(2) [of x] x have y: "w_next w x \<noteq> NOT_IN_QUEUE" "x \<notin> set (ls a)" by auto
    with lists_okD(5) [OF ls, of x] st x efd obtain b where "x \<in> set (ls b)" by auto
    with y(2) have "x \<in> set ((ls(a := xs)) b)" by (cases "b = a") auto
    then show ?thesis by blast
  qed (auto intro!: exI [of _ a])
qed

lemma intact_push:
  assumes w: "intact L w" and x: "suits d x" "known x w"
  shows "after (intact L) (push_on x (get_place d) (put_place d) w)"
proof (rule afterI)
  fix w' assume r: "push_on x (get_place d) (put_place d) w = Inr w'"
  from w obtain ls where ls: "lists_ok L w ls" by (auto simp: intact_def)
  from r obtain q q' nx where g: "get_place d w = Inr q" and p: "NetQueue_Push x q (w_next w) = Inr (q', nx)"
    and put: "put_place d q' (w\<lparr>w_next := nx\<rparr>) = Inr w'"
    by (auto simp: push_on_def andThen_eq_Inr_iff)
  note q = get_place_queue [OF g] and w' = put_place_law [OF put]
  have pq: "place_queue (w\<lparr>w_next := nx\<rparr>) = place_queue w" by (rule ext, rename_tac e, case_tac e) simp_all
  show "intact L w'"
  proof (cases "w_next w x = NOT_IN_QUEUE")
    case False
    with p have "q' = q" "nx = w_next w" by (simp_all add: NetQueue_Push_def)
    then show ?thesis using w' q pq by (intro intact_frame [OF w]) auto
  next
    case True
    have rep: "queue_rep (w_next w) q (ls (In d))" using lists_okD(1) [OF ls, of "In d"] q by simp
    with nq.push_fresh [of "w_next w" q "ls (In d)" x] True p have n: "queue_rep nx q' (ls (In d) @ [x])"
      "linked nx = insert x (linked (w_next w))"
      "\<And>q2 ys. queue_rep (w_next w) q2 ys \<Longrightarrow> set ys \<inter> set (ls (In d)) = {} \<Longrightarrow> queue_rep nx q2 ys" by auto
    have fresh: "x \<notin> set (ls b)" for b
      using queue_rep_linked [OF lists_okD(1) [OF ls, of b]] True by auto
    have link: "nx y \<noteq> NOT_IN_QUEUE \<longleftrightarrow> y = x \<or> w_next w y \<noteq> NOT_IN_QUEUE" for y
      using arg_cong [OF n(2), of "\<lambda>A. y \<in> A"] by auto
    have "lists_ok L w' (ls(In d := ls (In d) @ [x]))"
    proof (rule lists_ok_change [OF ls])
      show "queue_at L w' b = queue_at L w b" if "b \<noteq> In d" for b using that w'(1) pq by (cases b) auto
      show "queue_rep (w_next w') (queue_at L w' (In d)) (ls (In d) @ [x])" using n(1) w'(1,2) by simp
      show "queue_rep (w_next w') (queue_at L w b) (ls b)" if "b \<noteq> In d" for b
        using n(3) [OF lists_okD(1) [OF ls, of b] lists_okD(2) [OF ls that]] w'(2) by simp
      show "set (ls (In d) @ [x]) \<inter> set (ls b) = {}" if "b \<noteq> In d" for b
        using lists_okD(2) [OF ls that] fresh [of b] by auto
      show "suits d y" if "y \<in> set (ls (In d) @ [x])" for y using that x(1) lists_okD(3) [OF ls, of y "In d"] by auto
      show "known y w'" if "w_next w' y \<noteq> NOT_IN_QUEUE" for y
        using that x(2) lists_okD(4) [OF ls, of y] w'(2-4) link [of y] known_mono [of y w w'] by auto
      show "w_next w y \<noteq> NOT_IN_QUEUE \<and> y \<notin> set (ls (In d))" if "w_next w' y \<noteq> NOT_IN_QUEUE" "y \<notin> set (ls (In d) @ [x])" for y
        using that w'(2) link [of y] by auto
      show "staffed w' = staffed w" using arg_cong [OF w'(5), of set] by (simp add: staffed_def)
    qed simp_all
    then show ?thesis by (rule intactI)
  qed
qed

lemma lists_ok_pop:
  assumes ls: "lists_ok L w ls" and a: "ls a = y # ys" and d: "origin L' a = Some d" "\<And>b. origin L' b = origin L b"
    and pop: "NetQueue_Pop (queue_at L w a) (w_next w) = Inr (x, q', nx)"
    and q: "\<And>b. b \<noteq> a \<Longrightarrow> queue_at L' w' b = queue_at L w b" "queue_at L' w' a = q'"
    and w': "w_next w' = nx" "w_nsocks w' = w_nsocks w" "w_nwraps w' = w_nwraps w" "map wk_efd (w_workers w') = map wk_efd (w_workers w)"
  shows "lists_ok L' w' (ls(a := ys))" and "x = Some y"
proof -
  from nq.pop_cons [of "w_next w" "queue_at L w a" y ys] lists_okD(1) [OF ls, of a] a pop
  have n: "x = Some y" "queue_rep nx q' ys" "linked nx = linked (w_next w) - {y}"
    "\<And>q2 zs. queue_rep (w_next w) q2 zs \<Longrightarrow> y \<notin> set zs \<Longrightarrow> queue_rep nx q2 zs" by auto
  show "x = Some y" by (rule n(1))
  have dist: "y \<notin> set ys" using lists_okD(1) [OF ls, of a] a by (auto simp: queue_rep_def)
  have link: "nx z \<noteq> NOT_IN_QUEUE \<longleftrightarrow> z \<noteq> y \<and> w_next w z \<noteq> NOT_IN_QUEUE" for z
    using arg_cong [OF n(3), of "\<lambda>A. z \<in> A"] by auto
  show "lists_ok L' w' (ls(a := ys))"
  proof (rule lists_ok_change [where d = d, OF ls d(1) d(2) q(1)])
    show "queue_rep (w_next w') (queue_at L' w' a) ys" using n(2) q(2) w'(1) by simp
    show "queue_rep (w_next w') (queue_at L w b) (ls b)" if "b \<noteq> a" for b
      using n(4) [OF lists_okD(1) [OF ls, of b]] lists_okD(2) [OF ls that] a w'(1) by auto
    show "set ys \<inter> set (ls b) = {}" if "b \<noteq> a" for b using lists_okD(2) [OF ls that] a by auto
    show "suits d z" if "z \<in> set ys" for z using that a lists_okD(3) [OF ls, of z a] d by auto
    show "known z w'" if "w_next w' z \<noteq> NOT_IN_QUEUE" for z
      using that lists_okD(4) [OF ls, of z] w' link [of z] known_mono [of z w w'] by auto
    show "w_next w z \<noteq> NOT_IN_QUEUE \<and> z \<notin> set (ls a)" if "w_next w' z \<noteq> NOT_IN_QUEUE" "z \<notin> set ys" for z
      using that w'(1) link [of z] a by auto
    show "staffed w' = staffed w" using arg_cong [OF w'(4), of set] by (simp add: staffed_def)
  qed
qed

lemma pop_empty: "lists_ok L w ls \<Longrightarrow> ls a = [] \<Longrightarrow> NetQueue_Pop (queue_at L w a) nx = Inr (None, queue_at L w a, nx)"
  using lists_okD(1) [of L w ls a] by (simp add: queue_rep_def NetQueue_Pop_def)

lemma place_queue_next [simp]: "place_queue (w\<lparr>w_next := nx\<rparr>) = place_queue w"
  by (rule ext, rename_tac e, case_tac e) simp_all

lemma intact_pop:
  assumes w: "intact L w"
  shows "after (\<lambda>(x, w). intact L w) (pop_from (get_place d) (put_place d) w)"
proof (rule afterI)
  fix r assume r: "pop_from (get_place d) (put_place d) w = Inr r"
  from w obtain ls where ls: "lists_ok L w ls" by (auto simp: intact_def)
  from r obtain x q q' nx w' where g: "get_place d w = Inr q" and p: "NetQueue_Pop q (w_next w) = Inr (x, q', nx)"
    and put: "put_place d q' (w\<lparr>w_next := nx\<rparr>) = Inr w'" and r: "r = (x, w')"
    by (auto simp: pop_from_def andThen_eq_Inr_iff)
  note q = get_place_queue [OF g] and w' = put_place_law [OF put]
  have "intact L w'"
  proof (cases "ls (In d)")
    case Nil
    with pop_empty [OF ls, of "In d"] p q have "q' = q" "nx = w_next w" by simp_all
    then show ?thesis using w' q by (intro intact_frame [OF w]) auto
  next
    case (Cons y ys)
    have "queue_at L w' b = queue_at L w b" if "b \<noteq> In d" for b using that w'(1) by (cases b) auto
    then show ?thesis using lists_ok_pop(1) [OF ls Cons, of L d x q' nx w'] p q w' by (auto intro: intactI)
  qed
  with r show "case r of (x, w) \<Rightarrow> intact L w" by simp
qed

lemma intact_pop_held:
  assumes w: "intact L w" and j: "L j = Some (d, q)"
  shows "after (\<lambda>(x, q', w). intact (L(j := if x = None then None else Some (d, q'))) w) (pop_local q w)"
proof (rule afterI)
  fix r assume "pop_local q w = Inr r"
  then obtain x q' nx where p: "NetQueue_Pop q (w_next w) = Inr (x, q', nx)" and r: "r = (x, q', w\<lparr>w_next := nx\<rparr>)"
    by (auto simp: pop_local_def andThen_eq_Inr_iff)
  from w obtain ls where ls: "lists_ok L w ls" by (auto simp: intact_def)
  have "intact (L(j := if x = None then None else Some (d, q'))) (w\<lparr>w_next := nx\<rparr>)"
  proof (cases "ls (Var j)")
    case Nil
    with pop_empty [OF ls, of "Var j"] p j have n: "x = None" "nx = w_next w" by simp_all
    have "queue_rep (w_next w) (queue_at (L(j := None)) w a) (ls a)" for a
      using lists_okD(1) [OF ls, of a] Nil Init_rep [of "w_next w"] by (cases a) auto
    moreover have "\<exists>e. origin (L(j := None)) a = Some e \<and> suits e y" if "y \<in> set (ls a)" for a y
      using lists_okD(3) [OF ls that] Nil that by (cases a) auto
    ultimately have "lists_ok (L(j := None)) w ls" using ls by (simp add: lists_ok_def)
    with n show ?thesis by (auto intro: intactI)
  next
    case (Cons y ys)
    let ?L = "L(j \<mapsto> (d, q'))"
    have "queue_at ?L (w\<lparr>w_next := nx\<rparr>) b = queue_at L w b" if "b \<noteq> Var j" for b using that by (cases b) auto
    moreover have "origin ?L b = origin L b" for b using j by (cases b) auto
    ultimately have "lists_ok ?L (w\<lparr>w_next := nx\<rparr>) (ls(Var j := ys))" "x = Some y"
      using lists_ok_pop [OF ls Cons, of ?L d x q' nx "w\<lparr>w_next := nx\<rparr>"] p j by auto
    then show ?thesis by (auto intro: intactI)
  qed
  with r show "case r of (x, q', w) \<Rightarrow> intact (L(j := if x = None then None else Some (d, q'))) w" by simp
qed

lemma intact_take:
  assumes w: "intact L w" and j: "L j = None" and g: "get_place d w = Inr q"
  shows "after (intact (L(j \<mapsto> (d, q)))) (put_place d NetQueue_Init w)"
proof (rule afterI)
  fix w' assume put: "put_place d NetQueue_Init w = Inr w'"
  note q = get_place_queue [OF g] and w' = put_place_law [OF put]
  from w obtain ls where ls: "lists_ok L w ls" by (auto simp: intact_def)
  have empty: "ls (Var j) = []"
    using lists_okD(3) [OF ls, of _ "Var j"] j by (cases "ls (Var j)") auto
  let ?ls = "ls(In d := [], Var j := ls (In d))"
  have "lists_ok (L(j \<mapsto> (d, q))) w' ?ls"
    unfolding lists_ok_def
  proof (intro conjI allI impI)
    fix a show "queue_rep (w_next w') (queue_at (L(j \<mapsto> (d, q))) w' a) (?ls a)"
      using lists_okD(1) [OF ls, of a] lists_okD(1) [OF ls, of "In d"] w'(1,2) q Init_rep [of "w_next w"] by (cases a) auto
  next
    fix a b :: spot assume "a \<noteq> b"
    then show "set (?ls a) \<inter> set (?ls b) = {}"
      using lists_okD(2) [OF ls, of a b] lists_okD(2) [OF ls, of a "In d"] lists_okD(2) [OF ls, of "In d" b] by auto
  next
    fix a x assume "x \<in> set (?ls a)"
    then show "\<exists>e. origin (L(j \<mapsto> (d, q))) a = Some e \<and> suits e x"
      using lists_okD(3) [OF ls, of x a] lists_okD(3) [OF ls, of x "In d"] by (cases a) (auto split: if_splits)
  next
    fix x assume "w_next w' x \<noteq> NOT_IN_QUEUE"
    then show "known x w'" using lists_okD(4) [OF ls, of x] w'(2-4) known_mono [of x w w'] by auto
  next
    fix x assume "staffed w'" "is_task x \<and> w_next w' x \<noteq> NOT_IN_QUEUE"
    moreover have "staffed w' = staffed w" using arg_cong [OF w'(5), of set] by (simp add: staffed_def)
    ultimately obtain a where "x \<in> set (ls a)" using lists_okD(5) [OF ls, of x] w'(2) by auto
    with empty have "x \<in> set (?ls (if a = In d then Var j else a))" by (cases "a = Var j") auto
    then show "\<exists>a. x \<in> set (?ls a)" by blast
  qed
  then show "intact (L(j \<mapsto> (d, q))) w'" by (rule intactI)
qed

end
