(* ===== verification/Netthread.thy ===== *)
theory Netthread
  imports Netroutine
begin

text \<open>
  The thread of a worker in small steps. \<open>Netroutine\<close> runs a pass of the loop in one go;
  here the thread has a program point, and each step ends where other threads can come in
  between: the wait, the look at the next event, the exchange of the task queue under the
  worker's mutex, the look at the next task, and each critical section. A pass that nothing
  disturbs is a run of these steps.
\<close>

section \<open>Program points and steps\<close>

text \<open>
  \<open>Waiting\<close> is before \<open>poller_.Wait\<close>, \<open>Polling\<close> before \<open>poller_.Event\<close>; \<open>Waking\<close> has an event of
  the eventfd; \<open>Taking q\<close> goes on with the local queue \<open>tasks\<close>; \<open>Running\<close> and \<open>Handling\<close> are about to
  enter the critical section for a task or a descriptor; \<open>Discarding\<close> throws away what is behind
  the stop item; \<open>Returned\<close> is after the return.
\<close>

datatype thread =
    Waiting
  | Polling
  | Waking int
  | Taking "qitem netqueue"
  | Running nat tk "qitem netqueue"
  | Handling nat int
  | Discarding "qitem netqueue"
  | Returned

definition swap_tasks :: "env \<Rightarrow> nat \<Rightarrow> int \<Rightarrow> world \<Rightarrow> (qitem netqueue \<times> world) res" where
  "swap_tasks E k pevent w =
     andThen (CHECK ''pevent == kNetPollerIn'' (pevent = kNetPollerIn) w) (\<lambda>w.
     andThen (unsignal_worker E k w) (\<lambda>w.
     andThen (get_tasks k w) (\<lambda>q.
     andThen (put_tasks k NetQueue_Init w) (\<lambda>w. Inr (q, w)))))"

inductive thread_step :: "env \<Rightarrow> nat \<Rightarrow> thread \<Rightarrow> world \<Rightarrow> thread \<Rightarrow> world \<Rightarrow> bool" for E k where
  Wait: "worker_wait E k w = Inr w' \<Longrightarrow> thread_step E k Waiting w Polling w'"
| NoEvent: "poller_event k w = Inr (rc, None, w') \<Longrightarrow> thread_step E k Polling w Waiting w'"
| Wake: "poller_event k w = Inr (rc, Some (pevent, HEfd k), w') \<Longrightarrow> thread_step E k Polling w (Waking pevent) w'"
| Event: "poller_event k w = Inr (rc, Some (pevent, HSock i), w') \<Longrightarrow> thread_step E k Polling w (Handling i pevent) w'"
| Swap: "swap_tasks E k pevent w = Inr (q, w') \<Longrightarrow> thread_step E k (Waking pevent) w (Taking q) w'"
| NoTask: "pop_local q w = Inr (None, q', w') \<Longrightarrow> thread_step E k (Taking q) w Polling w'"
| Task: "pop_local q w = Inr (Some (TaskItem i t), q', w') \<Longrightarrow> thread_step E k (Taking q) w (Running i t q') w'"
| Stop: "pop_local q w = Inr (Some (StopItem k), q', w') \<Longrightarrow> thread_step E k (Taking q) w (Discarding q') w'"
| Run: "run_task E n i t w = Inr w' \<Longrightarrow> thread_step E k (Running i t q) w (Taking q) w'"
| Handle: "run_fd E n i pevent w = Inr w' \<Longrightarrow> thread_step E k (Handling i pevent) w Polling w'"
| Discard: "pop_local q w = Inr (Some x, q', w') \<Longrightarrow> thread_step E k (Discarding q) w (Discarding q') w'"
| Return: "pop_local q w = Inr (None, q', w') \<Longrightarrow> thread_step E k (Discarding q) w Returned w'"

inductive_cases thread_stepE: "thread_step E k t w t' w'"
inductive_simps thread_returned [simp]: "thread_step E k Returned w t' w'"
inductive_simps thread_waiting: "thread_step E k Waiting w t' w'"

inductive thread_run :: "env \<Rightarrow> nat \<Rightarrow> thread \<Rightarrow> world \<Rightarrow> thread \<Rightarrow> world \<Rightarrow> bool" for E k where
  Here: "thread_run E k t w t w"
| More: "thread_step E k t w t1 w1 \<Longrightarrow> thread_run E k t1 w1 t' w' \<Longrightarrow> thread_run E k t w t' w'"

section \<open>An undisturbed pass\<close>

lemma thread_run_trans:
  "thread_run E k t w t1 w1 \<Longrightarrow> thread_run E k t1 w1 t2 w2 \<Longrightarrow> thread_run E k t w t2 w2"
  by (induction rule: thread_run.induct) (auto intro: thread_run.More)

lemma discard_run: "discard_tasks n q w = Inr w' \<Longrightarrow> thread_run E k (Discarding q) w Returned w'"
proof (induction n arbitrary: q w)
  case (Suc n)
  then obtain x q1 w1 where p: "pop_local q w = Inr (x, q1, w1)"
    and rest: "(case x of None \<Rightarrow> Inr w1 | Some _ \<Rightarrow> discard_tasks n q1 w1) = Inr w'"
    by (auto simp: andThen_eq_Inr_iff)
  show ?case
  proof (cases x)
    case None
    with p rest have "thread_step E k (Discarding q) w Returned w'" by (auto intro: thread_step.Return)
    then show ?thesis by (rule thread_run.More [OF _ thread_run.Here])
  next
    case (Some y)
    with p have "thread_step E k (Discarding q) w (Discarding q1) w1" by (auto intro: thread_step.Discard)
    moreover have "thread_run E k (Discarding q1) w1 Returned w'" using Suc.IH rest Some by simp
    ultimately show ?thesis by (rule thread_run.More)
  qed
qed simp

abbreviation (input) goes_on :: "bool \<Rightarrow> thread \<Rightarrow> thread" where
  "goes_on stopped t \<equiv> (if stopped then Returned else t)"

lemma run_tasks_run:
  "run_tasks E n m k q w = Inr (stopped, w') \<Longrightarrow> thread_run E k (Taking q) w (goes_on stopped Polling) w'"
proof (induction m arbitrary: q w)
  case (Suc m)
  then obtain x q1 w1 where p: "pop_local q w = Inr (x, q1, w1)" by (auto simp: andThen_eq_Inr_iff)
  show ?case
  proof (cases x)
    case None
    with Suc.prems p have "thread_step E k (Taking q) w Polling w'" "\<not> stopped" by (auto intro: thread_step.NoTask)
    then show ?thesis by (auto intro: thread_run.intros)
  next
    case (Some item)
    show ?thesis
    proof (cases "item = StopItem k")
      case True
      with Suc.prems p Some have "discard_tasks m q1 w1 = Inr w'" "stopped" by (auto simp: andThen_eq_Inr_iff)
      moreover have "thread_step E k (Taking q) w (Discarding q1) w1" using p Some True by (auto intro: thread_step.Stop)
      ultimately show ?thesis using thread_run.More discard_run by simp
    next
      case False
      with Suc.prems p Some obtain i t w2 where t: "item = TaskItem i t" "run_task E n i t w1 = Inr w2"
        "run_tasks E n m k q1 w2 = Inr (stopped, w')"
        by (auto simp: andThen_eq_Inr_iff split: qitem.splits)
      have "thread_step E k (Taking q) w (Running i t q1) w1" using p Some t(1) by (auto intro: thread_step.Task)
      moreover have "thread_step E k (Running i t q1) w1 (Taking q1) w2" by (rule thread_step.Run [OF t(2)])
      ultimately show ?thesis using Suc.IH [OF t(3)] by (blast intro: thread_run.More)
    qed
  qed
qed simp

lemma take_tasks_run:
  assumes "take_tasks E n m k pevent w = Inr (stopped, w')"
  shows "thread_run E k (Waking pevent) w (goes_on stopped Polling) w'"
proof -
  from assms obtain q w1 where "swap_tasks E k pevent w = Inr (q, w1)" and r: "run_tasks E n m k q w1 = Inr (stopped, w')"
    by (fastforce simp: take_tasks_def swap_tasks_def andThen_eq_Inr_iff)
  then have "thread_step E k (Waking pevent) w (Taking q) w1" by (auto intro: thread_step.Swap)
  then show ?thesis by (rule thread_run.More) (rule run_tasks_run [OF r])
qed

lemma worker_events_run:
  "worker_events E n m k w = Inr (stopped, w') \<Longrightarrow> thread_run E k Polling w (goes_on stopped Waiting) w'"
proof (induction m arbitrary: w)
  case (Suc m)
  then obtain rc ev w1 where p: "poller_event k w = Inr (rc, ev, w1)" by (auto simp: andThen_eq_Inr_iff)
  show ?case
  proof (cases ev)
    case None
    with Suc.prems p have "thread_step E k Polling w Waiting w'" "\<not> stopped" by (auto intro: thread_step.NoEvent)
    then show ?thesis by (auto intro: thread_run.intros)
  next
    case (Some e)
    obtain pevent h where e: "e = (pevent, h)" by (cases e)
    show ?thesis
    proof (cases "h = HEfd k")
      case True
      with Suc.prems p Some e obtain st w2 where t: "take_tasks E n m k pevent w1 = Inr (st, w2)"
        and rest: "(if st then Inr (True, w2) else worker_events E n m k w2) = Inr (stopped, w')"
        by (auto simp: andThen_eq_Inr_iff)
      have "thread_step E k Polling w (Waking pevent) w1" using p Some e True by (auto intro: thread_step.Wake)
      then have "thread_run E k Polling w (goes_on st Polling) w2" by (rule thread_run.More) (rule take_tasks_run [OF t])
      with Suc.IH [of w2] rest show ?thesis by (auto intro: thread_run_trans split: if_splits)
    next
      case False
      with Suc.prems p Some e obtain i w2 where h: "h = HSock i" "run_fd E n i pevent w1 = Inr w2"
        "worker_events E n m k w2 = Inr (stopped, w')"
        by (auto simp: andThen_eq_Inr_iff split: hptr.splits)
      have "thread_step E k Polling w (Handling i pevent) w1" using p Some e h(1) by (auto intro: thread_step.Event)
      moreover have "thread_step E k (Handling i pevent) w1 Polling w2" by (rule thread_step.Handle [OF h(2)])
      ultimately show ?thesis using Suc.IH [OF h(3)] by (blast intro: thread_run.More)
    qed
  qed
qed simp

lemma pass_run:
  assumes "NetWorkerRoutine_pass E n m k w = Inr (stopped, w')"
  shows "thread_run E k Waiting w (if stopped then Returned else Waiting) w'"
proof -
  from assms obtain w1 where w1: "worker_wait E k w = Inr w1" "worker_events E n m k w1 = Inr (stopped, w')"
    by (auto simp: NetWorkerRoutine_pass_def andThen_eq_Inr_iff)
  show ?thesis by (rule thread_run.More [OF thread_step.Wait [OF w1(1)] worker_events_run [OF w1(2)]])
qed

end
