(* ===== verification/Netsystem.thy ===== *)
theory Netsystem
  imports Netplaces Netthread
begin

text \<open>
  The process as a transition system. The state is the program point of each worker's thread
  and the world they share. A step is a step of one of the threads, a call of
  the user (SendData, ReadData, polling or closing the completion queue), the
  destruction of the device, or one of the two halves of a worker's \<open>Terminate\<close>; the steps of different
  threads interleave. Consistency, the first invariant of the reachable states, is an interpretation
  of the interface of \<open>Netpreserve\<close>.
\<close>

section \<open>The initial state\<close>

text \<open>Before \<open>NetDevice::Init\<close>: four workers without descriptors, the listening socket (number 0), no map entries.\<close>

definition new_worker :: networker where
  "new_worker = \<lparr>wk_tasks = NetQueue_Init, wk_efd = - 1,
     wk_poller = \<lparr>p_ep = - 1, p_nevents = 0, p_index = 0, p_events = replicate 32 (HEfd 0, 0)\<rparr>,
     wk_efd_handle = \<lparr>h_fd = - 1, h_events = 0\<rparr>\<rparr>"

definition new_device :: netdevice where
  "new_device = \<lparr>dv_fsm = \<lparr>f_state = 0, f_src = 0, f_srcptr = PNull, f_owner = None, f_ctx = None,
                            f_stopped = NetFsmEvent_new, f_handlers = DeviceHandlers\<rparr>,
     dv_ip = \<lparr>sin_family = 0, sin_port = 0, s_addr = 0\<rparr>, dv_listen = 0, dv_token2sock = [],
     dv_token2callback = Map.empty, dv_sock_sets = [], dv_cq = Channel_new\<rparr>"

definition new_world :: "memory \<Rightarrow> world" where
  "new_world mem = \<lparr>w_next = (\<lambda>_. NOT_IN_QUEUE), w_socks = [0 \<mapsto> NetSocket_new], w_nsocks = 1,
     w_wraps = Map.empty, w_nwraps = 0, w_workers = replicate kNetWorkerNum new_worker, w_cur_worker = 0,
     w_dev = new_device, w_mem = mem, w_trace = [], w_log = []\<rparr>"

section \<open>Steps\<close>

type_synonym threads = "nat \<Rightarrow> thread"

inductive proc_step :: "env \<Rightarrow> threads \<times> world \<Rightarrow> threads \<times> world \<Rightarrow> bool" for E where
  Thread: "k < kNetWorkerNum \<Longrightarrow> thread_step E k (ts k) w t w' \<Longrightarrow> proc_step E (ts, w) (ts(k := t), w')"
| SendData: "NetDevice_SendData E (dispatch E) src dst w = Inr (rc, w') \<Longrightarrow> proc_step E (ts, w) (ts, w')"
| ReadData: "NetDevice_ReadData E (dispatch E) src dst cb w = Inr (rc, w') \<Longrightarrow> proc_step E (ts, w) (ts, w')"
| Poll: "NetDevice_PollCompletionQueue w = (fs, waiting, w') \<Longrightarrow> proc_step E (ts, w) (ts, w')"
| Close: "proc_step E (ts, w) (ts, NetDevice_CloseCompletionQueue w)"
| Destroy: "distinct js \<Longrightarrow> set js = set (dv_sock_sets (w_dev w)) \<Longrightarrow> NetDevice_destroy E js w = Inr w' \<Longrightarrow> proc_step E (ts, w) (ts, w')"
| Request: "k < kNetWorkerNum \<Longrightarrow> NetWorker_Terminate_request E k w = Inr w' \<Longrightarrow> proc_step E (ts, w) (ts, w')"
| Joined: "k < kNetWorkerNum \<Longrightarrow> ts k = Returned \<Longrightarrow> NetWorker_Terminate_cleanup E k w = Inr w' \<Longrightarrow> proc_step E (ts, w) (ts, w')"

text \<open>\<open>Init\<close> starts the threads before it returns; their first steps are taken to come after it.\<close>

inductive reachable :: "env \<Rightarrow> memory \<Rightarrow> threads \<times> world \<Rightarrow> bool" for E mem where
  Init: "NetDevice_Init E (dispatch E) (new_world mem) = Inr w \<Longrightarrow> reachable E mem (\<lambda>_. Waiting, w)"
| Step: "reachable E mem s \<Longrightarrow> proc_step E s s' \<Longrightarrow> reachable E mem s'"

inductive_cases proc_stepE: "proc_step E (ts, w) (ts', w')"

text \<open>A run of one thread, and so a whole pass of its loop, is a sequence of steps of the process.\<close>

lemma reachable_run:
  "thread_run E k t w t' w' \<Longrightarrow> k < kNetWorkerNum \<Longrightarrow> reachable E mem (ts, w) \<Longrightarrow> ts k = t \<Longrightarrow>
   reachable E mem (ts(k := t'), w')"
proof (induction arbitrary: ts rule: thread_run.induct)
  case (Here t w)
  then show ?case by (simp add: fun_upd_idem)
next
  case (More t w t1 w1 t' w')
  from More(4-6) More(1) have "reachable E mem (ts(k := t1), w1)" by (blast intro: reachable.Step proc_step.Thread)
  from More(3) [OF More(4) this] show ?case by (simp only: fun_upd_upd fun_upd_same)
qed

lemma reachable_pass:
  assumes "reachable E mem (ts, w)" and "k < kNetWorkerNum" and "ts k = Waiting"
    and "NetWorkerRoutine_pass E n m k w = Inr (stopped, w')"
  shows "reachable E mem (ts(k := if stopped then Returned else Waiting), w')"
  by (rule reachable_run [OF pass_run [OF assms(4)] assms(2,1,3)])

section \<open>What every step keeps\<close>

text \<open>The queue that a thread holds in its local variable \<open>tasks\<close>.\<close>

fun holds_queue :: "nat \<Rightarrow> thread \<Rightarrow> (place \<times> qitem netqueue) option" where
  "holds_queue k (Taking q) = Some (Tasks k, q)"
| "holds_queue k (Running i t q) = Some (Tasks k, q)"
| "holds_queue k (Discarding q) = Some (Tasks k, q)"
| "holds_queue k _ = None"

definition held_by :: "threads \<Rightarrow> held" where
  "held_by ts k = (if k < kNetWorkerNum then holds_queue k (ts k) else None)"

lemma held_by_upd: "k < kNetWorkerNum \<Longrightarrow> held_by (ts(k := t)) = (held_by ts)(k := holds_queue k t)"
  by (auto simp: held_by_def)

lemma held_by_finite: "finite (dom (held_by ts))"
  by (rule finite_subset [of _ "{..<kNetWorkerNum}"]) (auto simp: held_by_def split: if_splits)

text \<open>The step in which a thread takes the tasks of its worker.\<close>

fun exchanges :: "thread \<Rightarrow> thread \<Rightarrow> bool" where
  "exchanges (Waking p) (Taking q) = True"
| "exchanges _ _ = False"

text \<open>The steps in which a thread looks for the next one of the tasks it has taken.\<close>

fun pops :: "thread \<Rightarrow> bool" where
  "pops (Taking q) = True"
| "pops (Discarding q) = True"
| "pops _ = False"

context thread_pred begin

lemma thread_step_keeps:
  "thread_step E k t w t' w' \<Longrightarrow> (exchanges t t' \<Longrightarrow> k \<in> W) \<Longrightarrow> (pops t \<Longrightarrow> k \<in> V) \<Longrightarrow> finite (dom L) \<Longrightarrow> P (L(k := holds_queue k t)) w \<Longrightarrow> P (L(k := holds_queue k t')) w'"
proof (induction rule: thread_step.induct)
  case (Swap pevent w q w')
  let ?L = "L(k := None)"
  from Swap(5) have w: "P ?L w" by (simp only: holds_queue.simps)
  from Swap(2) have k: "k \<in> W" by simp
  have "after (\<lambda>(q, w). P (?L(k \<mapsto> (Tasks k, q))) w) (swap_tasks E k pevent w)"
    unfolding swap_tasks_def
    by (rule seq [OF check(1) [OF w]], rule seq [OF unsignal_keeps], assumption, rule swap_keeps [of ?L _ k k, OF _ k], assumption)
      (auto intro: after_Inr)
  from afterD [OF this Swap(1)] show ?case by (simp del: fun_upd_apply)
next
  case (Run n i t w w' q)
  from Run(4) have "finite (dom (L(k \<mapsto> (Tasks k, q))))" by simp
  from afterD [OF run_task_keeps(1) [OF _ this] Run(1)] Run(5) show ?case by (simp only: holds_queue.simps)
next
  case (Handle n i pevent w w')
  from Handle(4) have "finite (dom (L(k := None)))" by simp
  from afterD [OF run_task_keeps(2) [OF _ this] Handle(1)] Handle(5) show ?case by (simp only: holds_queue.simps)
qed (fastforce dest: afterD [OF worker_keeps(1)] afterD [OF worker_keeps(2)] afterD [OF pop_own])+

lemma Request_keeps: "P L w \<Longrightarrow> after (P L) (NetWorker_Terminate_request E k w)"
  using order [of L w k "StopItem k"] by (simp add: NetWorker_Terminate_request_def order_task_def)

lemma proc_step_keeps:
  "proc_step E (ts, w) (ts', w') \<Longrightarrow> (\<And>k. exchanges (ts k) (ts' k) \<Longrightarrow> k \<in> W) \<Longrightarrow>
   (\<And>k. k < kNetWorkerNum \<Longrightarrow> pops (ts k) \<Longrightarrow> thread_step E k (ts k) w (ts' k) w' \<Longrightarrow> k \<in> V) \<Longrightarrow> P (held_by ts) w \<Longrightarrow> P (held_by ts') w'"
proof (erule proc_stepE)
  fix k t
  assume "\<And>k. exchanges (ts k) (ts' k) \<Longrightarrow> k \<in> W" "\<And>k. k < kNetWorkerNum \<Longrightarrow> pops (ts k) \<Longrightarrow> thread_step E k (ts k) w (ts' k) w' \<Longrightarrow> k \<in> V"
    "P (held_by ts) w" "thread_step E k (ts k) w t w'" "k < kNetWorkerNum" "ts' = ts(k := t)"
  with thread_step_keeps [of E k "ts k" w t w' "held_by ts", OF _ _ _ held_by_finite] held_by_upd [of k ts "ts k"] held_by_upd [of k ts t]
  show "P (held_by ts') w'" by simp
next
  fix s d rc
  assume "P (held_by ts) w" "ts' = ts" "NetDevice_SendData E (dispatch E) s d w = Inr (rc, w')"
  with afterD [OF SendData_keeps [OF dispatch_keeps]] show "P (held_by ts') w'" by fastforce
next
  fix s d cb rc
  assume "P (held_by ts) w" "ts' = ts" "NetDevice_ReadData E (dispatch E) s d cb w = Inr (rc, w')"
  with afterD [OF ReadData_keeps [OF dispatch_keeps]] show "P (held_by ts') w'" by fastforce
next
  fix fs b
  assume "P (held_by ts) w" "ts' = ts" "NetDevice_PollCompletionQueue w = (fs, b, w')"
  then show "P (held_by ts') w'"
    by (auto simp: NetDevice_PollCompletionQueue_def split: prod.splits intro: other_dev)
next
  assume "P (held_by ts) w" "ts' = ts" "w' = NetDevice_CloseCompletionQueue w"
  then show "P (held_by ts') w'" by (auto simp: NetDevice_CloseCompletionQueue_def intro: other_dev)
next
  fix js
  assume "P (held_by ts) w" "ts' = ts" "NetDevice_destroy E js w = Inr w'"
  with afterD [OF stop_all_keeps] show "P (held_by ts') w'" by (auto simp: NetDevice_destroy_def)
next
  fix k
  assume "P (held_by ts) w" "ts' = ts" "NetWorker_Terminate_request E k w = Inr w'"
  with afterD [OF Request_keeps] show "P (held_by ts') w'" by fastforce
next
  fix k
  assume "P (held_by ts) w" "ts' = ts" "NetWorker_Terminate_cleanup E k w = Inr w'"
  with afterD [OF cleanup] show "P (held_by ts') w'" by fastforce
qed

lemma reachable_keeps:
  assumes "after (\<lambda>(l, w). P Map.empty w) (init_objects E (new_world mem))" and all: "W = UNIV" "V = UNIV"
  shows "reachable E mem s \<Longrightarrow> P (held_by (fst s)) (snd s)"
proof (induction rule: reachable.induct)
  case (Init w)
  have "held_by (\<lambda>_. Waiting) = Map.empty" by (auto simp: held_by_def)
  with afterD [OF Init_keeps [OF assms(1)] Init] show ?case by simp
next
  case (Step s s')
  then show ?case by (cases s; cases s') (auto intro: proc_step_keeps simp: all)
qed

end

section \<open>The invariant\<close>

definition world_ok :: "world \<Rightarrow> bool" where
  "world_ok w \<longleftrightarrow>
     length (w_workers w) = kNetWorkerNum \<and> 0 \<le> w_cur_worker w \<and> w_cur_worker w < int kNetWorkerNum \<and>
     (\<forall>i s. w_socks w i = Some s \<longrightarrow> sk_worker s < kNetWorkerNum \<and> i < w_nsocks w \<and>
        0 \<le> sk_state s \<and> sk_state s \<le> kNetSockStateAcceptingError) \<and>
     distinct (map fst (dv_token2sock (w_dev w))) \<and>
     (\<forall>(t, i) \<in> set (dv_token2sock (w_dev w)). i \<in> set (dv_sock_sets (w_dev w))) \<and>
     distinct (dv_sock_sets (w_dev w)) \<and> (\<forall>i \<in> set (dv_sock_sets (w_dev w)). i < w_nsocks w)"

lemma new_world_ok: "world_ok (new_world mem)"
  by (simp add: world_ok_def new_world_def new_device_def NetSocket_new_def)

text \<open>The queues do not matter to \<open>world_ok\<close>.\<close>

lemma world_ok_put: "world_ok w \<Longrightarrow> after world_ok (put_place d q w)"
  by (cases d) (auto simp: after_def put_tasks_def put_events_def put_eventsto_def put_msgq_def upd_worker_def upd_sock_def
      get_worker_def get_sock_def world_ok_def split: option.splits if_splits)

lemma world_ok_putD: "put_place d q w = Inr w' \<Longrightarrow> world_ok w \<Longrightarrow> world_ok w'"
  by (rule afterD [OF world_ok_put])

lemma world_ok_next [simp]: "world_ok (w\<lparr>w_next := nx\<rparr>) = world_ok w"
  by (simp add: world_ok_def)

lemma world_ok_queues:
  "world_ok w \<Longrightarrow> after world_ok (push_on x (get_place d) (put_place d) w)"
  "world_ok w \<Longrightarrow> after (\<lambda>(x, w). world_ok w) (pop_from (get_place d) (put_place d) w)"
  "world_ok w \<Longrightarrow> after (\<lambda>(x, q, w). world_ok w) (pop_local q w)"
  unfolding push_on_def pop_from_def pop_local_def
  by (auto simp: after_def andThen_eq_Inr_iff intro: world_ok_putD)

text \<open>A new socket, before and after it is owned.\<close>

lemma create_law:
  assumes "world_ok w"
  shows "NetSocket_Init (w_nsocks w) src owner a ((snd (new_sock w))\<lparr>w_dev := d\<rparr>) =
     Inr (w\<lparr>w_socks := (w_socks w)(w_nsocks w \<mapsto> init_sock (w_nsocks w) src owner a (nat (w_cur_worker w)) NetSocket_new),
        w_nsocks := Suc (w_nsocks w), w_dev := d, w_cur_worker := next_worker (w_cur_worker w),
        w_next := (\<lambda>x. if item_of (w_nsocks w) x then NOT_IN_QUEUE else w_next w x)\<rparr>)"
  using Socket_Init_law [of "(snd (new_sock w))\<lparr>w_dev := d\<rparr>" "w_nsocks w" NetSocket_new src owner a] assms
  by (simp add: new_sock_def world_ok_def cong: if_cong)

lemma next_worker_range: "0 \<le> c \<Longrightarrow> c < int kNetWorkerNum \<Longrightarrow> 0 \<le> next_worker c \<and> next_worker c < int kNetWorkerNum"
  by (simp add: next_worker_def)

lemma world_ok_create:
  assumes w: "world_ok w" and d: "d = w_dev w \<or> d = dv_sock_sets_update (List.insert (w_nsocks w)) (w_dev w)"
  shows "after (\<lambda>w'. world_ok w' \<and> w_dev w' = d \<and> w_nsocks w < w_nsocks w')
     (NetSocket_Init (w_nsocks w) src owner a ((snd (new_sock w))\<lparr>w_dev := d\<rparr>))"
  unfolding create_law [OF w] using w d next_worker_range [of "w_cur_worker w"]
  by (intro after_Inr) (auto simp: world_ok_def init_sock_def less_Suc_eq)

lemma world_ok_cleanup: "world_ok w \<Longrightarrow> after world_ok (NetWorker_Terminate_cleanup E k w)"
  by (auto simp: after_def NetWorker_Terminate_cleanup_def andThen_eq_Inr_iff upd_worker_def get_worker_def world_ok_def split: if_splits)

lemma signal_effect: "signal_worker E k w = Inr w' \<Longrightarrow> \<exists>tr. w' = w\<lparr>w_trace := tr\<rparr> \<and> suffix (w_trace w) tr"
  by (auto simp: signal_worker_def andThen_eq_Inr_iff dest: descriptor_grows)

lemma world_ok_order: "world_ok w \<Longrightarrow> after world_ok (order_task E k x w)"
  unfolding order_task_def using world_ok_queues(1) [of w x "Tasks k"]
  by (rule_tac after_andThen, simp) (auto simp: after_def world_ok_def dest!: signal_effect)

lemma world_ok_world: "world_pred (\<lambda>L. world_ok)"
proof (unfold_locales, goal_cases)
  case (1 L w w') then show ?case by (simp add: world_ok_def)
next
  case (2 L w k wk) then show ?case by (simp add: world_ok_def)
next
  case (3 L w i s s') then show ?case by (auto simp: world_ok_def)
next
  case (4 L w g) then show ?case by (simp add: world_ok_def)
next
  case (5 L w c) then show ?case by (simp add: world_ok_def)
next
  case (6 L w i s) then show ?case by (auto simp: world_ok_def)
next
  case (7 L w d x) from 7(1) show ?case by (rule world_ok_queues(1))
next
  case (8 L w k x E) then show ?case by (intro world_ok_order)
next
  case (9 L w d) then show ?case by (intro world_ok_queues(2))
next
  case (10 L w d j q) then show ?case by (intro world_ok_put)
next
  case (11 L w d j q) then show ?case by (intro world_ok_queues(3))
next
  case (12 L w E k) then show ?case by (rule world_ok_cleanup)
next
  case (13 L w ws) then show ?case by (simp add: world_ok_def)
qed

lemma world_ok_device: "device_pred (\<lambda>L. world_ok)"
proof (intro device_pred.intro world_ok_world, unfold_locales, goal_cases)
  case (1 L w d src owner a) then show ?case by (rule world_ok_create)
next
  case (2 L w i) then show ?case by (auto simp: world_ok_def insert_sock_def)
next
  case (3 L w t i) then show ?case by (auto simp: world_ok_def owned_def)
next
  case (4 L w i t) then show ?case by (auto simp: world_ok_def owned_def emplace_sock_def map_of_eq_None_iff)
next
  case (5 L w i) then show ?case by (auto simp: world_ok_def)
next
  case (6 L w f) then show ?case by (simp add: world_ok_def)
qed

interpretation inv: thread_pred "\<lambda>L. world_ok" UNIV UNIV
proof (intro thread_pred.intro world_ok_device, unfold_locales)
  fix L :: held and w k j q
  assume "world_ok w"
  then show "after world_ok (put_tasks k NetQueue_Init w)" "after (\<lambda>(x, q', w). world_ok w) (pop_local q w)"
    using world_ok_put [of w "Tasks k"] world_ok_queues(3) by simp_all
qed


section \<open>The first state\<close>

text \<open>Nothing is linked and nothing is owned, and the only socket is the listening one.\<close>

definition unused :: "world \<Rightarrow> bool" where
  "unused w \<longleftrightarrow> w_next w = (\<lambda>_. NOT_IN_QUEUE) \<and> w_socks w = [0 \<mapsto> NetSocket_new] \<and> w_nsocks w = 1 \<and>
     length (w_workers w) = kNetWorkerNum \<and> (\<forall>k < length (w_workers w). wk_tasks (w_workers w ! k) = NetQueue_Init) \<and>
     0 \<le> w_cur_worker w \<and> w_cur_worker w < int kNetWorkerNum \<and>
     dv_listen (w_dev w) = 0 \<and> dv_token2sock (w_dev w) = [] \<and> dv_sock_sets (w_dev w) = []"

lemma unused_worker:
  "unused w \<Longrightarrow> k < length (w_workers w) \<Longrightarrow> wk_tasks wk = NetQueue_Init \<Longrightarrow>
   unused (w\<lparr>w_trace := tr, w_next := (w_next w)(StopItem k := NOT_IN_QUEUE), w_workers := (w_workers w)[k := wk]\<rparr>)"
  "unused w \<Longrightarrow> k < length (w_workers w) \<Longrightarrow> wk_tasks wk = wk_tasks (w_workers w ! k) \<Longrightarrow>
   unused (w\<lparr>w_trace := tr, w_workers := (w_workers w)[k := wk]\<rparr>)"
  by (auto simp: unused_def nth_list_update)

lemma unused_upd_worker:
  "unused w \<Longrightarrow> (\<And>wk. wk_tasks (f wk) = NetQueue_Init) \<Longrightarrow>
   after unused (upd_worker k f (w\<lparr>w_trace := tr, w_next := (w_next w)(StopItem k := NOT_IN_QUEUE)\<rparr>))"
  "unused w \<Longrightarrow> (\<And>wk. wk_tasks (f wk) = wk_tasks wk) \<Longrightarrow> after unused (upd_worker k f (w\<lparr>w_trace := tr\<rparr>))"
  by (auto simp: after_def upd_worker_def get_worker_def intro: unused_worker)

lemma unused_Worker_Init: "unused w \<Longrightarrow> after (\<lambda>(x, w). unused w) (NetWorker_Init E k w)"
  unfolding NetWorker_Init_def Let_def split_def NetQueueItem_Init_def
  by (intro after_read after_if after_andThen [OF unused_upd_worker(1)] after_andThen [OF unused_upd_worker(2)])
    (auto intro: after_Inr)

lemma unused_pool: "unused w \<Longrightarrow> after (\<lambda>(x, w). unused w) (pool_init_from E ks ok w)"
proof (induction ks arbitrary: ok w)
  case (Cons k ks)
  show ?case unfolding pool_init_from.simps
    by (rule after_andThen [OF unused_Worker_Init [OF Cons.prems]]) (auto intro: Cons.IH)
qed (simp add: after_Inr)

lemma unused_Fsm_Init: "unused w \<Longrightarrow> after unused (NetFsm_Init FDevice src h owner ctx w)"
  by (auto simp: after_def NetFsm_Init_def NetFsmEvent_Init_def NetQueueItem_Init_def upd_event_def upd_fsm_def andThen_eq_Inr_iff
      unused_def upd_dev_def)

lemma unused_new: "unused (new_world mem)"
  by (simp add: unused_def new_world_def new_device_def new_worker_def)

lemma init_objects_law:
  fixes E :: env
  assumes P: "\<And>w k a. unused w \<Longrightarrow> P (w\<lparr>w_cur_worker := next_worker (w_cur_worker w),
      w_next := (\<lambda>_. NOT_IN_QUEUE), w_socks := [0 \<mapsto> init_sock 0 kNetDeviceSrcSocketEvent FDevice a (nat (w_cur_worker w)) NetSocket_new]\<rparr>)"
  shows "after (\<lambda>(l, w). P w) (init_objects E (new_world mem))"
proof -
  have start: "unused ((new_world mem)\<lparr>w_cur_worker := 0\<rparr>)" using unused_new [of mem] by (simp add: unused_def)
  have pool: "after (\<lambda>(x, w). unused w) (NetPool_Init E (new_world mem))"
    unfolding NetPool_Init_def by (rule after_andThen [OF unused_pool [OF start]]) (auto intro: after_Inr)
  have sock: "after (\<lambda>(l, w). P w) (andThen (NetSocket_Init (dv_listen (w_dev v)) kNetDeviceSrcSocketEvent FDevice a v) (\<lambda>w. Inr (l, w)))"
    if "unused v" for v a l
    using Socket_Init_law [of v 0 NetSocket_new kNetDeviceSrcSocketEvent FDevice a] P [OF that, of a] that
    by (auto simp: unused_def after_def cong: if_cong)
  have dev: "unused (upd_dev (dv_ip_update f) v)" if "unused v" for v f using that by (simp add: unused_def upd_dev_def)
  show ?thesis unfolding init_objects_def Let_def
    by (rule after_andThen [OF pool], rule after_prod, rule after_andThen [OF unused_Fsm_Init], simp, rule sock, rule dev, assumption)
qed

lemma world_ok_init: "after (\<lambda>(l, w). world_ok w) (init_objects E (new_world mem))"
proof (rule init_objects_law)
  fix w a assume "unused w"
  with next_worker_range [of "w_cur_worker w"]
  show "world_ok (w\<lparr>w_cur_worker := next_worker (w_cur_worker w), w_next := (\<lambda>_. NOT_IN_QUEUE),
      w_socks := [0 \<mapsto> init_sock 0 kNetDeviceSrcSocketEvent FDevice a (nat (w_cur_worker w)) NetSocket_new]\<rparr>)"
    by (auto simp: world_ok_def unused_def init_sock_def)
qed

lemma reachable_ok: "reachable E mem s \<Longrightarrow> world_ok (snd s)"
  by (rule inv.reachable_keeps [OF world_ok_init]) simp_all

end
