(* ===== verification/Netstart.thy ===== *)
theory Netstart
  imports Netaccept Netsystem
begin

text \<open>
  \<open>NetDevice::Init\<close> from the state of a new process, with a kernel that grants every
  call: the pool's workers, the listening socket and the first socket paired with it.
\<close>

section \<open>A kernel that grants the calls of the start\<close>

text \<open>
  The calls that make a descriptor return one, those that set flags, options and addresses return 0, a signal is
  written. What \<open>F_GETFL\<close> returns is left open: it is \<open>O_RDWR\<close> with more flags, or -1.
\<close>

definition opens_sockets :: "env \<Rightarrow> bool" where
  "opens_sockets E \<longleftrightarrow> (\<forall>tr. 0 \<le> socket_fd E tr)"

definition boots :: "env \<Rightarrow> bool" where
  "boots E \<longleftrightarrow>
     (\<forall>tr. 0 \<le> sr_ret (env_os E (Sys_eventfd # tr))) \<and> (\<forall>tr. 0 \<le> sr_ret (env_os E (Sys_epoll_create # tr))) \<and>
     (\<forall>tr f a. sr_ret (env_os E (Sys_fcntl f F_SETFD a # tr)) = 0) \<and> (\<forall>tr f a. sr_ret (env_os E (Sys_fcntl f F_SETFL a # tr)) = 0) \<and>
     (\<forall>tr f. sr_ret (env_os E (Sys_write f (le_bytes 8 1) # tr)) = 8) \<and> opens_sockets E \<and>
     (\<forall>tr f l n. sr_ret (env_os E (Sys_setsockopt f l n # tr)) = 0) \<and>
     (\<forall>tr f a. sr_ret (env_os E (Sys_bind f a # tr)) = 0) \<and> (\<forall>tr f n. sr_ret (env_os E (Sys_listen f n # tr)) = 0)"

lemma boots_grants: "boots E \<Longrightarrow> grants E" "boots E \<Longrightarrow> opens_sockets E"
  by (simp_all add: boots_def grants_def can_signal_def sets_flags_def)

section \<open>The pool\<close>

definition fresh_worker :: "networker \<Rightarrow> bool" where
  "fresh_worker wk \<longleftrightarrow> wk_tasks wk = NetQueue_Init \<and> poller_ok (wk_poller wk)"

text \<open>A worker that has its eventfd, and the call by which the kernel was asked to report it.\<close>

definition wired :: "nat \<Rightarrow> networker \<Rightarrow> trace \<Rightarrow> bool" where
  "wired k wk tr \<longleftrightarrow> 0 \<le> wk_efd wk \<and>
     Sys_epoll_ctl (p_ep (wk_poller wk)) EPOLL_CTL_MOD (wk_efd wk) (Some (HEfd k, EPOLLIN)) \<in> set tr"

lemma Worker_Init_law:
  assumes k: "k < length (w_workers w)" and f: "fresh_worker (w_workers w ! k)" and E: "boots E"
    and nx: "w_next w = (\<lambda>_. NOT_IN_QUEUE)"
  shows "\<exists>tr wk. NetWorker_Init E k w = Inr (0, w\<lparr>w_trace := tr, w_workers := (w_workers w)[k := wk]\<rparr>) \<and>
     fresh_worker wk \<and> wired k wk tr \<and> set (w_trace w) \<subseteq> set tr"
proof -
  have fc: "sr_ret (env_os E (Sys_fcntl f F_SETFD a # tr)) = 0" "sr_ret (env_os E (Sys_fcntl f F_SETFL a # tr)) = 0"
    and ge: "0 \<le> sr_ret (env_os E (Sys_eventfd # tr))" "0 \<le> sr_ret (env_os E (Sys_epoll_create # tr))" for f a tr
    using E by (simp_all add: boots_def)
  have ne: "sr_ret (env_os E (Sys_eventfd # tr)) \<noteq> - 1" "sr_ret (env_os E (Sys_epoll_create # tr)) \<noteq> - 1" for tr
    using ge [of tr] by linarith+
  have efd: "\<exists>efd tr. 0 \<le> efd \<and> NetEventFd_Init (env_os E) tr0 = Inr (0, efd, tr) \<and> set tr0 \<subseteq> set tr" for tr0
    by (auto simp: NetEventFd_Init_def Let_def fc ne ge)
  have pol: "\<exists>p tr. poller_ok p \<and> NetPoller_Init (env_os E) (wk_poller (w_workers w ! k)) tr0 = Inr (0, p, tr) \<and> set tr0 \<subseteq> set tr" for tr0
    using f by (auto simp: NetPoller_Init_def Let_def fc ne fresh_worker_def poller_ok_def)
  obtain efd tr where e: "0 \<le> efd" "NetEventFd_Init (env_os E) (w_trace w) = Inr (0, efd, tr)" "set (w_trace w) \<subseteq> set tr" using efd by blast
  obtain p tr1 where p: "poller_ok p" "NetPoller_Init (env_os E) (wk_poller (w_workers w ! k)) tr = Inr (0, p, tr1)" "set tr \<subseteq> set tr1"
    using pol by blast
  obtain h tr2 where h: "NetPoller_Add p efd (HEfd k) (wk_efd_handle (w_workers w ! k)) tr1 = (h, tr2)" by fastforce
  obtain h1 tr3 where h1: "NetPoller_SetIn p (HEfd k) h tr2 = (h1, tr3)" by fastforce
  have tr3: "Sys_epoll_ctl (p_ep p) EPOLL_CTL_MOD efd (Some (HEfd k, EPOLLIN)) \<in> set tr3" "set tr1 \<subseteq> set tr3"
    using h h1 by (auto simp: NetPoller_Add_def NetPoller_SetIn_def)
  have "NetQueueItem_Init (StopItem k) (w_next w) = w_next w" by (simp add: NetQueueItem_Init_def nx fun_upd_idem)
  with e p h h1 k tr3 show ?thesis
    by (intro exI [of _ tr3] exI [of _ "(w_workers w ! k)\<lparr>wk_tasks := NetQueue_Init, wk_efd := efd, wk_poller := p, wk_efd_handle := h1\<rparr>"])
      (auto simp: NetWorker_Init_def live fresh_worker_def wired_def)
qed

lemma pool_init_law:
  assumes "\<forall>k \<in> set ks. k < length (w_workers w)" and "\<forall>wk \<in> set (w_workers w). fresh_worker wk" and "boots E"
    and "w_next w = (\<lambda>_. NOT_IN_QUEUE)"
  shows "\<exists>ok' tr ws. pool_init_from E ks ok w = Inr (ok', w\<lparr>w_trace := tr, w_workers := ws\<rparr>) \<and>
     length ws = length (w_workers w) \<and> (\<forall>wk \<in> set ws. fresh_worker wk) \<and> set (w_trace w) \<subseteq> set tr \<and>
     (\<forall>j < length ws. j \<in> set ks \<or> wired j (w_workers w ! j) (w_trace w) \<longrightarrow> wired j (ws ! j) tr)"
  using assms
proof (induction ks arbitrary: w ok)
  case Nil
  then show ?case by (intro exI [of _ ok] exI [of _ "w_trace w"] exI [of _ "w_workers w"]) simp
next
  case (Cons k ks)
  from Cons.prems Worker_Init_law [of k w E] obtain tr wk where
    k: "NetWorker_Init E k w = Inr (0, w\<lparr>w_trace := tr, w_workers := (w_workers w)[k := wk]\<rparr>)" "fresh_worker wk" "wired k wk tr"
      "set (w_trace w) \<subseteq> set tr" by auto
  let ?w = "w\<lparr>w_trace := tr, w_workers := (w_workers w)[k := wk]\<rparr>"
  have "\<forall>wk \<in> set (w_workers ?w). fresh_worker wk"
    using Cons.prems(2) k(2) set_update_subset_insert [of "w_workers w" k wk] by auto
  moreover have "\<forall>k \<in> set ks. k < length (w_workers ?w)" "w_next ?w = (\<lambda>_. NOT_IN_QUEUE)" using Cons.prems(1,4) by simp_all
  ultimately obtain ok' tr1 ws where
    ws: "pool_init_from E ks False ?w = Inr (ok', ?w\<lparr>w_trace := tr1, w_workers := ws\<rparr>)"
      "length ws = length (w_workers ?w)" "\<forall>wk \<in> set ws. fresh_worker wk" "set (w_trace ?w) \<subseteq> set tr1"
      "\<forall>j < length ws. j \<in> set ks \<or> wired j (w_workers ?w ! j) (w_trace ?w) \<longrightarrow> wired j (ws ! j) tr1"
    using Cons.IH [of ?w False] Cons.prems(3) by blast
  have "wired j (ws ! j) tr1" if "j < length ws" "j \<in> set (k # ks) \<or> wired j (w_workers w ! j) (w_trace w)" for j
  proof (cases "j = k")
    case True
    with that(1) ws(2) spec [OF ws(5), of j] k(3) show ?thesis by simp
  next
    case False
    with that ws(2) spec [OF ws(5), of j] k(4) show ?thesis by (auto simp: wired_def)
  qed
  with ws(1-4) k(1,4) show ?case
    by (intro exI [of _ ok'] exI [of _ tr1] exI [of _ ws]) auto
qed

lemma tasks_are_fresh: "\<forall>wk \<in> set (w_workers w). fresh_worker wk \<Longrightarrow> tasks_are w (\<lambda>_. [])"
  by (simp add: tasks_are_def fresh_worker_def Init_rep)

lemma pollers_ok_fresh: "\<forall>wk \<in> set (w_workers w). fresh_worker wk \<Longrightarrow> pollers_ok w"
  by (simp add: pollers_ok_def fresh_worker_def)

section \<open>The device\<close>

lemma started:
  assumes E: "grants E" "0 \<le> socket_fd E (w_trace w)" and s: "w_socks w l = Some s" "sk_s s = - 1" "sk_state s = kNetSockStateIdle"
      "f_handlers (sk_fsm s) = SocketHandlers" "f_state (sk_fsm s) = kNetFsmStateIdle"
    and nx: "w_next w (EvItem (StoppedEv (FSock l))) = NOT_IN_QUEUE"
  shows "NetSocket_Start E (dispatch E) l AF_INET SOCK_STREAM 0 w = Inr (0, w\<lparr>w_socks := (w_socks w)
     (l \<mapsto> s\<lparr>sk_s := socket_fd E (w_trace w), sk_state := kNetSockStateStarting, sk_fsm := (sk_fsm s)\<lparr>f_state := kNetFsmStateActive\<rparr>\<rparr>),
     w_trace := socket_calls E (w_trace w) @ w_trace w\<rparr>)"
proof -
  let ?w0 = "w\<lparr>w_trace := socket_call # w_trace w\<rparr>" and ?fd = "socket_fd E (w_trace w)"
  from InitFromFd_law [of ?w0 l s E ?fd] s E(1) obtain tr1 where
    i: "NetSocket_InitFromFd E l ?fd ?w0 = Inr (?w0\<lparr>w_socks := (w_socks ?w0)(l \<mapsto> s\<lparr>sk_s := ?fd\<rparr>), w_trace := tr1\<rparr>)"
    by (auto simp: grants_def)
  from InitFromFd_trace [OF i] have tr1: "tr1 = socket_calls E (w_trace w) @ w_trace w" by (simp add: socket_calls_def)
  have ret: "sr_ret (env_os E (socket_call # w_trace w)) = ?fd" "\<not> ?fd < 0" using E(2) by (simp_all add: socket_fd_def)
  show ?thesis
    using Start_sock [of "w\<lparr>w_socks := (w_socks w)(l \<mapsto> s\<lparr>sk_s := ?fd\<rparr>), w_trace := tr1\<rparr>" l "s\<lparr>sk_s := ?fd\<rparr>" E] s nx i ret
    by (simp add: NetSocket_Start_def sys_def tr1)
qed

lemma bound:
  assumes E: "boots E" and s: "w_socks w l = Some s" "sk_state s = kNetSockStateStarting"
  shows "NetSocket_Bind E l w =
     Inr (0, w\<lparr>w_trace := Sys_bind (sk_s s) (sk_ip s) # Sys_setsockopt (sk_s s) SOL_SOCKET SO_REUSEADDR # w_trace w\<rparr>)"
proof -
  have "sr_ret (env_os E (Sys_setsockopt (sk_s s) f n # tr)) = 0" "sr_ret (env_os E (Sys_bind (sk_s s) a # tr)) = 0" for f n a tr
    using E by (simp_all add: boots_def)
  with s show ?thesis by (simp add: NetSocket_Bind_def live sys_def Let_def)
qed

lemma listens:
  assumes E: "boots E" and s: "w_socks w l = Some s" "sk_state s = kNetSockStateStarting" "running s"
  shows "NetSocket_Listen E (dispatch E) l n w =
     Inr (0, w\<lparr>w_trace := Sys_listen (sk_s s) n # w_trace w, w_socks := (w_socks w)(l \<mapsto> s\<lparr>sk_state := kNetSockStateListening\<rparr>)\<rparr>)"
proof -
  have "sr_ret (env_os E (Sys_listen (sk_s s) n # tr)) = 0" for n tr
    using E by (simp add: boots_def)
  with s show ?thesis by (simp add: NetSocket_Listen_def live sys_def Let_def)
qed

text \<open>The device's machine and address, set up before any socket.\<close>

definition device_set_up :: "env \<Rightarrow> world \<Rightarrow> world" where
  "device_set_up E w =
     w\<lparr>w_dev := (w_dev w)\<lparr>dv_fsm := \<lparr>f_state = kNetFsmStateIdle, f_src = - 1, f_srcptr = PNull, f_owner = None, f_ctx = None,
         f_stopped = NetFsmEvent_new, f_handlers = DeviceHandlers\<rparr>, dv_ip := u_Token2Ip (env_user E) (- 1)\<rparr>\<rparr>"

lemma Fsm_Init_device:
  assumes "w_next w = (\<lambda>_. NOT_IN_QUEUE)"
  shows "\<exists>w'. NetFsm_Init FDevice (- 1) DeviceHandlers None None w = Inr w' \<and>
     upd_dev (dv_ip_update (\<lambda>_. u_Token2Ip (env_user E) (- 1))) w' = device_set_up E w"
  using assms
  by (cases "dv_fsm (w_dev w)", cases "w_dev w")
    (simp add: NetFsm_Init_def upd_fsm_def upd_dev_def NetFsmEvent_Init_def device_set_up_def upd_event_def NetQueueItem_Init_def
      fun_upd_idem NetFsmEvent_new_def)

definition first_tasks :: "nat \<Rightarrow> qitem list" where
  "first_tasks k = (if k = 0 then [TaskItem 0 TkAccept] else [])"

lemma pool_up:
  assumes E: "boots E"
  shows "\<exists>ok tr ws. NetPool_Init E (new_world mem) = Inr (ok, (new_world mem)\<lparr>w_trace := tr, w_workers := ws\<rparr>) \<and>
     length ws = kNetWorkerNum \<and> (\<forall>wk \<in> set ws. fresh_worker wk) \<and> (\<forall>k < kNetWorkerNum. wired k (ws ! k) tr)"
proof -
  let ?w = "new_world mem"
  have "\<forall>k \<in> set [0..<kNetWorkerNum]. k < length (w_workers ?w)" "w_next ?w = (\<lambda>_. NOT_IN_QUEUE)"
    "\<forall>wk \<in> set (w_workers ?w). fresh_worker wk" "?w\<lparr>w_cur_worker := 0\<rparr> = ?w" "length (w_workers ?w) = kNetWorkerNum"
    by (simp_all add: new_world_def new_worker_def fresh_worker_def poller_ok_def)
  with pool_init_law [of "[0..<kNetWorkerNum]" ?w E True] E obtain ok tr ws where
    run: "pool_init_from E [0..<kNetWorkerNum] True ?w = Inr (ok, ?w\<lparr>w_trace := tr, w_workers := ws\<rparr>)"
    and ws: "length ws = kNetWorkerNum" "\<forall>wk \<in> set ws. fresh_worker wk" "?w\<lparr>w_cur_worker := 0\<rparr> = ?w"
      "\<forall>j < length ws. j \<in> set [0..<kNetWorkerNum] \<or> wired j (w_workers ?w ! j) (w_trace ?w) \<longrightarrow> wired j (ws ! j) tr" by metis
  then have "\<forall>k < kNetWorkerNum. wired k (ws ! k) tr" by simp
  then show ?thesis using ws run
    by (intro exI [of _ "if ok then 1 else 0"] exI [of _ tr] exI [of _ ws]) (simp add: NetPool_Init_def)
qed

text \<open>The listening socket and the state in which the device pairs it for the first time.\<close>

definition first_listener :: "env \<Rightarrow> int \<Rightarrow> netsock" where
  "first_listener E fd =
     (let s = init_sock 0 kNetDeviceSrcSocketEvent FDevice (u_Token2Ip (env_user E) (- 1)) 0 NetSocket_new
      in s\<lparr>sk_s := fd, sk_fsm := (sk_fsm s)\<lparr>f_state := kNetFsmStateActive\<rparr>, sk_state := kNetSockStateListening\<rparr>)"

definition listening_world :: "env \<Rightarrow> memory \<Rightarrow> int \<Rightarrow> trace \<Rightarrow> networker list \<Rightarrow> world" where
  "listening_world E mem fd tr ws =
     (device_set_up E (new_world mem))\<lparr>w_trace := tr, w_workers := ws, w_cur_worker := 1, w_socks := [0 \<mapsto> first_listener E fd]\<rparr>"

text \<open>The calls by which a socket is made, bound and made to listen, newest first.\<close>

definition listen_calls :: "env \<Rightarrow> sockaddr \<Rightarrow> trace \<Rightarrow> trace" where
  "listen_calls E a tr =
     (let fd = socket_fd E tr
      in [Sys_listen fd kListenBacklog, Sys_bind fd a, Sys_setsockopt fd SOL_SOCKET SO_REUSEADDR] @ socket_calls E tr)"

lemma Init_until_pairing:
  assumes E: "boots E"
  shows "\<exists>tr ws. NetDevice_Init E (dispatch E) (new_world mem) = NetDevice_PairListenSocket E (dispatch E)
       (listening_world E mem (socket_fd E tr) (listen_calls E (u_Token2Ip (env_user E) (- 1)) tr @ tr) ws) \<and>
     length ws = kNetWorkerNum \<and> (\<forall>wk \<in> set ws. fresh_worker wk) \<and> (\<forall>k < kNetWorkerNum. wired k (ws ! k) tr)"
proof -
  obtain ok tr ws where pool: "NetPool_Init E (new_world mem) = Inr (ok, (new_world mem)\<lparr>w_trace := tr, w_workers := ws\<rparr>)"
    and ws: "length ws = kNetWorkerNum" "\<forall>wk \<in> set ws. fresh_worker wk" "\<forall>k < kNetWorkerNum. wired k (ws ! k) tr" using pool_up [OF E] by blast
  let ?w1 = "(new_world mem)\<lparr>w_trace := tr, w_workers := ws\<rparr>"
  obtain w' where m: "NetFsm_Init FDevice (- 1) DeviceHandlers None None ?w1 = Inr w'"
    "upd_dev (dv_ip_update (\<lambda>_. u_Token2Ip (env_user E) (- 1))) w' = device_set_up E ?w1"
    using Fsm_Init_device [of ?w1 E] by (auto simp: new_world_def)
  let ?w2 = "device_set_up E ?w1" and ?addr = "u_Token2Ip (env_user E) (- 1)" and ?fd = "socket_fd E tr"
  let ?s3 = "init_sock 0 kNetDeviceSrcSocketEvent FDevice ?addr 0 NetSocket_new"
  let ?w3 = "?w2\<lparr>w_cur_worker := 1, w_socks := [0 \<mapsto> ?s3]\<rparr>"
  have w2: "w_socks ?w2 = [0 \<mapsto> NetSocket_new]" "w_cur_worker ?w2 = 0" "w_next ?w2 = (\<lambda>_. NOT_IN_QUEUE)"
    "dv_listen (w_dev ?w2) = 0" "dv_ip (w_dev ?w2) = ?addr" "w_trace ?w2 = tr"
    by (simp_all add: device_set_up_def new_world_def new_device_def)
  have w3: "NetSocket_Init 0 kNetDeviceSrcSocketEvent FDevice ?addr ?w2 = Inr ?w3"
    using Socket_Init_law [of ?w2 0 NetSocket_new kNetDeviceSrcSocketEvent FDevice ?addr] w2
    by (cases ?w2) (simp add: next_worker_def cong: if_cong)
  let ?s4 = "?s3\<lparr>sk_s := ?fd, sk_state := kNetSockStateStarting, sk_fsm := (sk_fsm ?s3)\<lparr>f_state := kNetFsmStateActive\<rparr>\<rparr>"
  let ?w4 = "\<lambda>tr. ?w3\<lparr>w_socks := [0 \<mapsto> ?s4], w_trace := tr\<rparr>"
  let ?tr5 = "Sys_bind ?fd ?addr # Sys_setsockopt ?fd SOL_SOCKET SO_REUSEADDR # socket_calls E tr @ tr"
  have fd: "0 \<le> socket_fd E (w_trace ?w3)" using boots_grants(2) [OF E] by (simp add: opens_sockets_def)
  have w4: "NetSocket_Start E (dispatch E) 0 AF_INET SOCK_STREAM 0 ?w3 = Inr (0, ?w4 (socket_calls E tr @ tr))"
    using started [OF boots_grants(1) [OF E] fd, of 0 ?s3] w2 by (simp add: init_sock_def)
  have w5: "NetSocket_Bind E 0 (?w4 (socket_calls E tr @ tr)) = Inr (0, ?w4 ?tr5)"
    using bound [OF E, of "?w4 (socket_calls E tr @ tr)" 0 ?s4] by (simp add: init_sock_def)
  have w6: "NetSocket_Listen E (dispatch E) 0 kListenBacklog (?w4 ?tr5) =
     Inr (0, (?w4 ?tr5)\<lparr>w_trace := Sys_listen ?fd kListenBacklog # ?tr5, w_socks := [0 \<mapsto> ?s4\<lparr>sk_state := kNetSockStateListening\<rparr>]\<rparr>)"
    using listens [OF E, of "?w4 ?tr5" 0 ?s4 kListenBacklog] by (auto simp: init_sock_def running_def)
  have l: "(?w4 ?tr5)\<lparr>w_trace := Sys_listen ?fd kListenBacklog # ?tr5, w_socks := [0 \<mapsto> ?s4\<lparr>sk_state := kNetSockStateListening\<rparr>]\<rparr> =
      listening_world E mem ?fd (listen_calls E ?addr tr @ tr) ws"
    by (simp add: listening_world_def first_listener_def device_set_up_def listen_calls_def Let_def)
  have "NetDevice_Init E (dispatch E) (new_world mem) =
      NetDevice_PairListenSocket E (dispatch E) (listening_world E mem ?fd (listen_calls E ?addr tr @ tr) ws)"
    by (simp only: NetDevice_Init_def pool m w2 w3 w4 w5 w6 [unfolded l] Let_def andThen.simps prod.case)
  with ws show ?thesis by blast
qed

lemma wired_later: "wired k wk tr \<Longrightarrow> set tr \<subseteq> set tr' \<Longrightarrow> wk_efd wk' = wk_efd wk \<Longrightarrow> wk_poller wk' = wk_poller wk \<Longrightarrow> wired k wk' tr'"
  by (auto simp: wired_def)

lemma Init_law:
  assumes E: "boots E"
  shows "\<exists>w ls tr fs. NetDevice_Init E (dispatch E) (new_world mem) = Inr w \<and> accept_ready 0 1 first_tasks w \<and>
     w_socks w 0 = Some ls \<and> sk_worker ls = 0 \<and> sk_s ls = socket_fd E tr \<and>
     w_trace w = wakes fs @ listen_calls E (u_Token2Ip (env_user E) (- 1)) tr @ tr \<and>
     (\<forall>k < kNetWorkerNum. wired k (w_workers w ! k) (w_trace w))"
proof -
  let ?addr = "u_Token2Ip (env_user E) (- 1)"
  obtain tr ws where i: "NetDevice_Init E (dispatch E) (new_world mem) = NetDevice_PairListenSocket E (dispatch E)
       (listening_world E mem (socket_fd E tr) (listen_calls E ?addr tr @ tr) ws)"
    and ws: "length ws = kNetWorkerNum" "\<forall>wk \<in> set ws. fresh_worker wk" "\<forall>k < kNetWorkerNum. wired k (ws ! k) tr"
    using Init_until_pairing [OF E] by blast
  let ?w6 = "listening_world E mem (socket_fd E tr) (listen_calls E ?addr tr @ tr) ws" and ?s6 = "first_listener E (socket_fd E tr)"
  have T6: "tasks_are ?w6 (\<lambda>_. [])" and po6: "pollers_ok ?w6"
    using ws by (auto intro!: tasks_are_fresh pollers_ok_fresh simp: listening_world_def)
  have w6: "w_nsocks ?w6 = 1" "w_workers ?w6 = ws" "w_next ?w6 = (\<lambda>_. NOT_IN_QUEUE)" "w_cur_worker ?w6 = 1"
    "w_socks ?w6 = [0 \<mapsto> ?s6]" "dv_listen (w_dev ?w6) = 0" "device_up ?w6" "w_trace ?w6 = listen_calls E ?addr tr @ tr"
    by (simp_all add: listening_world_def device_set_up_def new_world_def new_device_def device_up_def)
  have s6: "running ?s6" "sk_state ?s6 = kNetSockStateListening" "sk_asock ?s6 = None" "sk_worker ?s6 = 0" "sk_s ?s6 = socket_fd E tr"
    by (simp_all add: first_listener_def init_sock_def running_def Let_def)
  have "\<exists>w. NetDevice_PairListenSocket E (dispatch E) ?w6 = Inr w \<and> only_tasks (paired 0 ?s6 ?w6) w \<and> tasks_are w first_tasks"
    using PairListen_law [of ?w6 ?s6 "\<lambda>_. []" E] s6 ws(1) T6 boots_grants(1) [OF E]
    unfolding w6(1-6) by (simp add: appended_def first_tasks_def [abs_def] fun_upd_def) blast
  then obtain w where w: "NetDevice_PairListenSocket E (dispatch E) ?w6 = Inr w" "only_tasks (paired 0 ?s6 ?w6) w" "tasks_are w first_tasks" by blast
  note same = only_tasks_simps [OF w(2)]
  obtain fs where fs: "w_trace w = wakes fs @ listen_calls E ?addr tr @ tr"
    using w(2) by (auto simp: only_tasks_def w6(8))
  let ?l = "?s6\<lparr>sk_state := kNetSockStateAccepting, sk_asock := Some 1\<rparr>"
  have socks: "w_socks w = [1 \<mapsto> waiting_sock 1 0 1, 0 \<mapsto> ?l]"
    by (simp add: same w6)
  have nxt: "w_next w (EvItem e) = NOT_IN_QUEUE" for e
    using same(10) [of "EvItem e"] by (simp add: w6)
  have len: "length (w_workers w) = kNetWorkerNum" using ws(1) by (simp add: same w6)
  have "at_rest 0 ?l w"
    by (simp add: at_rest_def socks nxt len first_listener_def init_sock_def attached_def running_def NetSocket_new_def Let_def)
  moreover have "at_rest 1 (waiting_sock 1 0 1) w"
    by (rule waiting_at_rest) (simp_all add: socks nxt len)
  moreover have "pollers_ok w" using po6 only_tasks_pollers [OF w(2)] by (simp add: pollers_ok_def)
  ultimately have "accept_ready 0 1 first_tasks w"
    using w(3) len w6(7)
    by (auto simp: accept_ready_def same w6 next_worker_def device_up_def first_tasks_def waiting_sock_def init_sock_def Let_def
        split: if_splits)
  moreover have "wired k (w_workers w ! k) (w_trace w)" if "k < kNetWorkerNum" for k
    using wired_later [OF spec [OF ws(3), THEN mp, OF that], of "w_trace w" "w_workers w ! k"] that ws(1) same(11,12) [of k]
    by (auto simp: w6(2) fs)
  moreover have "w_socks w 0 = Some ?l" "sk_worker ?l = 0" "sk_s ?l = socket_fd E tr" using s6 by (simp_all add: socks)
  ultimately show ?thesis using i w(1) fs by (intro exI [of _ w] exI [of _ ?l] exI [of _ tr] exI [of _ fs]) simp
qed

section \<open>A concrete kernel\<close>

text \<open>Descriptors count up with the calls made and are open for reading and writing; every other call succeeds.\<close>

fun kind_os :: os where
  "kind_os (Sys_write f bs # tr) = sysret (int (length bs))"
| "kind_os (Sys_eventfd # tr) = sysret (int (length tr) + 3)"
| "kind_os (Sys_epoll_create # tr) = sysret (int (length tr) + 3)"
| "kind_os (Sys_socket d t p # tr) = sysret (int (length tr) + 3)"
| "kind_os (Sys_accept4 f # tr) = sysret (int (length tr) + 3)"
| "kind_os (Sys_fcntl f F_GETFL a # tr) = sysret 2"
| "kind_os tr = sysret 0"

definition kind_env :: env where
  "kind_env = \<lparr>env_os = kind_os, env_user = plain_user\<rparr>"

lemma kind_boots: "boots kind_env"
  by (simp add: boots_def opens_sockets_def socket_fd_def kind_env_def sysret_def le_bytes_def)

lemma kind_accepts: "0 < sr_ret (env_os kind_env (Sys_accept4 f # tr))"
  by (simp add: kind_env_def sysret_def)

section \<open>Properties\<close>

text \<open>C18: A device starts to listen. From the state of a new process, with a kernel that opens the
  descriptors asked for and accepts their flags, options and addresses (whatever it answers when asked for the
  flags of a descriptor), NetDevice::Init succeeds. Each of the four workers has an eventfd, and the kernel has
  been asked to report it to the worker. The listening socket (number 0) has the descriptor that the
  kernel returned for it; the calls made for it are, in this order, those that set its flags and its option,
  \<open>bind\<close> to the machine's own address and \<open>listen\<close>, and after them only workers have been woken. The socket waits
  for a connection on behalf of a first fresh
  socket (number 1), both are at rest, and the only queued task is the one by which worker
  0 will put the listener under watch.\<close>

theorem device_starts_listening:
  assumes "boots E"
  shows "\<exists>w ls tr fs. NetDevice_Init E (dispatch E) (new_world mem) = Inr w \<and> accept_ready 0 1 first_tasks w \<and>
     w_socks w 0 = Some ls \<and> sk_worker ls = 0 \<and> sk_s ls = sr_ret (env_os E (socket_call # tr)) \<and> 0 \<le> sk_s ls \<and>
     w_trace w = wakes fs @ Sys_listen (sk_s ls) kListenBacklog # Sys_bind (sk_s ls) (u_Token2Ip (env_user E) (- 1)) #
       Sys_setsockopt (sk_s ls) SOL_SOCKET SO_REUSEADDR # init_calls E (sk_s ls) (socket_call # tr) @ socket_call # tr \<and>
     (\<forall>k < kNetWorkerNum. let wk = w_workers w ! k in 0 \<le> wk_efd wk \<and>
        Sys_epoll_ctl (p_ep (wk_poller wk)) EPOLL_CTL_MOD (wk_efd wk) (Some (HEfd k, EPOLLIN)) \<in> set (w_trace w))"
proof -
  obtain w ls tr fs where w: "NetDevice_Init E (dispatch E) (new_world mem) = Inr w" "accept_ready 0 1 first_tasks w"
     "w_socks w 0 = Some ls" "sk_worker ls = 0" "sk_s ls = socket_fd E tr"
     "w_trace w = wakes fs @ listen_calls E (u_Token2Ip (env_user E) (- 1)) tr @ tr"
     "\<forall>k < kNetWorkerNum. wired k (w_workers w ! k) (w_trace w)" using Init_law [OF assms] by blast
  have "0 \<le> sk_s ls" using boots_grants(2) [OF assms] by (simp add: w(5) opens_sockets_def)
  moreover have "sk_s ls = sr_ret (env_os E (socket_call # tr))" by (simp add: w(5) socket_fd_def)
  ultimately show ?thesis using w unfolding wired_def Let_def
    by (intro exI [of _ w] exI [of _ ls] exI [of _ tr] exI [of _ fs] conjI) (simp_all add: listen_calls_def socket_calls_def Let_def)
qed

theorem device_starts_listening_witness:
  "\<exists>w ls fs tr. NetDevice_Init kind_env (dispatch kind_env) (new_world (\<lambda>_. 0)) = Inr w \<and> accept_ready 0 1 first_tasks w \<and>
     w_socks w 0 = Some ls \<and> w_trace w = wakes fs @ Sys_listen (sk_s ls) kListenBacklog # tr \<and> 0 \<le> wk_efd (w_workers w ! 3)"
proof -
  from device_starts_listening [OF kind_boots, of "\<lambda>_. 0"] obtain w ls tr fs where
    "NetDevice_Init kind_env (dispatch kind_env) (new_world (\<lambda>_. 0)) = Inr w" "accept_ready 0 1 first_tasks w" "w_socks w 0 = Some ls"
    "w_trace w = wakes fs @ Sys_listen (sk_s ls) kListenBacklog # Sys_bind (sk_s ls) (u_Token2Ip (env_user kind_env) (- 1)) #
       Sys_setsockopt (sk_s ls) SOL_SOCKET SO_REUSEADDR # init_calls kind_env (sk_s ls) (socket_call # tr) @ socket_call # tr"
    and e: "\<forall>k < kNetWorkerNum. let wk = w_workers w ! k in 0 \<le> wk_efd wk \<and>
        Sys_epoll_ctl (p_ep (wk_poller wk)) EPOLL_CTL_MOD (wk_efd wk) (Some (HEfd k, EPOLLIN)) \<in> set (w_trace w)" by (elim exE conjE) (rule that)
  moreover have "0 \<le> wk_efd (w_workers w ! 3)" using spec [OF e, of 3] by (simp add: Let_def)
  ultimately show ?thesis by (intro exI conjI)
qed

lemma kind_start: "\<exists>w ls s. NetDevice_Init kind_env (dispatch kind_env) (new_world (\<lambda>_. 0)) = Inr w \<and>
    accept_ready 0 1 first_tasks w \<and> w_socks w 0 = Some ls \<and> sk_worker ls = 0 \<and> w_socks w 1 = Some s"
proof -
  obtain w ls where w: "NetDevice_Init kind_env (dispatch kind_env) (new_world (\<lambda>_. 0)) = Inr w" "accept_ready 0 1 first_tasks w"
    "w_socks w 0 = Some ls" "sk_worker ls = 0" using Init_law [OF kind_boots, of "\<lambda>_. 0"] by blast
  moreover from w(2) obtain s where "w_socks w 1 = Some s" by (auto simp: accept_ready_def at_rest_def)
  ultimately show ?thesis by blast
qed

text \<open>C2: Every reachable state is consistent. Whatever the kernel does and in whatever order the steps of
  the four workers' threads, the user's calls, the destruction of the device and the termination of
  workers are interleaved, after
  a successful Init there are four workers, the round-robin counter and the worker of every
  socket name one of them, numbers of sockets are below the counter of objects, the state of
  every socket is zero (not yet initialised) or one of the fourteen that utils.h names, a
  token is mapped to at most one socket, and that socket is in the set of sockets the device
  owns, which holds none twice.\<close>

theorem reachable_states_consistent:
  assumes "reachable E mem (ts, w)"
  shows "length (w_workers w) = kNetWorkerNum \<and> 0 \<le> w_cur_worker w \<and> w_cur_worker w < int kNetWorkerNum \<and>
     (\<forall>i s. w_socks w i = Some s \<longrightarrow> sk_worker s < kNetWorkerNum \<and> i < w_nsocks w \<and>
        0 \<le> sk_state s \<and> sk_state s \<le> kNetSockStateAcceptingError) \<and>
     distinct (map fst (dv_token2sock (w_dev w))) \<and> distinct (dv_sock_sets (w_dev w)) \<and>
     (\<forall>t i. NetDevice_Token2Socket t w = Some i \<longrightarrow> i \<in> set (dv_sock_sets (w_dev w)) \<and> i < w_nsocks w)"
  using reachable_ok [OF assms] by (auto simp: world_ok_def NetDevice_Token2Socket_def dest!: map_of_SomeD)

theorem reachable_states_consistent_witness:
  "\<exists>w. reachable kind_env (\<lambda>_. 0) (\<lambda>_. Waiting, w) \<and> length (w_workers w) = kNetWorkerNum \<and> w_cur_worker w < int kNetWorkerNum"
proof -
  obtain w where "NetDevice_Init kind_env (dispatch kind_env) (new_world (\<lambda>_. 0)) = Inr w" using kind_start by blast
  then have "reachable kind_env (\<lambda>_. 0) (\<lambda>_. Waiting, w)" by (rule reachable.Init)
  with reachable_states_consistent [OF this] show ?thesis by blast
qed



end
