(* ===== verification/Netfail.thy ===== *)
theory Netfail
  imports Netstart
begin

text \<open>
  How connections end: errors reported by the poller or by \<open>connect\<close>, and the asynchronous
  stop that the destructor of the device asks for. Every error event of a socket makes the
  device abort the process, and so does stopping a socket that is active.
\<close>

section \<open>An error of the descriptor\<close>

text \<open>A kernel that closes descriptors.\<close>

definition closes :: "env \<Rightarrow> bool" where
  "closes E \<longleftrightarrow> (\<forall>tr f. sr_ret (env_os E (Sys_close f # tr)) = 0)"

lemma close_live:
  assumes "w_socks w i = Some s" and "closes E"
  shows "\<exists>tr. sock_close E i w = Inr (w\<lparr>w_trace := tr, w_socks := (w_socks w)(i \<mapsto> s\<lparr>sk_s := - 1\<rparr>)\<rparr>)"
proof -
  have "\<exists>tr. NetCloseFd (env_os E) (sk_s s) (w_trace w) = Inr tr"
    using assms(2) by (auto simp: NetCloseFd_def closes_def Let_def)
  with assms(1) show ?thesis by (fastforce simp: sock_close_def live close_fd_def)
qed

text \<open>The socket after an error: off the poller, closed, done; \<open>e\<close> is its error event.\<close>

definition done_sock :: "netsock \<Rightarrow> netsock" where
  "done_sock s = s\<lparr>sk_s := - 1, sk_state := kNetSockStateDone\<rparr>"

lemma fd_error_law:
  assumes s: "w_socks w i = Some s" and k: "sk_worker s < length (w_workers w)" and p: "pollers_ok w" and E: "closes E"
  shows "\<exists>tr p. fd_error E i w = raise_sock i EvError kNetSockEventTypeError (PSock i)
     (w\<lparr>w_workers := (w_workers w)[sk_worker s := (w_workers w ! sk_worker s)\<lparr>wk_poller := p\<rparr>], w_trace := tr,
        w_socks := (w_socks w)(i \<mapsto> done_sock s)\<rparr>)"
proof -
  from p k have "poller_ok (poller_of s w)" by (simp add: pollers_ok_def)
  from Rm_law [OF this] obtain p' tr where "NetPoller_Rm (poller_of s w) (HSock i) (handle_of s) (w_trace w) = Inr (p', tr)" by blast
  from RmFd_live [OF s k this] have r: "sock_RmFd i w = Inr (polled i s p' (handle_of s) tr w)" .
  have s1: "w_socks (polled i s p' (handle_of s) tr w) i = Some s" by (cases s) simp
  from close_live [OF this E] obtain tr1 where
    "sock_close E i (polled i s p' (handle_of s) tr w) = Inr ((polled i s p' (handle_of s) tr w)\<lparr>w_trace := tr1,
        w_socks := (w_socks (polled i s p' (handle_of s) tr w))(i \<mapsto> s\<lparr>sk_s := - 1\<rparr>)\<rparr>)" by blast
  with r show ?thesis
    by (intro exI [of _ tr1] exI [of _ p']) (simp add: fd_error_def live done_sock_def polled_def)
qed

text \<open>The device answers an error event by \<open>LOG(FATAL)\<close>, whether it is raised now or was pending.\<close>

lemma device_error: "NetDeviceFsmHandler E r kNetDeviceSrcSocketEvent kNetSockEventTypeError p w = Inl (LogFatal ''Unexpected Run'')"
  by (simp add: NetDeviceFsmHandler_def)

lemma raise_error_aborts:
  assumes "w_socks w i = Some s" and "attached i s" and "device_up w"
    and "cx_events (sk_ctx s) = NetQueue_Init" and "w_next w (EvItem (SockEv i EvError)) = NOT_IN_QUEUE"
  shows "andThen (raise_sock i EvError kNetSockEventTypeError (PSock i) w) (process_events E (Suc n) i) = Inl (LogFatal ''Unexpected Run'')"
proof -
  from raise_then_process [OF assms, of "PSock i" kNetSockEventTypeError E n] obtain w1 where
    "raise_sock i EvError kNetSockEventTypeError (PSock i) w = Inr w1" and
    "process_events E (Suc n) i w1 = andThen (NetDeviceFsmHandler E (dispatch E) kNetDeviceSrcSocketEvent kNetSockEventTypeError (PSock i)
           (w\<lparr>w_socks := (w_socks w)(i \<mapsto> s\<lparr>sk_event := (sk_event s)(EvError := quiet_event i)\<rparr>)\<rparr>)) (process_events E n i)"
    by auto
  then show ?thesis by (simp add: device_error)
qed

lemma fd_error_aborts:
  assumes s: "w_socks w i = Some s" and k: "sk_worker s < length (w_workers w)" and p: "pollers_ok w" and E: "closes E"
    and a: "attached i s" "device_up w" "cx_events (sk_ctx s) = NetQueue_Init" "w_next w (EvItem (SockEv i EvError)) = NOT_IN_QUEUE"
  shows "andThen (fd_error E i w) (process_events E (Suc n) i) = Inl (LogFatal ''Unexpected Run'')"
proof -
  from fd_error_law [OF s k p E] obtain tr p' where
    f: "fd_error E i w = raise_sock i EvError kNetSockEventTypeError (PSock i)
     (w\<lparr>w_workers := (w_workers w)[sk_worker s := (w_workers w ! sk_worker s)\<lparr>wk_poller := p'\<rparr>], w_trace := tr,
        w_socks := (w_socks w)(i \<mapsto> done_sock s)\<rparr>)" by blast
  show ?thesis unfolding f
    by (rule raise_error_aborts [where s = "done_sock s"]) (use a in \<open>simp_all add: done_sock_def device_up_def\<close>)
qed

section \<open>The asynchronous stop\<close>

text \<open>AsyncStop raises its event outside any critical section: it stays queued in the context.\<close>

definition stop_event :: "nat \<Rightarrow> netevent" where
  "stop_event i = \<lparr>e_fsm = Some (FSock i), e_src = kNetDeviceSrcSocketEvent, e_srcptr = PSock i, e_type = kNetSockEventTypeShutdown\<rparr>"

definition stopping_sock :: "nat \<Rightarrow> netsock \<Rightarrow> netsock" where
  "stopping_sock i s =
     (let x = EvItem (SockEv i EvError) in
      s\<lparr>sk_event := (sk_event s)(EvError := stop_event i), sk_ctx := (sk_ctx s)\<lparr>cx_events := \<lparr>q_head = At x, q_tail = At x\<rparr>\<rparr>\<rparr>)"

definition stopping :: "nat \<Rightarrow> netsock \<Rightarrow> world \<Rightarrow> bool" where
  "stopping i s w \<longleftrightarrow>
     w_socks w i = Some (stopping_sock i s) \<and> w_next w (EvItem (SockEv i EvError)) = NULL \<and>
     (\<forall>k. k \<noteq> EvError \<longrightarrow> w_next w (EvItem (SockEv i k)) = NOT_IN_QUEUE) \<and>
     sk_worker s < length (w_workers w) \<and> pollers_ok w \<and> device_up w"

lemma AsyncStop_law:
  assumes r: "at_rest i s w" and T: "tasks_are w T" and E: "grants E" and w: "pollers_ok w" "device_up w"
  shows "\<exists>w1. NetSocket_AsyncStop E i w = Inr w1 \<and> stopping i s w1 \<and> w_dev w1 = w_dev w \<and>
     tasks_are w1 (T(sk_worker s := appended (w_next w) (TaskItem i TkStop) (T (sk_worker s))))"
proof -
  let ?x = "EvItem (SockEv i EvError)" and ?T = "T(sk_worker s := appended (w_next w) (TaskItem i TkStop) (T (sk_worker s)))"
  note rest = r [unfolded at_rest_def]
  obtain w1 where w1: "execute_task E i TkStop w = Inr w1" "tasks_are w1 ?T" "only_tasks w w1"
    using execute_task_tasks [of w i s T E TkStop] rest T E by blast
  note same = only_tasks_simps [OF w1(3)]
  have s1: "w_socks w1 i = Some s" using rest by (simp add: same)
  have nx: "w_next w1 (EvItem e) = w_next w (EvItem e)" for e by (rule same(10)) simp
  let ?w2 = "w1\<lparr>w_next := (w_next w1)(?x := NULL), w_socks := (w_socks w1)(i \<mapsto> stopping_sock i s)\<rparr>"
  have "NetFsm_Raise (FSock i) (SockEv i EvError) kNetSockEventTypeShutdown (PSock i) w1 = Inr ?w2"
    using raise_pending [OF s1, of EvError "PSock i" kNetSockEventTypeShutdown] rest nx
    by (simp add: raise_sock_def stopping_sock_def with_event_def event_for_def stop_event_def Let_def)
  moreover have "stopping i s ?w2"
    using rest w nx by (simp add: stopping_def same device_up_def) (simp add: pollers_ok_def same)
  moreover have "tasks_are ?w2 ?T"
  proof (rule tasks_are_frame [OF w1(2)])
    fix k x
    assume "x \<in> set (?T k)"
    with w1(2) have "is_task x" by (simp add: tasks_are_def)
    then show "w_next ?w2 x = w_next w1 x" by auto
  qed simp
  ultimately show ?thesis using w1(1) by (intro exI [of _ ?w2]) (simp add: NetSocket_AsyncStop_def same)
qed

text \<open>The first event a worker takes out of the context of a stopping socket.\<close>

lemma stopping_pop:
  assumes st: "w_socks w i = Some s" "cx_events (sk_ctx s) = \<lparr>q_head = At (EvItem (SockEv i EvError)), q_tail = At (EvItem (SockEv i EvError))\<rparr>"
    and nx: "w_next w (EvItem (SockEv i EvError)) = NULL" and a: "attached i s" and d: "device_up w"
    and e: "sk_event s EvError = \<lparr>e_fsm = Some (FSock i), e_src = kNetDeviceSrcSocketEvent, e_srcptr = p, e_type = type\<rparr>"
  shows "process_events E (Suc n) i w =
     andThen (NetDeviceFsmHandler E (dispatch E) kNetDeviceSrcSocketEvent type p
       (w\<lparr>w_next := (w_next w)(EvItem (SockEv i EvError) := NOT_IN_QUEUE),
          w_socks := (w_socks w)(i \<mapsto> s\<lparr>sk_ctx := (sk_ctx s)\<lparr>cx_events := NetQueue_Init\<rparr>, sk_event := (sk_event s)(EvError := quiet_event i)\<rparr>)\<rparr>))
       (process_events E n i)"
proof -
  let ?x = "EvItem (SockEv i EvError)" and ?s1 = "s\<lparr>sk_ctx := (sk_ctx s)\<lparr>cx_events := NetQueue_Init\<rparr>\<rparr>"
  let ?w1 = "w\<lparr>w_next := (w_next w)(?x := NOT_IN_QUEUE), w_socks := (w_socks w)(i \<mapsto> ?s1)\<rparr>"
  have "NetQueue_Pop (cx_events (sk_ctx s)) (w_next w) = Inr (Some ?x, NetQueue_Init, (w_next w)(?x := NOT_IN_QUEUE))"
    using nx by (simp add: st(2) NetQueue_Pop_def NetQueue_Init_def)
  from pop_events_live [OF st(1) this] have
    "process_events E (Suc n) i w = andThen (NetFsmEvent_Process (dispatch E) (SockEv i EvError) ?w1) (process_events E n i)"
    by (simp add: process_events.simps)
  moreover have "device_up ?w1" using d by (simp add: device_up_def)
  ultimately show ?thesis using Process_law [of ?w1 i ?s1 EvError E] a e by simp
qed

text \<open>Raising an event that is queued already changes what it says and leaves it where it is.\<close>

lemma Raise_linked:
  assumes s: "w_socks w c = Some s" and x: "w_next w (EvItem e) \<noteq> NOT_IN_QUEUE"
  shows "NetCtx_Raise c e w = Inr w"
proof -
  have "NetCtx_Raise c e w = put_events c (cx_events (sk_ctx s)) w"
    using x by (simp add: NetCtx_Raise_def push_on_def get_live(1) [OF s] Push_linked)
  also have "put_events c (cx_events (sk_ctx s)) w = Inr (w\<lparr>w_socks := (w_socks w)(c \<mapsto> s)\<rparr>)"
    unfolding put_live(1) [OF s] by simp
  also have "w\<lparr>w_socks := (w_socks w)(c \<mapsto> s)\<rparr> = w" using s by (simp add: fun_upd_idem)
  finally show ?thesis .
qed

lemma raise_linked:
  assumes s: "w_socks w i = Some s" and a: "attached i s" and x: "w_next w (EvItem (SockEv i k)) \<noteq> NOT_IN_QUEUE" and p: "p \<noteq> PNull"
  shows "raise_sock i k type p w = Inr (w\<lparr>w_socks := (w_socks w)(i \<mapsto> s\<lparr>sk_event := (sk_event s)
     (k := \<lparr>e_fsm = Some (FSock i), e_src = kNetDeviceSrcSocketEvent, e_srcptr = p, e_type = type\<rparr>)\<rparr>)\<rparr>)"
proof -
  have full: "e\<lparr>e_fsm := Some (FSock i), e_src := 2, e_srcptr := p, e_type := type\<rparr> =
      \<lparr>e_fsm = Some (FSock i), e_src = kNetDeviceSrcSocketEvent, e_srcptr = p, e_type = type\<rparr>" for e :: netevent
    by (cases e) simp
  show ?thesis
    using s a x p by (simp add: raise_sock_def NetFsm_Raise_def live attached_def full deref_def Raise_linked)
qed

lemma stopping_locked:
  "stopping i s w \<Longrightarrow> \<not> cx_locked (sk_ctx s) \<Longrightarrow>
   lock_ctx i w = Inr (w\<lparr>w_socks := (w_socks w)(i \<mapsto> locked (stopping_sock i s))\<rparr>)"
  by (simp add: stopping_def live locked_def stopping_sock_def Let_def)

lemma attached_stopping [simp]: "attached i (stopping_sock j s) = attached i s" "running (stopping_sock j s) = running s"
  by (simp_all add: stopping_sock_def Let_def)

text \<open>The stop task of an active socket: the error it raises overwrites the event that is still queued.\<close>

lemma stop_task_aborts:
  assumes r: "at_rest i s w" and st: "stopping i s w1" "sk_state s = kNetSockStateActive" and E: "closes E"
  shows "run_task E (Suc (Suc m)) i TkStop w1 = Inl (LogFatal ''Unexpected Run'')"
proof -
  let ?s = "stopping_sock i s" and ?s1 = "locked (stopping_sock i s)"
  let ?w2 = "w1\<lparr>w_socks := (w_socks w1)(i \<mapsto> ?s1)\<rparr>"
  let ?w3 = "kLibMsgFsmError ''Unexpected source'' kNetSockStateActive kNetSockSrcTaskStop kNetWorkerTaskExecute ?w2"
  note rest = r [unfolded at_rest_def] and stop = st(1) [unfolded stopping_def]
  have sec: "run_task E (Suc (Suc m)) i TkStop w1 =
     NetCtx_ExecuteCriticalSection E (Suc (Suc m)) i (NetFsm_Feed (dispatch E) (FSock i) kNetSockSrcTaskStop kNetWorkerTaskExecute (PTask i TkStop)) w1"
    using rest stop by (simp add: run_task_def live attached_def stopping_sock_def Let_def)
  have s2: "w_socks ?w2 i = Some ?s1" and r2: "running ?s1" using rest by (simp_all add: attached_def)
  have "NetFsm_Feed (dispatch E) (FSock i) kNetSockSrcTaskStop kNetWorkerTaskExecute (PTask i TkStop) ?w2 = fd_error E i ?w3"
    unfolding Feed_sock [OF s2 r2]
    using st(2) by (simp add: NetSocketHandler_def NetSocket_InternalTasks_def live from_active_def case_active_def unexpected_source_def
        NetFsmBadSource_def from_removing_fd_def case_removing_fd_def stopping_sock_def Let_def)
  moreover have w3: "w_socks ?w3 i = Some ?s1" "sk_worker ?s1 < length (w_workers ?w3)" "pollers_ok ?w3"
    using stop by (simp_all add: kLibMsgFsmError_def pollers_ok_def stopping_sock_def Let_def)
  moreover from fd_error_law [OF w3 E] obtain tr p where
    f: "fd_error E i ?w3 = raise_sock i EvError kNetSockEventTypeError (PSock i)
     (?w3\<lparr>w_workers := (w_workers ?w3)[sk_worker ?s1 := (w_workers ?w3 ! sk_worker ?s1)\<lparr>wk_poller := p\<rparr>], w_trace := tr,
        w_socks := (w_socks ?w3)(i \<mapsto> done_sock ?s1)\<rparr>)" by blast
  let ?w4 = "?w3\<lparr>w_workers := (w_workers ?w3)[sk_worker ?s1 := (w_workers ?w3 ! sk_worker ?s1)\<lparr>wk_poller := p\<rparr>], w_trace := tr,
        w_socks := (w_socks ?w3)(i \<mapsto> done_sock ?s1)\<rparr>"
  have w4: "w_socks ?w4 i = Some (done_sock ?s1)" "w_next ?w4 = w_next w1" "device_up ?w4" "attached i (done_sock ?s1)"
    using rest stop by (simp_all add: kLibMsgFsmError_def device_up_def done_sock_def)
  let ?e = "\<lparr>e_fsm = Some (FSock i), e_src = kNetDeviceSrcSocketEvent, e_srcptr = PSock i, e_type = kNetSockEventTypeError\<rparr>"
  let ?s5 = "(done_sock ?s1)\<lparr>sk_event := (sk_event (done_sock ?s1))(EvError := ?e)\<rparr>"
  let ?w5 = "?w4\<lparr>w_socks := (w_socks ?w4)(i \<mapsto> ?s5)\<rparr>"
  have "raise_sock i EvError kNetSockEventTypeError (PSock i) ?w4 = Inr ?w5"
    using stop by (intro raise_linked [OF w4(1,4)]) (simp_all only: w4(2) nptr.distinct not_False_eq_True simp_thms anyptr.distinct)
  moreover have "process_events E (Suc m) i ?w5 = Inl (LogFatal ''Unexpected Run'')"
    using stopping_pop [of ?w5 i ?s5 "PSock i" kNetSockEventTypeError E m] stop w4(2-4)
    by (simp add: device_error done_sock_def stopping_sock_def device_up_def Let_def)
  ultimately show ?thesis
    unfolding sec by (intro section_fails [OF stopping_locked [OF st(1)]]) (use rest f in simp_all)
qed

text \<open>Another event of the descriptor before the stop task runs: the context is used after its socket is gone.\<close>

lemma stopping_event_frees:
  assumes st: "w_socks w i = Some s" "cx_events (sk_ctx s) = \<lparr>q_head = At (EvItem (SockEv i EvError)), q_tail = At (EvItem (SockEv i EvError))\<rparr>"
    and nx: "w_next w (EvItem (SockEv i EvError)) = NULL" and a: "attached i s" and d: "device_up w"
    and e: "sk_event s EvError = stop_event i"
  shows "process_events E (Suc (Suc n)) i w = Inl (UseAfterFree ''NetSocket'')"
proof -
  have "process_events E (Suc m) i (w\<lparr>w_next := nx, w_socks := (w_socks w)(i := None)\<rparr>) = Inl (UseAfterFree ''NetSocket'')" for m nx
    by (simp add: process_events.simps pop_from_def get_events_def get_sock_def)
  then show ?thesis
    using stopping_pop [OF st nx a d, of "PSock i" kNetSockEventTypeShutdown E "Suc n"] e
    by (simp add: stop_event_def NetDeviceFsmHandler_def as_sock_def delete_sock_def live)
qed

section \<open>The result of connecting\<close>

text \<open>What the kernel says of the attempt on \<open>f\<close>: \<open>SO_ERROR\<close> is \<open>e\<close>.\<close>

definition so_error :: "env \<Rightarrow> int \<Rightarrow> int \<Rightarrow> bool" where
  "so_error E f e \<longleftrightarrow> (\<forall>tr. sr_ret (env_os E (Sys_getsockopt_error f # tr)) = 0 \<and> sr_opt (env_os E (Sys_getsockopt_error f # tr)) = e)"

lemma GetErr_law: "w_socks w i = Some s \<Longrightarrow> so_error E (sk_s s) e \<Longrightarrow>
   NetSocket_GetErr E i w = Inr (e, w\<lparr>w_trace := Sys_getsockopt_error (sk_s s) # w_trace w\<rparr>)"
  by (simp add: NetSocket_GetErr_def live sys_def so_error_def Let_def)

definition connected :: "phandle \<Rightarrow> netsock \<Rightarrow> netsock" where
  "connected h s = s\<lparr>sk_wfd := (sk_wfd s)\<lparr>wf_handle := h\<rparr>, sk_state := kNetSockStateActive\<rparr>"

lemma connected_simps [simp]:
  "sk_s (connected h s) = sk_s s" "sk_worker (connected h s) = sk_worker s" "sk_ctx (connected h s) = sk_ctx s"
  "sk_fsm (connected h s) = sk_fsm s" "sk_event (connected h s) = sk_event s" "sk_task (connected h s) = sk_task s"
  "attached i (connected h s) = attached i s" "sk_state (connected h s) = kNetSockStateActive"
  by (simp_all add: connected_def)

text \<open>A state that differs from \<open>w\<close> in the poller of worker \<open>k\<close>, the trace and socket \<open>i\<close>, which is now \<open>s\<close>.\<close>

definition with_sock :: "nat \<Rightarrow> netsock \<Rightarrow> nat \<Rightarrow> npoller \<Rightarrow> trace \<Rightarrow> world \<Rightarrow> world" where
  "with_sock i s k p tr w =
     w\<lparr>w_workers := (w_workers w)[k := (w_workers w ! k)\<lparr>wk_poller := p\<rparr>], w_trace := tr, w_socks := (w_socks w)(i \<mapsto> s)\<rparr>"

lemma with_sock_simps [simp]:
  "w_socks (with_sock i s k p tr w) = (w_socks w)(i \<mapsto> s)" "w_next (with_sock i s k p tr w) = w_next w"
  "w_dev (with_sock i s k p tr w) = w_dev w" "w_trace (with_sock i s k p tr w) = tr" "w_nsocks (with_sock i s k p tr w) = w_nsocks w"
  "length (w_workers (with_sock i s k p tr w)) = length (w_workers w)" "device_up (with_sock i s k p tr w) = device_up w"
  "tasks_are (with_sock i s k p tr w) T = tasks_are w T"
  by (auto simp: with_sock_def device_up_def tasks_are_def wk_tasks_list_update)

lemma pollers_ok_with_sock: "pollers_ok w \<Longrightarrow> poller_ok p \<Longrightarrow> pollers_ok (with_sock i s k p tr w)"
proof -
  assume w: "pollers_ok w" "poller_ok p"
  have "poller_ok (wk_poller ((w_workers w)[k := (w_workers w ! k)\<lparr>wk_poller := p\<rparr>] ! j))" if "j < length (w_workers w)" for j
    using w that by (cases "k = j") (simp_all add: pollers_ok_def)
  then show ?thesis by (simp add: pollers_ok_def with_sock_def)
qed

lemma reset_and_activate:
  assumes s: "w_socks w i = Some s" and k: "sk_worker s < length (w_workers w)" and p: "pollers_ok w"
  shows "\<exists>p h tr. poller_ok p \<and> h_fd h = h_fd (handle_of s) \<and>
     andThen (sock_ResetOut i w) (set_state i kNetSockStateActive) = Inr (with_sock i (connected h s) (sk_worker s) p tr w)"
proof -
  from p k have "poller_ok (poller_of s w)" by (simp add: pollers_ok_def)
  from ResetOut_law [OF this] obtain p' h tr where
    h: "NetPoller_ResetOut (poller_of s w) (HSock i) (handle_of s) (w_trace w) = Inr (p', h, tr)" "poller_ok p'" "h_fd h = h_fd (handle_of s)"
    by blast
  from ResetOut_live [OF s k h(1)] h(2,3) show ?thesis
    by (intro exI [of _ p'] exI [of _ h] exI [of _ tr]) (simp add: live connected_def with_sock_def polled_def world_order)
qed

definition connect_result :: "env \<Rightarrow> nat \<Rightarrow> int \<times> world \<Rightarrow> world res" where
  "connect_result E i = (\<lambda>(sockerr, w).
     if sockerr = 0 then raise_sock i EvEstablished kNetSockEventTypeConnected (PSock i) w
     else
       andThen (upd_sock i (sk_errnum_update (\<lambda>_. sockerr)) w) (\<lambda>w.
       andThen (sock_RmFd i w) (\<lambda>w.
       andThen (get_sock i w) (\<lambda>s.
       let (r, w) = sys E (Sys_close (sk_s s)) w in
       andThen (CHECK ''rc == 0'' (sr_ret r = 0) w) (\<lambda>w.
       andThen (upd_sock i (\<lambda>s. s\<lparr>sk_s := - 1, sk_state := kNetSockStateDone\<rparr>) w)
         (raise_sock i EvError kNetSockEventTypeError (PSock i)))))))"

lemma connect_law:
  assumes s: "w_socks w i = Some s" and k: "sk_worker s < length (w_workers w)" and p: "pollers_ok w" and E: "so_error E (sk_s s) e"
  shows "\<exists>p h tr. poller_ok p \<and> h_fd h = h_fd (handle_of s) \<and>
     connect_finished E i w = connect_result E i (e, with_sock i (connected h s) (sk_worker s) p tr w)"
proof -
  obtain p h tr where h: "poller_ok p" "h_fd h = h_fd (handle_of s)"
    "andThen (sock_ResetOut i w) (set_state i kNetSockStateActive) = Inr (with_sock i (connected h s) (sk_worker s) p tr w)"
    using reset_and_activate [OF s k p] by blast
  let ?w = "with_sock i (connected h s) (sk_worker s) p tr w" and ?tr = "Sys_getsockopt_error (sk_s s) # tr"
  have "NetSocket_GetErr E i ?w = Inr (e, with_sock i (connected h s) (sk_worker s) p ?tr w)"
    using GetErr_law [of ?w i "connected h s" E e] E by (simp add: with_sock_def world_order)
  moreover have "connect_finished E i w =
      andThen (andThen (sock_ResetOut i w) (set_state i kNetSockStateActive)) (\<lambda>w. andThen (NetSocket_GetErr E i w) (connect_result E i))"
    by (simp only: connect_finished_def connect_result_def andThen_assoc)
  ultimately show ?thesis
    using h by (intro exI [of _ p] exI [of _ h] exI [of _ ?tr]) simp
qed

lemma connect_failure:
  assumes s: "w_socks w i = Some s" and k: "sk_worker s < length (w_workers w)" and p: "pollers_ok w" and E: "closes E" and e: "e \<noteq> 0"
  shows "\<exists>p tr. connect_result E i (e, w) = raise_sock i EvError kNetSockEventTypeError (PSock i)
     (with_sock i (s\<lparr>sk_errnum := e, sk_s := - 1, sk_state := kNetSockStateDone\<rparr>) (sk_worker s) p tr w)"
proof -
  let ?s = "s\<lparr>sk_errnum := e\<rparr>" and ?w = "w\<lparr>w_socks := (w_socks w)(i \<mapsto> s\<lparr>sk_errnum := e\<rparr>)\<rparr>"
  from p k have "poller_ok (poller_of s w)" by (simp add: pollers_ok_def)
  from Rm_law [OF this] obtain p' tr where r: "NetPoller_Rm (poller_of s w) (HSock i) (handle_of s) (w_trace w) = Inr (p', tr)" by blast
  have "sock_RmFd i ?w = Inr (with_sock i ?s (sk_worker s) p' tr w)"
    using RmFd_live [of ?w i ?s p' tr] k r by (cases s) (simp add: with_sock_def polled_def world_order)
  moreover have "upd_sock i (sk_errnum_update (\<lambda>_. e)) w = Inr ?w" using s by (simp add: live)
  moreover have "sr_ret (env_os E (Sys_close (sk_s s) # tr)) = 0" using E by (simp add: closes_def)
  ultimately show ?thesis
    using e by (intro exI [of _ p'] exI [of _ "Sys_close (sk_s s) # tr"])
      (simp add: connect_result_def get_sock_live sys_def upd_sock_live Let_def, simp add: with_sock_def world_order)
qed

section \<open>A connection is established\<close>

lemma connected_section:
  assumes r: "at_rest i s w" "sk_state s = kNetSockStateConnecting" and w: "pollers_ok w" "device_up w" "tasks_are w T"
    and E: "grants E" "so_error E (sk_s s) 0"
  shows "\<exists>w' s'. run_fd E (Suc (Suc (Suc m))) i kNetPollerOut w = Inr w' \<and> at_rest i s' w' \<and>
     sk_state s' = kNetSockStateActive \<and> sk_s s' = sk_s s \<and> sk_msgq s' = sk_msgq s \<and> sk_worker s' = sk_worker s \<and>
     sockbuf.truncate s' = sockbuf.truncate s \<and> tasks_are w' (queued w i TkSend (sk_worker s) T) \<and>
     pollers_ok w' \<and> w_dev w' = w_dev w \<and> (\<forall>j. j \<noteq> i \<longrightarrow> w_socks w' j = w_socks w j) \<and> w_wraps w' = w_wraps w \<and>
     w_nwraps w' = w_nwraps w \<and> w_mem w' = w_mem w \<and> w_nsocks w' = w_nsocks w \<and>
     (\<forall>x. \<not> is_task x \<longrightarrow> w_next w' x = w_next w x)"
proof -
  note rest = r(1) [unfolded at_rest_def]
  let ?w1 = "w\<lparr>w_socks := (w_socks w)(i \<mapsto> locked s)\<rparr>" and ?k = "sk_worker s"
  have s1: "w_socks ?w1 i = Some (locked s)" by simp
  have feed: "on_fd E i kNetPollerOut ?w1 = connect_finished E i ?w1"
    using r(2) s1 by (simp add: NetSocketHandler_def live from_connecting_def case_connecting_def Let_def)
  obtain p h tr where h: "poller_ok p" "h_fd h = h_fd (handle_of s)" "connect_finished E i ?w1 =
      raise_sock i EvEstablished kNetSockEventTypeConnected (PSock i) (with_sock i (connected h (locked s)) ?k p tr ?w1)"
    using connect_law [OF s1, of E 0] rest w(1) E(2) by (auto simp: pollers_ok_def connect_result_def)
  let ?w2 = "with_sock i (connected h (locked s)) ?k p tr ?w1"
  let ?s3 = "(connected h (locked s))\<lparr>sk_event := (sk_event s)(EvEstablished := quiet_event i)\<rparr>"
  let ?w3 = "?w2\<lparr>w_socks := (w_socks ?w2)(i \<mapsto> ?s3)\<rparr>"
  have "tasks_are ?w3 T" using w(3) by simp
  then obtain w4 where w4: "execute_task E i TkSend ?w3 = Inr w4" "tasks_are w4 (queued w i TkSend ?k T)" "only_tasks ?w3 w4"
    using execute_task_tasks [of ?w3 i ?s3 T E TkSend] rest E(1) by (auto simp: queued_def appended_def)
  note same = only_tasks_simps [OF w4(3)]
  have s4: "w_socks w4 i = Some ?s3" by (simp add: same)
  have "run_fd E (Suc (Suc (Suc m))) i kNetPollerOut w = unlock_ctx i w4"
  proof (rule fd_raised [OF r(1) feed [unfolded h(3)] _ _ _ _ _ _ _ s4])
    show "NetDeviceFsmHandler E (dispatch E) kNetDeviceSrcSocketEvent kNetSockEventTypeConnected (PSock i)
        (?w2\<lparr>w_socks := (w_socks ?w2)(i \<mapsto> (connected h (locked s))\<lparr>sk_event := (sk_event (connected h (locked s)))(EvEstablished := quiet_event i)\<rparr>)\<rparr>) = Inr w4"
      using w4(1) by (simp add: NetDeviceFsmHandler_def as_sock_def)
  qed (use rest w(2) in simp_all)
  moreover have "unlock_ctx i w4 = Inr (w4\<lparr>w_socks := (w_socks w4)(i \<mapsto> ?s3\<lparr>sk_ctx := (sk_ctx ?s3)\<lparr>cx_locked := False\<rparr>\<rparr>)\<rparr>)"
    by (rule ctx_live(1) [OF s4])
  moreover have "pollers_ok w4"
    using pollers_ok_with_sock [OF _ h(1), of ?w1 i "connected h (locked s)" ?k tr] w(1) only_tasks_pollers [OF w4(3)] by simp
  moreover have "w_next w4 x = w_next w x" if "\<not> is_task x" for x using same(10) [OF that] by simp
  moreover have "w_wraps w4 = w_wraps w" "w_nwraps w4 = w_nwraps w" "w_mem w4 = w_mem w"
    by (simp_all add: same) (simp_all add: with_sock_def)
  ultimately show ?thesis
    using rest w4(2)
    by (intro exI [of _ "w4\<lparr>w_socks := (w_socks w4)(i \<mapsto> ?s3\<lparr>sk_ctx := (sk_ctx ?s3)\<lparr>cx_locked := False\<rparr>\<rparr>)\<rparr>"]
        exI [of _ "?s3\<lparr>sk_ctx := (sk_ctx ?s3)\<lparr>cx_locked := False\<rparr>\<rparr>"])
      (simp add: at_rest_def same(1-9), simp add: connected_def locked_def sockbuf.defs)
qed

section \<open>Properties\<close>

text \<open>A connection becomes active. When the descriptor of a connecting socket becomes writable and the
  kernel reports no error, one critical section stops polling for output, makes the socket
  active and lets the device answer the event Connected by queueing the socket's send task,
  so that the messages buffered while it was connecting are sent; the socket is at rest
  again.\<close>

theorem connection_becomes_active:
  assumes "at_rest i s w" and "sk_state s = kNetSockStateConnecting" and "pollers_ok w" and "device_up w" and "tasks_are w T"
    and "grants E" and "so_error E (sk_s s) 0"
  shows "\<exists>w' s'. run_fd E (Suc (Suc (Suc m))) i kNetPollerOut w = Inr w' \<and> at_rest i s' w' \<and>
     sk_state s' = kNetSockStateActive \<and> sk_s s' = sk_s s \<and> sk_msgq s' = sk_msgq s \<and> tasks_are w' (queued w i TkSend (sk_worker s) T)"
  using connected_section [OF assms, of m] by blast

text \<open>An active socket of a listening device, and the same socket while it was connecting.\<close>

lemma some_active:
  "\<exists>w s T. at_rest 1 s w \<and> sk_state s = kNetSockStateActive \<and> pollers_ok w \<and> device_up w \<and> tasks_are w T"
proof -
  obtain w ls s where w: "accept_ready 0 1 first_tasks w" "w_socks w 0 = Some ls" "w_socks w 1 = Some s" using kind_start by blast
  have "accepts kind_env (sk_s ls) (sr_ret (env_os kind_env (Sys_accept4 (sk_s ls) # w_trace w))) (w_trace w)"
    by (simp add: accepts_def kind_accepts)
  from accept_section [OF w boots_grants(1) [OF kind_boots] this, of 0] show ?thesis
    unfolding accept_ready_def by blast
qed

lemma some_connecting:
  "\<exists>w s T. at_rest 1 s w \<and> sk_state s = kNetSockStateConnecting \<and> pollers_ok w \<and> device_up w \<and> tasks_are w T"
proof -
  obtain w s T where "at_rest 1 s w" "pollers_ok w" "device_up w" "tasks_are w T" using some_active by blast
  then show ?thesis
    by (intro exI [of _ "w\<lparr>w_socks := (w_socks w)(1 \<mapsto> s\<lparr>sk_state := kNetSockStateConnecting\<rparr>)\<rparr>"]
        exI [of _ "s\<lparr>sk_state := kNetSockStateConnecting\<rparr>"] exI [of _ T]) (simp add: at_rest_def)
qed

lemma kind_closes: "closes kind_env"
  by (simp add: closes_def kind_env_def sysret_def)

theorem connection_becomes_active_witness:
  "\<exists>w w' s'. run_fd kind_env 3 1 kNetPollerOut w = Inr w' \<and> at_rest 1 s' w' \<and> sk_state s' = kNetSockStateActive"
proof -
  obtain w s T where w: "at_rest 1 s w" "sk_state s = kNetSockStateConnecting" "pollers_ok w" "device_up w" "tasks_are w T"
    using some_connecting by blast
  have "so_error kind_env (sk_s s) 0" by (simp add: so_error_def kind_env_def sysret_def)
  from connection_becomes_active [OF w boots_grants(1) [OF kind_boots] this, of 0] show ?thesis
    unfolding numeral_3_eq_3 by blast
qed

text \<open>C28: Any error of one connection ends the process. If the poller reports an error for the descriptor
  of an active or a connecting socket, or the kernel reports that a connection attempt
  failed, the socket raises the event Error and the device answers it with LOG(FATAL). So
  one peer that resets its connection, or one that refuses it, takes the whole process down;
  nothing reconnects.\<close>

theorem connection_error_ends_process:
  assumes r: "at_rest i s w" and w: "pollers_ok w" "device_up w" and E: "closes E"
    and cause: "pevent = kNetPollerErr \<and> (sk_state s = kNetSockStateActive \<or> sk_state s = kNetSockStateConnecting) \<or>
      pevent = kNetPollerOut \<and> sk_state s = kNetSockStateConnecting \<and> (\<exists>e. e \<noteq> 0 \<and> so_error E (sk_s s) e)"
  shows "run_fd E (Suc (Suc m)) i pevent w = Inl (LogFatal ''Unexpected Run'')"
proof (rule fd_fails [OF r])
  note rest = r [unfolded at_rest_def]
  let ?w1 = "w\<lparr>w_socks := (w_socks w)(i \<mapsto> locked s)\<rparr>"
  have s1: "w_socks ?w1 i = Some (locked s)" and k1: "sk_worker (locked s) < length (w_workers ?w1)" and p1: "pollers_ok ?w1" "device_up ?w1"
    using rest w by simp_all
  have err: "andThen (fd_error E i ?w1) (process_events E (Suc m) i) = Inl (LogFatal ''Unexpected Run'')"
    using rest p1 by (intro fd_error_aborts [OF s1 k1 _ E]) simp_all
  from cause show "andThen (on_fd E i pevent ?w1) (process_events E (Suc m) i) = Inl (LogFatal ''Unexpected Run'')"
  proof (elim disjE conjE exE)
    fix e
    assume c: "pevent = kNetPollerOut" "sk_state s = kNetSockStateConnecting" and e: "e \<noteq> 0" "so_error E (sk_s s) e"
    obtain p h tr where h: "poller_ok p" "connect_finished E i ?w1 = connect_result E i (e, with_sock i (connected h (locked s)) (sk_worker s) p tr ?w1)"
      using connect_law [OF s1 k1 p1(1), of E e] e(2) by auto
    let ?w2 = "with_sock i (connected h (locked s)) (sk_worker s) p tr ?w1"
    obtain p' tr' where "connect_result E i (e, ?w2) = raise_sock i EvError kNetSockEventTypeError (PSock i)
       (with_sock i ((connected h (locked s))\<lparr>sk_errnum := e, sk_s := - 1, sk_state := kNetSockStateDone\<rparr>) (sk_worker s) p' tr' ?w2)"
      using connect_failure [of ?w2 i "connected h (locked s)" E e] pollers_ok_with_sock [OF p1(1) h(1)] rest E e(1) by auto
    moreover have "on_fd E i pevent ?w1 = connect_finished E i ?w1"
      using c s1 by (simp add: NetSocketHandler_def live from_connecting_def case_connecting_def Let_def)
    ultimately show ?thesis
      unfolding h(2) using rest w
      by (simp, intro raise_error_aborts [where s = "(connected h (locked s))\<lparr>sk_errnum := e, sk_s := - 1, sk_state := kNetSockStateDone\<rparr>"]) simp_all
  qed (use err s1 in \<open>simp_all add: NetSocketHandler_def live from_active_def case_active_def from_connecting_def case_connecting_def Let_def\<close>)
qed

definition refusing_env :: env where
  "refusing_env = kind_env\<lparr>env_os := (\<lambda>tr. case tr of Sys_getsockopt_error f # _ \<Rightarrow> (sysret 0)\<lparr>sr_opt := 111\<rparr> | _ \<Rightarrow> kind_os tr)\<rparr>"

theorem connection_error_ends_process_witness:
  "\<exists>w s. at_rest 1 s w \<and> sk_state s = kNetSockStateConnecting \<and>
     run_fd refusing_env 2 1 kNetPollerErr w = Inl (LogFatal ''Unexpected Run'') \<and>
     run_fd refusing_env 2 1 kNetPollerOut w = Inl (LogFatal ''Unexpected Run'')"
proof -
  obtain w s T where w: "at_rest 1 s w" "sk_state s = kNetSockStateConnecting" "pollers_ok w" "device_up w"
    using some_connecting by blast
  have E: "closes refusing_env" by (simp add: closes_def refusing_env_def sysret_def)
  have "so_error refusing_env (sk_s s) 111" by (simp add: so_error_def refusing_env_def sysret_def)
  then have "\<exists>e. e \<noteq> 0 \<and> so_error refusing_env (sk_s s) e" by (intro exI [of _ 111]) simp
  with connection_error_ends_process [OF w(1,3,4) E, of kNetPollerErr 0] connection_error_ends_process [OF w(1,3,4) E, of kNetPollerOut 0] w(1,2)
  show ?thesis unfolding numeral_2_eq_2 by blast
qed

text \<open>C29: Stopping an active socket ends the process. AsyncStop queues the stop task and raises the event
  Shutdown, which stays queued in the socket's context. When the worker runs the task, the
  case of the active state does not know its source, prints a line and runs on into the
  case that removes the descriptor; the error raised there overwrites the queued event, and
  the device answers the error with LOG(FATAL). The destructor of the device calls
  AsyncStop for every socket.\<close>

theorem stop_of_active_ends_process:
  assumes "at_rest i s w" and "sk_state s = kNetSockStateActive" and "pollers_ok w" and "device_up w" and "tasks_are w T"
    and "grants E" and "closes E"
  shows "\<exists>w1. NetSocket_AsyncStop E i w = Inr w1 \<and> tasks_are w1 (queued w i TkStop (sk_worker s) T) \<and>
     run_task E (Suc (Suc m)) i TkStop w1 = Inl (LogFatal ''Unexpected Run'')"
  using AsyncStop_law [OF assms(1,5,6,3,4)] stop_task_aborts [OF assms(1) _ assms(2,7)]
  unfolding queued_def by blast

theorem stop_of_active_ends_process_witness:
  "\<exists>w w1. NetSocket_AsyncStop kind_env 1 w = Inr w1 \<and> run_task kind_env 2 1 TkStop w1 = Inl (LogFatal ''Unexpected Run'')"
proof -
  obtain w s T where w: "at_rest 1 s w" "sk_state s = kNetSockStateActive" "pollers_ok w" "device_up w" "tasks_are w T"
    using some_active by blast
  from stop_of_active_ends_process [OF w boots_grants(1) [OF kind_boots] kind_closes, of 0] show ?thesis
    unfolding numeral_2_eq_2 by blast
qed

text \<open>A kernel that has nothing to read on \<open>f\<close>.\<close>

definition nothing_to_read :: "env \<Rightarrow> int \<Rightarrow> bool" where
  "nothing_to_read E f \<longleftrightarrow> (\<forall>tr n. sr_ret (env_os E (Sys_read f n # tr)) < 0 \<and> would_block (env_os E (Sys_read f n # tr)))"

lemma RecvRaw_nothing:
  fixes sk :: "'a sockbuf_scheme"
  assumes "nothing_to_read E (sk_s sk)" and "sk_in_offset sk = 0"
  shows "\<exists>tr'. NetSocket_RecvRaw (env_os E) u mem sk tr = (- EAGAIN, sk, mem, tr')"
proof -
  have "sk\<lparr>sk_in_buf := sk_in_buf sk, sk_in_offset := 0\<rparr> = sk" using assms(2) by (cases sk) simp
  moreover have "below_header 0" by (simp add: below_header_def)
  ultimately show ?thesis
    using assms by (simp add: NetSocket_RecvRaw_def recv_header_def read_some_def nothing_to_read_def store_at_def Let_def)
qed

text \<open>C30: An event during the stop uses a freed socket. If, between AsyncStop and the stop task, the
  descriptor of the active socket becomes readable (here without any data), the critical
  section for that event takes the queued Shutdown event out of the socket's context, the
  device answers it by deleting the socket, and the section's loop goes on with the context
  that was part of it.\<close>

theorem event_during_stop_uses_freed_socket:
  assumes r: "at_rest i s w" and s: "sk_state s = kNetSockStateActive" "sk_in_offset s = 0"
    and w: "pollers_ok w" "device_up w" "tasks_are w T" and E: "grants E" "nothing_to_read E (sk_s s)"
  shows "\<exists>w1. NetSocket_AsyncStop E i w = Inr w1 \<and> run_fd E (Suc (Suc (Suc m))) i kNetPollerIn w1 = Inl (UseAfterFree ''NetSocket'')"
proof -
  note rest = r [unfolded at_rest_def]
  obtain w1 where w1: "NetSocket_AsyncStop E i w = Inr w1" "stopping i s w1" using AsyncStop_law [OF r w(3) E(1) w(1,2)] by blast
  let ?s = "locked (stopping_sock i s)"
  let ?w2 = "w1\<lparr>w_socks := (w_socks w1)(i \<mapsto> ?s)\<rparr>"
  note stop = w1(2) [unfolded stopping_def]
  have "sk_s ?s = sk_s s" "sk_in_offset ?s = 0" using s(2) by (simp_all add: stopping_sock_def locked_def Let_def)
  with RecvRaw_nothing [of E ?s] E(2) obtain tr where
    rr: "NetSocket_RecvRaw (env_os E) (env_user E) (w_mem w1) ?s (w_trace w1) = (- EAGAIN, ?s, w_mem w1, tr)" by metis
  have s2: "w_socks ?w2 i = Some ?s" and r2: "running ?s" using rest by (simp_all add: attached_def)
  have "NetFsm_Feed (dispatch E) (FSock i) kNetSockSrcFd kNetPollerIn (PWfd i) ?w2 = Inr (?w2\<lparr>w_trace := tr\<rparr>)"
    unfolding Feed_sock [OF s2 r2] using s(1) rr
    by (simp add: NetSocketHandler_def live from_active_def case_active_def active_in_def sock_RecvRaw_def stopping_sock_def Let_def)
  moreover have "process_events E (Suc (Suc m)) i (?w2\<lparr>w_trace := tr\<rparr>) = Inl (UseAfterFree ''NetSocket'')"
    using stop rest by (intro stopping_event_frees [where s = ?s]) (simp_all add: stopping_sock_def Let_def)
  moreover have "run_fd E (Suc (Suc (Suc m))) i kNetPollerIn w1 =
      NetCtx_ExecuteCriticalSection E (Suc (Suc (Suc m))) i (NetFsm_Feed (dispatch E) (FSock i) kNetSockSrcFd kNetPollerIn (PWfd i)) w1"
    using stop rest by (simp add: run_fd_def live attached_def stopping_sock_def Let_def)
  ultimately have "run_fd E (Suc (Suc (Suc m))) i kNetPollerIn w1 = Inl (UseAfterFree ''NetSocket'')"
    using section_fails [OF stopping_locked [OF w1(2)], of "NetFsm_Feed (dispatch E) (FSock i) kNetSockSrcFd kNetPollerIn (PWfd i)"] rest
    by simp
  with w1(1) show ?thesis by blast
qed

definition idle_env :: env where
  "idle_env = kind_env\<lparr>env_os := (\<lambda>tr. case tr of Sys_read f n # _ \<Rightarrow> syserr EAGAIN | _ \<Rightarrow> kind_os tr)\<rparr>"

theorem event_during_stop_uses_freed_socket_witness:
  "\<exists>w w1. NetSocket_AsyncStop idle_env 1 w = Inr w1 \<and> run_fd idle_env 3 1 kNetPollerIn w1 = Inl (UseAfterFree ''NetSocket'')"
proof -
  obtain w s T where w: "at_rest 1 s w" "sk_state s = kNetSockStateActive" "pollers_ok w" "device_up w" "tasks_are w T"
    using some_active by blast
  let ?s = "s\<lparr>sk_in_offset := 0\<rparr>" and ?w = "w\<lparr>w_socks := (w_socks w)(1 \<mapsto> s\<lparr>sk_in_offset := 0\<rparr>)\<rparr>"
  have r: "at_rest 1 ?s ?w" using w(1) by (simp add: at_rest_def attached_def running_def)
  have E: "grants idle_env" "nothing_to_read idle_env (sk_s ?s)"
    by (simp_all add: grants_def can_signal_def sets_flags_def idle_env_def sysret_def le_bytes_def
        nothing_to_read_def would_block_def syserr_def)
  from event_during_stop_uses_freed_socket [OF r _ _ _ _ _ E, of T 0] w show ?thesis
    unfolding numeral_3_eq_3 by simp blast
qed

end
