(* ===== verification/Netmail.thy ===== *)
theory Netmail
  imports Netfail
begin

text \<open>
  The messages that are buffered for the sockets, as lists. \<open>AsyncSendMsg\<close> copies the
  message into a new wrapper and pushes the wrapper on the socket's queue;
  \<open>DequeueNetMsgToBuf\<close> pops it, copies it into the output buffer and frees the wrapper.
  \<open>mail_are w M\<close> abstracts queues, links and wrappers of all sockets to the list \<open>M i\<close> of
  the messages of each socket \<open>i\<close>, and the laws say what each operation does to \<open>M\<close>.
\<close>

section \<open>Buffered messages\<close>

text \<open>\<open>K i\<close>: the wrappers in the queue of socket \<open>i\<close>, by number. No wrapper is in two queues.\<close>

definition mail_keys :: "world \<Rightarrow> (nat \<Rightarrow> nat list) \<Rightarrow> (nat \<Rightarrow> netmsg list) \<Rightarrow> bool" where
  "mail_keys w K M \<longleftrightarrow>
     (\<forall>i. case w_socks w i of None \<Rightarrow> K i = []
          | Some s \<Rightarrow> queue_rep (w_next w) (sk_msgq s) (map MsgItem (K i))) \<and>
     (\<forall>i j. i \<noteq> j \<longrightarrow> set (K i) \<inter> set (K j) = {}) \<and>
     (\<forall>i. map (w_wraps w) (K i) = map (\<lambda>m. Some (NetMsgWrapper_New m)) (M i)) \<and>
     (\<forall>i. \<forall>k \<in> set (K i). k < w_nwraps w)"

definition mail_are :: "world \<Rightarrow> (nat \<Rightarrow> netmsg list) \<Rightarrow> bool" where
  "mail_are w M \<longleftrightarrow> (\<exists>K. mail_keys w K M)"

text \<open>A step that changes no message queue, no message link and no wrapper.\<close>

definition same_mail :: "world \<Rightarrow> world \<Rightarrow> bool" where
  "same_mail w w' \<longleftrightarrow>
     (\<forall>i. map_option sk_msgq (w_socks w' i) = map_option sk_msgq (w_socks w i)) \<and>
     (\<forall>k. w_next w' (MsgItem k) = w_next w (MsgItem k)) \<and> w_wraps w' = w_wraps w \<and> w_nwraps w' = w_nwraps w"

lemma mail_keysI:
  assumes "\<And>i s. w_socks w i = Some s \<Longrightarrow> queue_rep (w_next w) (sk_msgq s) (map MsgItem (K i))"
    and "\<And>i. w_socks w i = None \<Longrightarrow> K i = []" and "\<And>i j. i \<noteq> j \<Longrightarrow> set (K i) \<inter> set (K j) = {}"
    and "\<And>i. map (w_wraps w) (K i) = map (\<lambda>m. Some (NetMsgWrapper_New m)) (M i)"
    and "\<And>i k. k \<in> set (K i) \<Longrightarrow> k < w_nwraps w"
  shows "mail_keys w K M"
  unfolding mail_keys_def using assms by (simp split: option.split)

lemma mailD:
  assumes "mail_keys w K M"
  shows "w_socks w i = Some s \<Longrightarrow> queue_rep (w_next w) (sk_msgq s) (map MsgItem (K i))"
    and "w_socks w i = None \<Longrightarrow> K i = []" and "i \<noteq> j \<Longrightarrow> set (K i) \<inter> set (K j) = {}"
    and "map (w_wraps w) (K i) = map (\<lambda>m. Some (NetMsgWrapper_New m)) (M i)"
    and "k \<in> set (K i) \<Longrightarrow> k < w_nwraps w"
  using assms unfolding mail_keys_def by (auto dest: spec [of _ i])

lemma same_mail_keys:
  assumes M: "mail_keys w K M" and w: "same_mail w w'"
  shows "mail_keys w' K M"
proof (rule mail_keysI)
  fix i s
  assume s: "w_socks w' i = Some s"
  from w have "map_option sk_msgq (w_socks w' i) = map_option sk_msgq (w_socks w i)" by (simp add: same_mail_def)
  with s obtain s0 where s0: "w_socks w i = Some s0" "sk_msgq s = sk_msgq s0" by (cases "w_socks w i") auto
  have "queue_rep (w_next w') (sk_msgq s0) (map MsgItem (K i)) = queue_rep (w_next w) (sk_msgq s0) (map MsgItem (K i))"
    using w by (intro queue_rep_frame) (auto simp: same_mail_def)
  with mailD(1) [OF M s0(1)] s0(2) show "queue_rep (w_next w') (sk_msgq s) (map MsgItem (K i))" by simp
next
  fix i
  assume "w_socks w' i = None"
  moreover from w have "map_option sk_msgq (w_socks w' i) = map_option sk_msgq (w_socks w i)" by (simp add: same_mail_def)
  ultimately have "w_socks w i = None" by simp
  then show "K i = []" by (rule mailD(2) [OF M])
qed (use w mailD(3-5) [OF M] in \<open>simp_all add: same_mail_def\<close>)

lemma same_mail_are: "mail_are w M \<Longrightarrow> same_mail w w' \<Longrightarrow> mail_are w' M"
  by (auto simp: mail_are_def intro: same_mail_keys)

lemma same_mail_refl [simp]: "same_mail w w"
  by (simp add: same_mail_def)

lemma same_mail_trans: "same_mail u v \<Longrightarrow> same_mail v w \<Longrightarrow> same_mail u w"
  by (simp add: same_mail_def)

lemma same_mail_sock:
  "w_socks w i = Some s \<Longrightarrow> sk_msgq s' = sk_msgq s \<Longrightarrow> same_mail w (w\<lparr>w_socks := (w_socks w)(i \<mapsto> s')\<rparr>)"
  by (simp add: same_mail_def)

lemma only_tasks_same_mail: "only_tasks w w' \<Longrightarrow> same_mail w w'"
  using only_tasks_simps by (fastforce simp: same_mail_def)

section \<open>A message is added\<close>

definition enqueued :: "nat \<Rightarrow> netsock \<Rightarrow> netmsg \<Rightarrow> qitem links \<Rightarrow> qitem netqueue \<Rightarrow> world \<Rightarrow> world" where
  "enqueued i s m nx q w =
     w\<lparr>w_wraps := (w_wraps w)(w_nwraps w \<mapsto> NetMsgWrapper_New m), w_nwraps := Suc (w_nwraps w), w_next := nx,
       w_socks := (w_socks w)(i \<mapsto> s\<lparr>sk_msgq := q\<rparr>)\<rparr>"

lemma enqueue_mail:
  assumes M: "mail_keys w K M" and s: "w_socks w i = Some s"
    and p: "pushed ((w_next w)(MsgItem (w_nwraps w) := NOT_IN_QUEUE)) (sk_msgq s) (map MsgItem (K i)) (MsgItem (w_nwraps w)) nx q"
  shows "mail_keys (enqueued i s m nx q w) (K(i := K i @ [w_nwraps w])) (M(i := M i @ [m]))"
proof -
  let ?k = "w_nwraps w" and ?nx = "(w_next w)(MsgItem (w_nwraps w) := NOT_IN_QUEUE)"
  have new: "?k \<notin> set (K j)" for j using M by (auto simp: mail_keys_def)
  have "queue_rep nx q (map MsgItem (K i @ [?k]))" using pushed_rep [OF p] by (simp add: appended_def)
  moreover have "queue_rep nx q2 (map MsgItem (K j))" if "queue_rep (w_next w) q2 (map MsgItem (K j))" "j \<noteq> i" for j q2
  proof (rule pushed_keeps [OF p])
    show "queue_rep ?nx q2 (map MsgItem (K j))"
      using that(1) new [of j] by (subst queue_rep_frame [where nx = "w_next w"]) auto
    show "set (map MsgItem (K j)) \<inter> insert (MsgItem ?k) (set (map MsgItem (K i))) = {}"
      using M that(2) new [of j] unfolding mail_keys_def by fastforce
  qed
  ultimately have rep: "queue_rep nx (sk_msgq s') (map MsgItem ((K(i := K i @ [?k])) j))"
    if "w_socks (enqueued i s m nx q w) j = Some s'" for j s'
    using that mailD(1) [OF M, of j s'] by (auto simp: enqueued_def split: if_splits)
  show ?thesis
  proof (rule mail_keysI)
    fix j l :: nat
    assume "j \<noteq> l"
    with mailD(3) [OF M this] new show "set ((K(i := K i @ [?k])) j) \<inter> set ((K(i := K i @ [?k])) l) = {}" by auto
  next
    fix j
    have "map ((w_wraps w)(?k \<mapsto> x)) (K j) = map (\<lambda>m. Some (NetMsgWrapper_New m)) (M j)" for x
      unfolding mailD(4) [OF M, symmetric] using new [of j] by (auto intro: map_cong)
    from this [of "NetMsgWrapper_New m"] show "map (w_wraps (enqueued i s m nx q w)) ((K(i := K i @ [?k])) j) =
        map (\<lambda>m. Some (NetMsgWrapper_New m)) ((M(i := M i @ [m])) j)"
      by (cases "j = i") (simp_all add: enqueued_def)
  next
    fix j l
    assume "l \<in> set ((K(i := K i @ [?k])) j)"
    with mailD(5) [OF M, of l] show "l < w_nwraps (enqueued i s m nx q w)"
      by (auto simp: enqueued_def less_Suc_eq split: if_splits)
  qed (use rep mailD(2) [OF M] in \<open>auto simp: enqueued_def split: if_splits\<close>)
qed

text \<open>What stays: everything but the wrappers, the messages' links and the queue of the one socket.\<close>

lemma enqueued_simps [simp]:
  "w_nsocks (enqueued i s m nx q w) = w_nsocks w" "w_dev (enqueued i s m nx q w) = w_dev w"
  "w_cur_worker (enqueued i s m nx q w) = w_cur_worker w" "w_workers (enqueued i s m nx q w) = w_workers w"
  "w_mem (enqueued i s m nx q w) = w_mem w" "w_log (enqueued i s m nx q w) = w_log w" "w_trace (enqueued i s m nx q w) = w_trace w"
  "w_next (enqueued i s m nx q w) = nx" "w_socks (enqueued i s m nx q w) = (w_socks w)(i \<mapsto> s\<lparr>sk_msgq := q\<rparr>)"
  by (simp_all add: enqueued_def)

fun is_msg :: "qitem \<Rightarrow> bool" where
  "is_msg (MsgItem k) = True"
| "is_msg _ = False"

lemma is_msg_not_task: "is_msg x \<Longrightarrow> \<not> is_task x"
  by (cases x) simp_all

lemma AsyncSendMsg_law:
  assumes s: "w_socks w i = Some s" and k: "sk_worker s < length (w_workers w)"
    and T: "tasks_are w T" and M: "mail_are w M" and E: "grants E"
  shows "\<exists>w' nx q. NetSocket_AsyncSendMsg E i m w = Inr w' \<and> mail_are w' (M(i := M i @ [m])) \<and>
     tasks_are w' (T(sk_worker s := appended (w_next w) (TaskItem i TkSend) (T (sk_worker s)))) \<and>
     only_tasks (enqueued i s m nx q w) w' \<and> (\<forall>x. \<not> is_msg x \<longrightarrow> nx x = w_next w x)"
proof -
  let ?k = "w_nwraps w" and ?nx = "(w_next w)(MsgItem (w_nwraps w) := NOT_IN_QUEUE)"
  from M obtain K where K: "mail_keys w K M" by (auto simp: mail_are_def)
  have "queue_rep ?nx (sk_msgq s) (map MsgItem (K i))"
    using mailD(1) [OF K s] mailD(5) [OF K, of _ i] by (subst queue_rep_frame [where nx = "w_next w"]) auto
  from pushed_ex [OF this] obtain q nx where p: "pushed ?nx (sk_msgq s) (map MsgItem (K i)) (MsgItem ?k) nx q" by blast
  have nx: "nx x = w_next w x" if "\<not> is_msg x" for x
  proof -
    from that have "x \<notin> set (map MsgItem (K i))" "x \<noteq> MsgItem ?k" by auto
    with p show ?thesis by (simp add: pushed_def)
  qed
  let ?w1 = "w\<lparr>w_wraps := (w_wraps w)(?k \<mapsto> NetMsgWrapper_New m), w_nwraps := Suc ?k, w_next := ?nx\<rparr>"
  let ?w2 = "enqueued i s m nx q w"
  have "get_msgq i ?w1 = Inr (sk_msgq s)" using s by (simp add: live)
  from push_on_law [where get = "get_msgq i" and put = "put_msgq i", OF this, of "map MsgItem (K i)" "MsgItem ?k" nx q] p s
  have "push_on (MsgItem ?k) (get_msgq i) (put_msgq i) ?w1 = Inr ?w2" by (simp add: live enqueued_def)
  then have send: "NetSocket_AsyncSendMsg E i m w = execute_task E i TkSend ?w2"
    by (simp add: NetSocket_AsyncSendMsg_def NetQueueItem_Init_def Let_def)
  have "nx x = w_next w x" if "x \<in> set (T k)" for x k
    using that T nx is_msg_not_task unfolding tasks_are_def by blast
  with T have T2: "tasks_are ?w2 T" by (intro tasks_are_frame [OF T]) simp_all
  obtain w' where w': "execute_task E i TkSend ?w2 = Inr w'" "only_tasks ?w2 w'"
    "tasks_are w' (T(sk_worker s := appended (w_next w) (TaskItem i TkSend) (T (sk_worker s))))"
    using execute_task_tasks [of ?w2 i "s\<lparr>sk_msgq := q\<rparr>" T E TkSend] k T2 E nx [of "TaskItem i TkSend"]
    by (auto simp: appended_def cong: if_cong)
  from enqueue_mail [OF K s p] have "mail_are ?w2 (M(i := M i @ [m]))" by (auto simp: mail_are_def)
  from same_mail_are [OF this only_tasks_same_mail [OF w'(2)]] send w' nx show ?thesis
    by (intro exI [of _ w'] exI [of _ nx] exI [of _ q]) simp
qed

section \<open>The next message is taken out\<close>

definition dequeued :: "nat \<Rightarrow> netsock \<Rightarrow> nat \<Rightarrow> qitem netqueue \<Rightarrow> world \<Rightarrow> world" where
  "dequeued i s' k q w =
     w\<lparr>w_next := (w_next w)(MsgItem k := NOT_IN_QUEUE), w_wraps := (w_wraps w)(k := None),
       w_socks := (w_socks w)(i \<mapsto> s'\<lparr>sk_msgq := q\<rparr>)\<rparr>"

lemma dequeue_mail:
  assumes M: "mail_keys w K M" and s: "w_socks w i = Some s" and K: "K i = k # ks" and m: "M i = m # ms"
    and q: "queue_rep ((w_next w)(MsgItem k := NOT_IN_QUEUE)) q (map MsgItem ks)"
  shows "mail_keys (dequeued i s' k q w) (K(i := ks)) (M(i := ms))"
proof -
  have dist: "distinct (K i)"
    using mailD(1) [OF M s] by (simp add: queue_rep_def distinct_map)
  have other: "k \<notin> set (K j)" if "j \<noteq> i" for j using mailD(3) [OF M that] K by auto
  have wraps: "map ((w_wraps w)(k := None)) xs = map (w_wraps w) xs" if "k \<notin> set xs" for xs
    using that by (auto intro: map_cong)
  have rep: "queue_rep ((w_next w)(MsgItem k := NOT_IN_QUEUE)) (sk_msgq s2) (map MsgItem (K j))"
    if "w_socks w j = Some s2" "j \<noteq> i" for j s2
    using mailD(1) [OF M that(1)] other [OF that(2)] by (subst queue_rep_frame [where nx = "w_next w"]) auto
  show ?thesis
  proof (rule mail_keysI)
    fix j l :: nat
    assume "j \<noteq> l"
    with mailD(3) [OF M this] K show "set ((K(i := ks)) j) \<inter> set ((K(i := ks)) l) = {}" by (auto split: if_splits)
  next
    fix j
    show "map (w_wraps (dequeued i s' k q w)) ((K(i := ks)) j) = map (\<lambda>m. Some (NetMsgWrapper_New m)) ((M(i := ms)) j)"
      using mailD(4) [OF M, of j] dist K m wraps [of ks] wraps [of "K j"] other [of j]
      by (cases "j = i") (simp_all add: dequeued_def)
  next
    fix j l
    assume "l \<in> set ((K(i := ks)) j)"
    with mailD(5) [OF M, of l j] K show "l < w_nwraps (dequeued i s' k q w)" by (auto simp: dequeued_def split: if_splits)
  qed (use rep q mailD(2) [OF M] in \<open>auto simp: dequeued_def split: if_splits\<close>)
qed

lemma Dequeue_law:
  assumes s: "w_socks w i = Some s" and M: "mail_are w M"
  shows "case M i of
     [] \<Rightarrow> NetSocket_DequeueNetMsgToBuf i w = Inr (False, w)
   | m # ms \<Rightarrow> \<exists>k q. NetSocket_DequeueNetMsgToBuf i w = Inr (True, dequeued i (load_msg m s) k q w) \<and>
       mail_are (dequeued i (load_msg m s) k q w) (M(i := ms))"
proof -
  from M obtain K where K: "mail_keys w K M" by (auto simp: mail_are_def)
  note rep = mailD(1) [OF K s] and wr = mailD(4) [OF K, of i]
  show ?thesis
  proof (cases "M i")
    case Nil
    with wr rep have "NetQueue_Empty (sk_msgq s) = 1" by (simp add: Empty_rep)
    with Nil s show ?thesis by (simp add: NetSocket_DequeueNetMsgToBuf_def live)
  next
    case (Cons m ms)
    with wr obtain k ks where k: "K i = k # ks" "w_wraps w k = Some (NetMsgWrapper_New m)" by (cases "K i") auto
    from Pop_cons_frame [of "w_next w" "sk_msgq s" "MsgItem k" "map MsgItem ks"] rep k obtain q where
      q: "NetQueue_Pop (sk_msgq s) (w_next w) = Inr (Some (MsgItem k), q, (w_next w)(MsgItem k := NOT_IN_QUEUE))"
        "queue_rep ((w_next w)(MsgItem k := NOT_IN_QUEUE)) q (map MsgItem ks)" by auto
    have ne: "NetQueue_Empty (sk_msgq s) \<noteq> 1" using rep k by (simp add: Empty_rep)
    have "load_msg m (s\<lparr>sk_msgq := q\<rparr>) = (load_msg m s)\<lparr>sk_msgq := q\<rparr>" by (simp add: load_msg_def)
    then have "NetSocket_DequeueNetMsgToBuf i w = Inr (True, dequeued i (load_msg m s) k q w)"
      using s ne q(1) k(2) by (simp add: NetSocket_DequeueNetMsgToBuf_def live pop_from_def NetMsgWrapper_New_def dequeued_def)
    moreover from dequeue_mail [OF K s k(1) Cons q(2)] have "mail_are (dequeued i (load_msg m s) k q w) (M(i := ms))"
      by (auto simp: mail_are_def)
    ultimately show ?thesis using Cons by auto
  qed
qed

end
