(* ===== verification/Netsend.thy ===== *)
theory Netsend
  imports Netmail
begin

text \<open>
  The output of an active socket: what an output event of its descriptor does to the
  process, by refinement of the step \<open>out_event\<close> on the bare buffers.
\<close>

section \<open>The transfer only looks at the buffers\<close>

lemma truncate_simps [simp]:
  "sk_s (sockbuf.truncate s) = sk_s s" "sk_in_buf (sockbuf.truncate s) = sk_in_buf s" "sk_out_buf (sockbuf.truncate s) = sk_out_buf s"
  "sk_in_offset (sockbuf.truncate s) = sk_in_offset s" "sk_out_offset (sockbuf.truncate s) = sk_out_offset s"
  "sk_busy (sockbuf.truncate s) = sk_busy s"
  "sockbuf.truncate (sk_out_offset_update f s) = sk_out_offset_update f (sockbuf.truncate s)"
  "sockbuf.truncate (sk_in_offset_update f s) = sk_in_offset_update f (sockbuf.truncate s)"
  "sockbuf.truncate (sk_in_buf_update g s) = sk_in_buf_update g (sockbuf.truncate s)"
  "sockbuf.truncate (sk_busy_update h s) = sk_busy_update h (sockbuf.truncate s)"
  "sockbuf.truncate (load_msg m s) = load_msg m (sockbuf.truncate s)"
  by (simp_all add: sockbuf.defs load_msg_def)

lemma truncate_netsock [simp]:
  "sockbuf.truncate (s\<lparr>sk_ctx := c\<rparr>) = sockbuf.truncate s" "sockbuf.truncate (s\<lparr>sk_msgq := q\<rparr>) = sockbuf.truncate s"
  "sockbuf.truncate (s\<lparr>sk_event := e\<rparr>) = sockbuf.truncate s" "sockbuf.truncate (s\<lparr>sk_wfd := f\<rparr>) = sockbuf.truncate s"
  "sockbuf.truncate (locked s) = sockbuf.truncate s"
  by (simp_all add: sockbuf.defs locked_def)

lemma send_parts:
  "send_header os (sockbuf.truncate sk) off tr = send_header os sk off tr"
  "send_payload os mem (sockbuf.truncate sk) m off tr = send_payload os mem sk m off tr"
  by (simp_all add: send_header_def send_payload_def)

lemma SendRaw_core:
  "\<exists>rc off tr1. NetSocket_SendRaw os mem sk tr = (rc, sk\<lparr>sk_out_offset := off\<rparr>, tr1) \<and> rc \<in> {0, - EAGAIN, - ECONNRESET} \<and>
     NetSocket_SendRaw os mem (sockbuf.truncate sk) tr = (rc, (sockbuf.truncate sk)\<lparr>sk_out_offset := off\<rparr>, tr1)"
  by (auto simp: NetSocket_SendRaw_def send_parts Let_def split: prod.splits)

lemma same_busy: "sk\<lparr>sk_out_offset := off, sk_busy := sk_busy sk\<rparr> = sk\<lparr>sk_out_offset := off\<rparr>"
  by (cases sk) simp

lemma send_step_core:
  "\<exists>r off b tr1. send_step os mem sk tr = (r, sk\<lparr>sk_out_offset := off, sk_busy := b\<rparr>, tr1) \<and>
     send_step os mem (sockbuf.truncate sk) tr = (r, (sockbuf.truncate sk)\<lparr>sk_out_offset := off, sk_busy := b\<rparr>, tr1)"
proof -
  obtain rc off tr1 where r: "NetSocket_SendRaw os mem sk tr = (rc, sk\<lparr>sk_out_offset := off\<rparr>, tr1)"
    "NetSocket_SendRaw os mem (sockbuf.truncate sk) tr = (rc, (sockbuf.truncate sk)\<lparr>sk_out_offset := off\<rparr>, tr1)"
    using SendRaw_core by blast
  let ?b = "if rc = 0 then False else sk_busy sk"
  have "sk\<lparr>sk_out_offset := off, sk_busy := ?b\<rparr> = (if rc = 0 then sk\<lparr>sk_out_offset := off, sk_busy := False\<rparr> else sk\<lparr>sk_out_offset := off\<rparr>)"
    "(sockbuf.truncate sk)\<lparr>sk_out_offset := off, sk_busy := ?b\<rparr> =
       (if rc = 0 then (sockbuf.truncate sk)\<lparr>sk_out_offset := off, sk_busy := False\<rparr> else (sockbuf.truncate sk)\<lparr>sk_out_offset := off\<rparr>)"
    using same_busy [of sk off] same_busy [of "sockbuf.truncate sk" off] by simp_all
  with r show ?thesis
    by (intro exI [of _ "if rc = 0 then OutSent else if rc = - EAGAIN then OutAgain else OutError"] exI [of _ off] exI [of _ ?b] exI [of _ tr1])
      (simp add: send_step_def)
qed

lemma attached_buffers [simp]:
  "attached i (sk_out_offset_update f s) = attached i s" "attached i (sk_in_offset_update f s) = attached i s"
  "attached i (sk_in_buf_update g s) = attached i s" "attached i (load_msg m s) = attached i s"
  by (simp_all add: attached_def running_def load_msg_def)

section \<open>An output event\<close>

text \<open>A critical section whose call and whose events run through.\<close>

lemma fd_runs:
  assumes r: "at_rest i s w" and f: "andThen (on_fd E i pevent (in_section i s w)) (process_events E n i) = Inr w3"
    and s3: "w_socks w3 i = Some t" "cx_eventsto (sk_ctx t) = NetQueue_Init"
  shows "run_fd E (Suc n) i pevent w = unlock_ctx i w3"
proof -
  from f obtain w2 where w2: "on_fd E i pevent (in_section i s w) = Inr w2" "process_events E n i w2 = Inr w3"
    by (auto simp: andThen_eq_Inr_iff)
  from section_law [OF lock_at_rest [OF r], of "NetFsm_Feed (dispatch E) (FSock i) kNetSockSrcFd pevent (PWfd i)" w2 E n w3 t] w2 s3
  show ?thesis unfolding run_fd_section [OF r] feed_in_section [OF r] by simp
qed

text \<open>The socket after a section in which \<open>t\<close> was the locked one.\<close>

definition unlocked :: "netsock \<Rightarrow> netsock" where
  "unlocked t = t\<lparr>sk_ctx := (sk_ctx t)\<lparr>cx_locked := False\<rparr>\<rparr>"

lemma unlocked_simps [simp]:
  "sk_state (unlocked s) = sk_state s" "sockbuf.truncate (unlocked s) = sockbuf.truncate s" "sk_wfd (unlocked s) = sk_wfd s"
  "sk_worker (unlocked s) = sk_worker s" "sk_msgq (unlocked s) = sk_msgq s" "sk_asock (unlocked s) = sk_asock s"
  by (simp_all add: unlocked_def)

lemma unlock_live: "w_socks w i = Some s \<Longrightarrow> unlock_ctx i w = Inr (w\<lparr>w_socks := (w_socks w)(i \<mapsto> unlocked s)\<rparr>)"
  by (simp add: ctx_live unlocked_def)

text \<open>Sending what the kernel takes of the message in the buffer; the event Sent is answered by nothing.\<close>

definition sent_sock :: "nat \<Rightarrow> out_result \<Rightarrow> netsock \<Rightarrow> netsock" where
  "sent_sock i r s = (if r = OutSent then s\<lparr>sk_event := (sk_event s)(EvSent := quiet_event i)\<rparr> else s)"

lemma active_send_law:
  assumes s: "w_socks w i = Some s" "attached i s" "device_up w" "cx_events (sk_ctx s) = NetQueue_Init"
      "w_next w (EvItem (SockEv i EvSent)) = NOT_IN_QUEUE"
    and r: "send_step (env_os E) (w_mem w) s (w_trace w) = (r, s1, tr1)"
  shows "andThen (active_send E i w) (process_events E (Suc (Suc n)) i) =
     Inr (w\<lparr>w_trace := tr1, w_socks := (w_socks w)(i \<mapsto> sent_sock i r s1)\<rparr>)"
proof -
  obtain rc off tr' where raw: "NetSocket_SendRaw (env_os E) (w_mem w) s (w_trace w) = (rc, s\<lparr>sk_out_offset := off\<rparr>, tr')"
    "rc \<in> {0, - EAGAIN, - ECONNRESET}" using SendRaw_core by blast
  let ?w1 = "w\<lparr>w_trace := tr', w_socks := (w_socks w)(i \<mapsto> s\<lparr>sk_out_offset := off\<rparr>)\<rparr>"
  have send: "sock_SendRaw E i w = Inr (rc, ?w1)" using s(1) raw(1) by (simp add: sock_SendRaw_def live)
  show ?thesis
  proof (cases "rc = 0")
    case True
    let ?s2 = "s\<lparr>sk_out_offset := off, sk_busy := False\<rparr>"
    let ?w2 = "w\<lparr>w_trace := tr', w_socks := (w_socks w)(i \<mapsto> ?s2)\<rparr>"
    have a: "active_send E i w = raise_sock i EvSent kNetSockEventTypeSent (PSock i) ?w2"
      using True send by (simp add: active_send_def live)
    have w2: "w_socks ?w2 i = Some ?s2" "attached i ?s2" "device_up ?w2" "cx_events (sk_ctx ?s2) = NetQueue_Init"
      "w_next ?w2 (EvItem (SockEv i EvSent)) = NOT_IN_QUEUE" using s by (simp_all add: device_up_def)
    from raise_then_process [OF w2, of "PSock i" kNetSockEventTypeSent E "Suc n"] obtain w3 where
      "raise_sock i EvSent kNetSockEventTypeSent (PSock i) ?w2 = Inr w3"
      "process_events E (Suc (Suc n)) i w3 = process_events E (Suc n) i
         (?w2\<lparr>w_socks := (w_socks ?w2)(i \<mapsto> ?s2\<lparr>sk_event := (sk_event ?s2)(EvSent := quiet_event i)\<rparr>)\<rparr>)"
      by (auto simp: NetDeviceFsmHandler_def)
    moreover have "r = OutSent" "s1 = ?s2" "tr1 = tr'" using True r raw(1) by (simp_all add: send_step_def)
    ultimately show ?thesis
      unfolding a using s(4) by (simp add: sent_sock_def process_events_none [where s = "s1\<lparr>sk_event := (sk_event s1)(EvSent := quiet_event i)\<rparr>"])
  next
    case False
    then have "s1 = s\<lparr>sk_out_offset := off\<rparr>" "tr1 = tr'" "r \<noteq> OutSent" using r raw(1) by (auto simp: send_step_def split: if_splits)
    moreover have "active_send E i w = Inr ?w1" using False raw(2) send by (auto simp: active_send_def)
    ultimately show ?thesis
      using s(4) by (simp add: sent_sock_def process_events_none [where s = "s\<lparr>sk_out_offset := off\<rparr>"])
  qed
qed

text \<open>When there is nothing to send, the socket stops polling for output; the writes of the trace stay.\<close>

lemma ResetOut_quiet:
  "poller_ok p \<Longrightarrow> \<exists>p' h' tr'. NetPoller_ResetOut p hp h tr = Inr (p', h', tr') \<and> poller_ok p' \<and>
     h_fd h' = h_fd h \<and> h_events h' = (if h_events h AND EPOLLOUT \<noteq> 0 then h_events h AND NOT EPOLLOUT else h_events h) \<and>
     accepted os f tr' = accepted os f tr"
  using poller_ok_invalidated [of p] by (auto simp: NetPoller_ResetOut_def Let_def invalidate_ne_ok)

lemma masked_out: "(v AND - 5) AND EPOLLOUT = (0 :: 32 word)"
  by (simp add: and.assoc)

text \<open>What an event of socket \<open>i\<close> may not touch: the other sockets, the device, memory and the links of all but messages.\<close>

definition beside :: "nat \<Rightarrow> world \<Rightarrow> world \<Rightarrow> bool" where
  "beside i w w' \<longleftrightarrow>
     (\<forall>j. j \<noteq> i \<longrightarrow> w_socks w' j = w_socks w j) \<and> w_dev w' = w_dev w \<and> w_mem w' = w_mem w \<and> w_nsocks w' = w_nsocks w \<and>
     w_cur_worker w' = w_cur_worker w \<and> (\<forall>x. \<not> is_msg x \<longrightarrow> w_next w' x = w_next w x) \<and>
     length (w_workers w') = length (w_workers w) \<and> map wk_tasks (w_workers w') = map wk_tasks (w_workers w)"

text \<open>A socket at rest in a process whose device and pollers are up, and one that is active.\<close>

definition steady :: "nat \<Rightarrow> netsock \<Rightarrow> (nat \<Rightarrow> netmsg list) \<Rightarrow> world \<Rightarrow> bool" where
  "steady i s M w \<longleftrightarrow> at_rest i s w \<and> pollers_ok w \<and> device_up w \<and> mail_are w M"

definition serving :: "nat \<Rightarrow> netsock \<Rightarrow> (nat \<Rightarrow> netmsg list) \<Rightarrow> world \<Rightarrow> bool" where
  "serving i s M w \<longleftrightarrow>
     at_rest i s w \<and> sk_state s = kNetSockStateActive \<and> pollers_ok w \<and> device_up w \<and> mail_are w M"

lemma serving_steady: "serving i s M w \<longleftrightarrow> steady i s M w \<and> sk_state s = kNetSockStateActive"
  by (auto simp: serving_def steady_def)

lemma on_out: "w_socks w i = Some s \<Longrightarrow> sk_state s = kNetSockStateActive \<Longrightarrow> on_fd E i kNetPollerOut w = active_out E i w"
  by (simp add: NetSocketHandler_def live from_active_def case_active_def Let_def)

text \<open>Case 1: nothing is being sent and nothing is buffered.\<close>

lemma out_idle:
  assumes a: "serving i s M w" and e: "\<not> sk_busy s" "M i = []"
  shows "\<exists>w' s'. run_fd E (Suc (Suc (Suc n))) i kNetPollerOut w = Inr w' \<and> serving i s' M w' \<and>
     sockbuf.truncate s' = sockbuf.truncate s \<and> h_events (handle_of s') AND EPOLLOUT = 0 \<and> beside i w w' \<and>
     accepted (env_os E) f (w_trace w') = accepted (env_os E) f (w_trace w)"
proof -
  from a have r: "at_rest i s w" and st: "sk_state s = kNetSockStateActive" and w: "pollers_ok w" "device_up w" "mail_are w M"
    by (simp_all add: serving_def)
  note rest = r [unfolded at_rest_def]
  let ?w1 = "in_section i s w" and ?s1 = "locked s"
  have s1: "w_socks ?w1 i = Some ?s1" by simp
  have "poller_ok (poller_of ?s1 ?w1)" using w(1) rest by (simp add: pollers_ok_def)
  from ResetOut_quiet [OF this, of "HSock i" "handle_of ?s1" "w_trace ?w1" "env_os E" f] obtain p h tr where
    p: "NetPoller_ResetOut (poller_of ?s1 ?w1) (HSock i) (handle_of ?s1) (w_trace ?w1) = Inr (p, h, tr)" "poller_ok p"
      "h_events h AND EPOLLOUT = 0" "accepted (env_os E) f tr = accepted (env_os E) f (w_trace w)"
    by (auto simp: masked_out split: if_splits)
  let ?w2 = "polled i ?s1 p h tr ?w1" and ?s2 = "?s1\<lparr>sk_wfd := (sk_wfd ?s1)\<lparr>wf_handle := h\<rparr>\<rparr>"
  have m: "same_mail w ?w1" using rest by (intro same_mail_sock) simp_all
  from same_mail_are [OF w(3) m] have M1: "mail_are ?w1 M" .
  with Dequeue_law [OF s1 M1] e(2) have "NetSocket_DequeueNetMsgToBuf i ?w1 = Inr (False, ?w1)" by simp
  with e(1) have "active_out E i ?w1 = sock_ResetOut i ?w1" by (simp add: active_out_def live)
  also have "\<dots> = Inr ?w2" using ResetOut_live [OF s1 _ p(1)] rest by simp
  finally have out: "active_out E i ?w1 = Inr ?w2" .
  have s2: "w_socks ?w2 i = Some ?s2" by simp
  from rest have "cx_events (sk_ctx ?s2) = NetQueue_Init" "cx_eventsto (sk_ctx ?s2) = NetQueue_Init" by simp_all
  with out process_events_none [OF s2] on_out [OF s1] st s2
  have run: "run_fd E (Suc (Suc (Suc n))) i kNetPollerOut w = unlock_ctx i ?w2"
    by (intro fd_runs [OF r, where t = ?s2]) simp_all
  let ?s3 = "s\<lparr>sk_wfd := (sk_wfd s)\<lparr>wf_handle := h\<rparr>\<rparr>" and ?w3 = "polled i s p h tr w"
  have "(sk_ctx s)\<lparr>cx_locked := False\<rparr> = sk_ctx s" using rest by (cases "sk_ctx s") simp
  then have "unlocked ?s2 = ?s3" by (cases s) (simp add: unlocked_def locked_def)
  then have "unlock_ctx i ?w2 = Inr ?w3" unfolding unlock_live [OF s2] by (simp add: polled_def)
  moreover have "serving i ?s3 M ?w3" unfolding serving_def
  proof (intro conjI)
    show "at_rest i ?s3 ?w3" by (rule at_rest_polled(1) [OF r])
    show "pollers_ok ?w3" by (rule pollers_ok_polled [OF w(1) p(2)])
    show "mail_are ?w3 M" using rest by (intro same_mail_are [OF w(3)]) (simp add: same_mail_def polled_def)
  qed (use st w(2) in \<open>simp_all add: device_up_def\<close>)
  moreover have "beside i w ?w3" using rest
    by (auto simp: beside_def polled_def map_update list_update_same_conv)
  ultimately show ?thesis using run p(3,4)
    by (intro exI [of _ ?w3] exI [of _ ?s3]) simp
qed

text \<open>Case 2: a message is in the buffer, or the next one is taken into it.\<close>

lemma out_sends:
  assumes r: "at_rest i s w" and st: "sk_state s = kNetSockStateActive" and up: "device_up w" and po: "pollers_ok w"
    and w2: "w_socks w2 i = Some s2" "beside i w w2" "w_workers w2 = w_workers w" "w_trace w2 = w_trace w" "mail_are w2 M2"
    and s2: "s2 = (locked s)\<lparr>sk_out_buf := ob, sk_out_offset := off, sk_busy := True, sk_msgq := q\<rparr>"
    and out: "active_out E i (in_section i s w) = active_send E i w2"
    and ev: "send_step (env_os E) (w_mem w) (sockbuf.truncate s2) (w_trace w) = (res, b1, tr1)"
  shows "\<exists>w' s'. run_fd E (Suc (Suc (Suc n))) i kNetPollerOut w = Inr w' \<and> serving i s' M2 w' \<and>
     sockbuf.truncate s' = b1 \<and> beside i w w' \<and> w_trace w' = tr1"
proof -
  note rest = r [unfolded at_rest_def]
  obtain off2 b where e: "send_step (env_os E) (w_mem w2) s2 (w_trace w2) = (res, s2\<lparr>sk_out_offset := off2, sk_busy := b\<rparr>, tr1)"
    and b1: "b1 = (sockbuf.truncate s2)\<lparr>sk_out_offset := off2, sk_busy := b\<rparr>"
    using send_step_core [of "env_os E" "w_mem w" s2 "w_trace w"] ev w2(2,4) by (auto simp: beside_def)
  let ?s3 = "sent_sock i res (s2\<lparr>sk_out_offset := off2, sk_busy := b\<rparr>)"
  let ?w3 = "w2\<lparr>w_trace := tr1, w_socks := (w_socks w2)(i \<mapsto> ?s3)\<rparr>"
  have nx: "w_next w2 (EvItem ev) = NOT_IN_QUEUE" if "ev = SockEv i k" for ev k
    using w2(2) rest that by (simp add: beside_def)
  have att: "attached i s2" using rest by (simp add: s2 attached_def running_def)
  have "andThen (active_send E i w2) (process_events E (Suc (Suc n)) i) = Inr ?w3"
    using rest up w2(2) nx by (intro active_send_law [OF w2(1) att _ _ _ e]) (simp_all add: s2 device_up_def beside_def)
  then have run: "run_fd E (Suc (Suc (Suc n))) i kNetPollerOut w = unlock_ctx i ?w3"
    using on_out [of "in_section i s w" i "locked s" E] out st rest
    by (intro fd_runs [OF r, where t = ?s3]) (simp_all add: sent_sock_def s2)
  let ?s4 = "unlocked ?s3" and ?w4 = "w2\<lparr>w_trace := tr1, w_socks := (w_socks w2)(i \<mapsto> unlocked ?s3)\<rparr>"
  have u: "unlock_ctx i ?w3 = Inr ?w4" using unlock_live [of ?w3 i ?s3] by simp
  have "serving i ?s4 M2 ?w4" unfolding serving_def
  proof (intro conjI)
    show "at_rest i ?s4 ?w4"
      using rest nx w2(3) att by (auto simp: at_rest_def unlocked_def sent_sock_def s2 attached_def running_def)
    show "sk_state ?s4 = kNetSockStateActive" using st by (simp add: sent_sock_def s2)
    show "pollers_ok ?w4" using po by (simp add: pollers_ok_def w2(3))
    show "device_up ?w4" using up w2(2) by (simp add: device_up_def beside_def)
    show "mail_are ?w4 M2" using w2(1) by (intro same_mail_are [OF w2(5)]) (simp add: same_mail_def sent_sock_def unlocked_def)
  qed
  moreover have "sockbuf.truncate ?s4 = b1" by (simp add: b1 sent_sock_def)
  moreover have "beside i w ?w4" using w2(2) by (simp add: beside_def)
  ultimately show ?thesis using run u by (intro exI [of _ ?w4] exI [of _ ?s4]) simp
qed

text \<open>Case 2a: the socket is busy with the message in its buffer.\<close>

lemma out_busy:
  assumes a: "serving i s M w" and busy: "sk_busy s"
    and ev: "send_step (env_os E) (w_mem w) (sockbuf.truncate s) (w_trace w) = (res, b, tr)"
  shows "\<exists>w' s'. run_fd E (Suc (Suc (Suc n))) i kNetPollerOut w = Inr w' \<and> serving i s' M w' \<and>
     sockbuf.truncate s' = b \<and> beside i w w' \<and> w_trace w' = tr"
proof -
  from a have r: "at_rest i s w" and st: "sk_state s = kNetSockStateActive" and w: "pollers_ok w" "device_up w" "mail_are w M"
    by (simp_all add: serving_def)
  note rest = r [unfolded at_rest_def]
  let ?w1 = "in_section i s w" and ?s1 = "locked s"
  have s1: "w_socks ?w1 i = Some ?s1" by simp
  have M1: "mail_are ?w1 M" using rest by (intro same_mail_are [OF w(3)] same_mail_sock) simp_all
  have "?s1 = ?s1\<lparr>sk_out_buf := sk_out_buf s, sk_out_offset := sk_out_offset s, sk_busy := True, sk_msgq := sk_msgq s\<rparr>"
    using busy by (cases s) (simp add: locked_def)
  moreover have "active_out E i ?w1 = active_send E i ?w1" using busy s1 by (simp add: active_out_def live)
  ultimately show ?thesis
    using M1 ev by (intro out_sends [OF r st w(2,1) s1]) (simp_all add: beside_def)
qed

text \<open>Case 2b: the first of the buffered messages is taken into the buffer.\<close>

lemma out_loads:
  assumes a: "serving i s M w" and idle: "\<not> sk_busy s" "M i = m # ms"
    and ev: "send_step (env_os E) (w_mem w) ((load_msg m (sockbuf.truncate s))\<lparr>sk_busy := True\<rparr>) (w_trace w) = (res, b, tr)"
  shows "\<exists>w' s'. run_fd E (Suc (Suc (Suc n))) i kNetPollerOut w = Inr w' \<and> serving i s' (M(i := ms)) w' \<and>
     sockbuf.truncate s' = b \<and> beside i w w' \<and> w_trace w' = tr"
proof -
  from a have r: "at_rest i s w" and st: "sk_state s = kNetSockStateActive" and w: "pollers_ok w" "device_up w" "mail_are w M"
    by (simp_all add: serving_def)
  note rest = r [unfolded at_rest_def]
  let ?w1 = "in_section i s w" and ?s1 = "locked s"
  have s1: "w_socks ?w1 i = Some ?s1" by simp
  have M1: "mail_are ?w1 M" using rest by (intro same_mail_are [OF w(3)] same_mail_sock) simp_all
  from Dequeue_law [OF s1 M1] idle(2) obtain k q where
    d: "NetSocket_DequeueNetMsgToBuf i ?w1 = Inr (True, dequeued i (load_msg m ?s1) k q ?w1)"
      "mail_are (dequeued i (load_msg m ?s1) k q ?w1) (M(i := ms))" by auto
  let ?w2 = "dequeued i (load_msg m ?s1) k q ?w1"
  let ?s3 = "?s1\<lparr>sk_out_buf := store_at 0 (NetMsg_bytes m) (sk_out_buf ?s1), sk_out_offset := 0, sk_busy := True, sk_msgq := q\<rparr>"
  let ?w3 = "?w2\<lparr>w_socks := (w_socks ?w2)(i \<mapsto> ?s3)\<rparr>"
  have s2: "w_socks ?w2 i = Some ((load_msg m ?s1)\<lparr>sk_msgq := q\<rparr>)" by (simp add: dequeued_def)
  have eq: "(load_msg m ?s1)\<lparr>sk_msgq := q, sk_busy := True\<rparr> = ?s3" by (simp add: load_msg_def)
  have "active_out E i ?w1 = active_send E i ?w3"
    using idle(1) d(1) s2 by (simp add: active_out_def live eq)
  moreover have "mail_are ?w3 (M(i := ms))" by (intro same_mail_are [OF d(2)] same_mail_sock [OF s2]) (simp add: load_msg_def)
  moreover have "sockbuf.truncate ?s3 = (load_msg m (sockbuf.truncate s))\<lparr>sk_busy := True\<rparr>"
    unfolding eq [symmetric] by (simp add: sockbuf.defs load_msg_def locked_def)
  ultimately show ?thesis
    using rest ev by (intro out_sends [OF r st w(2,1), of ?w3 ?s3]) (auto simp: beside_def dequeued_def)
qed

section \<open>Output events together\<close>

lemma send_step_not_idle: "send_step os mem (sk :: sockbuf) t = (res, x) \<Longrightarrow> res \<noteq> OutIdle"
  by (auto simp: send_step_def split: prod.splits if_splits)

lemma out_section:
  assumes a: "serving i s M w"
    and ev: "out_event (env_os E) (w_mem w) (M i) (sockbuf.truncate s) (w_trace w) = (res, ms, b, tr)"
  shows "\<exists>w' s'. run_fd E (Suc (Suc (Suc n))) i kNetPollerOut w = Inr w' \<and> serving i s' (M(i := ms)) w' \<and>
     sockbuf.truncate s' = b \<and> beside i w w' \<and>
     accepted (env_os E) (sk_s s) (w_trace w') = accepted (env_os E) (sk_s s) tr \<and>
     (if res = OutIdle then h_events (handle_of s') AND EPOLLOUT = 0 else w_trace w' = tr)"
proof (cases "sk_busy s")
  case True
  then have b: "ms = M i" "send_step (env_os E) (w_mem w) (sockbuf.truncate s) (w_trace w) = (res, b, tr)"
    using ev by (simp_all split: prod.splits)
  from out_busy [OF a True b(2), of n] send_step_not_idle [OF b(2)] b(1) show ?thesis by (auto simp: fun_upd_idem)
next
  case idle: False
  show ?thesis
  proof (cases "M i")
    case Nil
    with ev idle have "res = OutIdle" "ms = []" "b = sockbuf.truncate s" "tr = w_trace w" by simp_all
    then show ?thesis using out_idle [OF a idle Nil, of E n "sk_s s"] Nil by (auto simp: fun_upd_idem)
  next
    case (Cons m ms')
    then have b: "ms' = ms"
      "send_step (env_os E) (w_mem w) ((load_msg m (sockbuf.truncate s))\<lparr>sk_busy := True\<rparr>) (w_trace w) = (res, b, tr)"
      using ev idle by (simp_all split: prod.splits)
    from out_loads [OF a idle Cons b(2), of n] send_step_not_idle [OF b(2)] b(1) show ?thesis by auto
  qed
qed

section \<open>The tasks that ask for events\<close>

text \<open>The kernel polls the descriptor of socket \<open>i\<close> for the events its handle remembers.\<close>

definition synced :: "nat \<Rightarrow> netsock \<Rightarrow> world \<Rightarrow> bool" where
  "synced i s w \<longleftrightarrow> in_sync (p_ep (poller_of s w)) (HSock i) (handle_of s) (w_trace w)"

definition task_mask :: "tk \<Rightarrow> 32 word" where
  "task_mask t = (if t = TkSend then EPOLLOUT else EPOLLIN)"

lemma interest_task_law:
  assumes a: "steady i s M w" and y: "synced i s w" and t: "t = TkSend \<or> t = TkRecv"
  shows "\<exists>w' s'. run_task E (Suc (Suc n)) i t w = Inr w' \<and> steady i s' M w' \<and> beside i w w' \<and> synced i s' w' \<and>
     sockbuf.truncate s' = sockbuf.truncate s \<and> sk_state s' = sk_state s \<and> sk_worker s' = sk_worker s \<and> h_fd (handle_of s') = h_fd (handle_of s) \<and>
     h_events (handle_of s') = h_events (handle_of s) OR task_mask t"
proof -
  from a have r: "at_rest i s w" and w: "pollers_ok w" "device_up w" "mail_are w M"
    by (simp_all add: steady_def)
  note rest = r [unfolded at_rest_def]
  let ?p = "poller_of s w" and ?w1 = "in_section i s w"
  have ok: "poller_ok ?p" using rest w(1) by (simp add: pollers_ok_def)
  have "\<exists>h tr. (t = TkSend \<longrightarrow> NetPoller_SetOut ?p (HSock i) (handle_of s) (w_trace w) = (h, tr)) \<and>
      (t = TkRecv \<longrightarrow> NetPoller_SetIn ?p (HSock i) (handle_of s) (w_trace w) = (h, tr)) \<and>
      in_sync (p_ep ?p) (HSock i) h tr \<and> h_fd h = h_fd (handle_of s) \<and> h_events h = h_events (handle_of s) OR task_mask t"
    using t setout.op_law [OF ok, of "HSock i" "handle_of s" "w_trace w"] setin.op_law [OF ok, of "HSock i" "handle_of s" "w_trace w"] y
    by (auto simp: synced_def run_SetOut_def run_SetIn_def task_mask_def split: prod.splits)
  then obtain h tr where h: "t = TkSend \<longrightarrow> NetPoller_SetOut ?p (HSock i) (handle_of s) (w_trace w) = (h, tr)"
      "t = TkRecv \<longrightarrow> NetPoller_SetIn ?p (HSock i) (handle_of s) (w_trace w) = (h, tr)" "in_sync (p_ep ?p) (HSock i) h tr"
      "h_fd h = h_fd (handle_of s)" "h_events h = h_events (handle_of s) OR task_mask t" by blast
  let ?w2 = "polled i s ?p h tr w" and ?s2 = "s\<lparr>sk_wfd := (sk_wfd s)\<lparr>wf_handle := h\<rparr>\<rparr>"
  have "NetSocket_InternalTasks i (task_src t) kNetWorkerTaskExecute ?w1 = Inr (True, polled i (locked s) ?p h tr ?w1)"
    using t h(1,2) rest SetOut_live [of ?w1 i "locked s" h tr] SetIn_live [of ?w1 i "locked s" h tr]
    by (auto simp: NetSocket_InternalTasks_def)
  from internal_task_section [OF r this] have run: "run_task E (Suc (Suc n)) i t w = Inr ?w2" .
  have "steady i ?s2 M ?w2" unfolding steady_def
  proof (intro conjI)
    show "at_rest i ?s2 ?w2" by (rule at_rest_polled(1) [OF r])
    show "pollers_ok ?w2" by (rule pollers_ok_polled [OF w(1) ok])
    show "mail_are ?w2 M" using rest by (intro same_mail_are [OF w(3)]) (simp add: same_mail_def polled_def)
  qed (use w(2) in \<open>simp_all add: device_up_def\<close>)
  moreover have "beside i w ?w2" using rest by (auto simp: beside_def polled_def same_worker)
  moreover have "synced i ?s2 ?w2" using h(3) rest by (simp add: synced_def polled_def same_worker)
  ultimately show ?thesis using run h(4,5) by (intro exI [of _ ?w2] exI [of _ ?s2]) simp
qed

text \<open>A message is buffered for an active socket, and the socket's task is queued.\<close>

lemma send_to_serving:
  assumes a: "serving i s M w" and T: "tasks_are w T" and E: "grants E"
  shows "\<exists>w' s'. NetSocket_AsyncSendMsg E i m w = Inr w' \<and> serving i s' (M(i := M i @ [m])) w' \<and>
     sockbuf.truncate s' = sockbuf.truncate s \<and> sk_worker s' = sk_worker s \<and> handle_of s' = handle_of s \<and>
     (synced i s w \<longrightarrow> synced i s' w') \<and> w_mem w' = w_mem w \<and> w_dev w' = w_dev w \<and> sk_fsm s' = sk_fsm s \<and>
     tasks_are w' (T(sk_worker s := appended (w_next w) (TaskItem i TkSend) (T (sk_worker s))))"
proof -
  from a have rest: "at_rest i s w" "sk_state s = kNetSockStateActive" "pollers_ok w" "device_up w" "mail_are w M"
    by (simp_all add: serving_def)
  note r = rest(1) [unfolded at_rest_def]
  obtain w' nx q where w': "NetSocket_AsyncSendMsg E i m w = Inr w'" "mail_are w' (M(i := M i @ [m]))"
     "tasks_are w' (T(sk_worker s := appended (w_next w) (TaskItem i TkSend) (T (sk_worker s))))"
     "only_tasks (enqueued i s m nx q w) w'" "\<And>x. \<not> is_msg x \<Longrightarrow> nx x = w_next w x"
    using AsyncSendMsg_law [OF _ _ T rest(5) E, of i s m] r by blast
  note same = only_tasks_simps [OF w'(4)]
  let ?s = "s\<lparr>sk_msgq := q\<rparr>"
  have "at_rest i ?s w'" using r w'(5) by (simp add: at_rest_def same)
  moreover have "pollers_ok w'" "device_up w'"
    using rest(3,4) only_tasks_pollers [OF w'(4)] by (simp_all add: pollers_ok_def device_up_def same)
  ultimately have "serving i ?s (M(i := M i @ [m])) w'" using rest(2) w'(2) by (simp add: serving_def)
  moreover have "synced i s w \<Longrightarrow> synced i ?s w'"
    using r by (simp add: synced_def in_sync_def same only_tasks_trace [OF w'(4)])
  moreover have "w_mem w' = w_mem w" "w_dev w' = w_dev w" by (simp_all add: same)
  ultimately show ?thesis using w'(1,3) by (intro exI [of _ w'] exI [of _ ?s]) simp
qed

section \<open>A concrete process\<close>

text \<open>One active socket on descriptor 9, registered with the poller of worker 0; nothing is buffered.\<close>

definition ready_sock :: netsock where
  "ready_sock =
     (let s = init_sock 1 kNetDeviceSrcSocketEvent FDevice \<lparr>sin_family = 2, sin_port = 8341, s_addr = 1\<rparr> 0 NetSocket_new
      in s\<lparr>sk_s := 9, sk_fsm := (sk_fsm s)\<lparr>f_state := kNetFsmStateActive\<rparr>, sk_wfd := (sk_wfd s)\<lparr>wf_handle := \<lparr>h_fd = 9, h_events = 0\<rparr>\<rparr>,
           sk_state := kNetSockStateActive\<rparr>)"

definition ready_world :: "memory \<Rightarrow> world" where
  "ready_world mem =
     (device_set_up kind_env (new_world mem))\<lparr>w_socks := [1 \<mapsto> ready_sock], w_nsocks := 2,
        w_workers := replicate kNetWorkerNum (new_worker\<lparr>wk_efd := 5, wk_poller := (wk_poller new_worker)\<lparr>p_ep := 4\<rparr>\<rparr>),
        w_trace := [Sys_epoll_ctl 4 EPOLL_CTL_ADD 9 (Some (HSock 1, 0))]\<rparr>"

lemma ready_serving: "serving 1 ready_sock (\<lambda>_. []) (ready_world mem)"
  unfolding serving_def
proof (intro conjI)
  show "at_rest 1 ready_sock (ready_world mem)"
    by (simp add: at_rest_def ready_world_def ready_sock_def init_sock_def attached_def running_def device_set_up_def new_world_def
        NetSocket_new_def Let_def)
  show "pollers_ok (ready_world mem)" by (simp add: pollers_ok_def ready_world_def new_worker_def poller_ok_def)
  show "mail_are (ready_world mem) (\<lambda>_. [])"
    unfolding mail_are_def
    by (intro exI [of _ "\<lambda>_. []"] mail_keysI) (auto simp: ready_world_def ready_sock_def init_sock_def Init_rep Let_def split: if_splits)
qed (simp_all add: ready_sock_def ready_world_def device_up_def device_set_up_def Let_def)

lemma no_mail: "(\<lambda>_ :: nat. [])(i := []) = (\<lambda>_. [] :: netmsg list)"
  by (rule ext) simp

lemma ready_tasks: "tasks_are (ready_world mem) (\<lambda>_. [])"
  by (simp add: tasks_are_def ready_world_def new_worker_def Init_rep)

lemma ready_synced: "synced 1 ready_sock (ready_world mem)"
  by (simp add: synced_def in_sync_def ready_world_def ready_sock_def init_sock_def new_worker_def Let_def)

lemma ready_bufs: "sockbuf.truncate ready_sock = fresh_sock 9"
  by (simp add: ready_sock_def init_sock_def NetSocket_new_def fresh_sock_def sockbuf.defs Let_def)

section \<open>Properties\<close>

text \<open>C11: An output event is the reference step. When the descriptor of an active socket becomes
  writable, the worker's critical section (the queue of wrappers, the state machine, the
  event Sent and the device's answer) does to the buffered messages, the output buffer and
  the written bytes exactly what \<open>out_event\<close> does on a list and a buffer: an idle sender
  takes the next message, and a sender without one stops polling for output. The socket is at
  rest again, the messages of other sockets, the device, the memory and all other sockets are as before.\<close>

theorem output_event_refines:
  assumes "serving i s M w"
    and "out_event (env_os E) (w_mem w) (M i) (sockbuf.truncate s) (w_trace w) = (res, ms, b, tr)"
  shows "\<exists>w' s'. run_fd E (Suc (Suc (Suc n))) i kNetPollerOut w = Inr w' \<and> serving i s' (M(i := ms)) w' \<and>
     sockbuf.truncate s' = b \<and> beside i w w' \<and>
     accepted (env_os E) (sk_s s) (w_trace w') = accepted (env_os E) (sk_s s) tr \<and>
     (if res = OutIdle then h_events (wf_handle (sk_wfd s')) AND EPOLLOUT = 0 else w_trace w' = tr)"
  using out_section [OF assms] .

theorem output_event_refines_witness:
  "\<exists>w' s'. run_fd kind_env 3 1 kNetPollerOut (ready_world (\<lambda>_. 0)) = Inr w' \<and> serving 1 s' (\<lambda>_. []) w' \<and>
     sockbuf.truncate s' = fresh_sock 9 \<and> h_events (wf_handle (sk_wfd s')) AND EPOLLOUT = 0"
proof -
  have "out_event (env_os kind_env) (w_mem (ready_world (\<lambda>_. 0))) [] (sockbuf.truncate ready_sock) (w_trace (ready_world (\<lambda>_. 0))) =
      (OutIdle, [], fresh_sock 9, w_trace (ready_world (\<lambda>_. 0)))"
    by (simp add: ready_bufs)
  from output_event_refines [OF ready_serving this, of 0] show ?thesis
    unfolding numeral_3_eq_3 no_mail if_P [OF refl] by blast
qed

text \<open>\<open>n\<close> output events of one socket.\<close>

primrec out_events :: "env \<Rightarrow> nat \<Rightarrow> nat \<Rightarrow> world \<Rightarrow> world res" where
  "out_events E i 0 w = Inr w"
| "out_events E i (Suc n) w = andThen (run_fd E 3 i kNetPollerOut w) (out_events E i n)"

lemma out_events_law:
  assumes "serving i s M w" and "to_send (w_mem w) (M i) (sockbuf.truncate s) todo" and "writes_ok (env_os E) (sk_s s)"
  shows "\<exists>w' s' ms j. out_events E i n w = Inr w' \<and> serving i s' (M(i := ms)) w' \<and> beside i w w' \<and>
     accepted (env_os E) (sk_s s) (w_trace w') = accepted (env_os E) (sk_s s) (w_trace w) @ take j todo \<and>
     to_send (w_mem w) ms (sockbuf.truncate s') (drop j todo)"
  using assms
proof (induction n arbitrary: M s w todo)
  case 0
  then show ?case by (intro exI [of _ w] exI [of _ s] exI [of _ "M i"] exI [of _ 0]) (simp add: beside_def)
next
  case (Suc n)
  from out_event_law [OF Suc.prems(2), of "env_os E" "w_trace w"] Suc.prems(3) obtain res ms1 b tr1 j where
    e: "out_event (env_os E) (w_mem w) (M i) (sockbuf.truncate s) (w_trace w) = (res, ms1, b, tr1)" "sk_s b = sk_s s"
      "accepted (env_os E) (sk_s s) tr1 = accepted (env_os E) (sk_s s) (w_trace w) @ take j todo"
      "to_send (w_mem w) ms1 b (drop j todo)" by auto
  from out_section [OF Suc.prems(1) e(1), of 0] obtain w1 s1 where
    w1: "run_fd E 3 i kNetPollerOut w = Inr w1" "serving i s1 (M(i := ms1)) w1" "sockbuf.truncate s1 = b" "beside i w w1"
      "accepted (env_os E) (sk_s s) (w_trace w1) = accepted (env_os E) (sk_s s) tr1"
    unfolding numeral_3_eq_3 by blast
  have fd: "sk_s s1 = sk_s s" using w1(3) e(2) by (metis truncate_simps(1))
  have mem: "w_mem w1 = w_mem w" using w1(4) by (simp add: beside_def)
  have "to_send (w_mem w1) ((M(i := ms1)) i) (sockbuf.truncate s1) (drop j todo)" using e(4) by (simp add: mem w1(3))
  from Suc.IH [OF w1(2) this] Suc.prems(3) obtain w' s' ms j2 where
    w': "out_events E i n w1 = Inr w'" "serving i s' (M(i := ms)) w'" "beside i w1 w'"
    "accepted (env_os E) (sk_s s) (w_trace w') = accepted (env_os E) (sk_s s) (w_trace w1) @ take j2 (drop j todo)"
    "to_send (w_mem w) ms (sockbuf.truncate s') (drop j2 (drop j todo))" unfolding fd mem fun_upd_upd by blast
  from w1(4) w'(3) have "beside i w w'" by (simp add: beside_def)
  moreover have "accepted (env_os E) (sk_s s) (w_trace w') = accepted (env_os E) (sk_s s) (w_trace w) @ take (j + j2) todo"
    by (simp add: w'(4) w1(5) e(3) take_add)
  moreover have "to_send (w_mem w) ms (sockbuf.truncate s') (drop (j + j2) todo)"
    using w'(5) by (simp add: add.commute)
  moreover have "out_events E i (Suc n) w = Inr w'" using w1(1) w'(1) by simp
  ultimately show ?case using w'(2) by blast
qed

text \<open>C20: A socket sends its queue. Over any number of output events, however little of each write the
  kernel accepts, no event fails, and what an active socket has written to its descriptor
  is a prefix of the concatenated images of the messages that were buffered for it (each
  below 2 GiB), in order; when no message is buffered and none is in the buffer, it is all of them.\<close>

theorem socket_sends_its_queue:
  assumes "serving i s M w" and "\<not> sk_busy s" and "length (sk_out_buf s) = 128"
    and "\<forall>m \<in> set (M i). msg_len m < 2 ^ 31" and "writes_ok (env_os E) (sk_s s)"
  shows "\<exists>w' s' ms j. out_events E i n w = Inr w' \<and> serving i s' (M(i := ms)) w' \<and> beside i w w' \<and>
     accepted (env_os E) (sk_s s) (w_trace w') = accepted (env_os E) (sk_s s) (w_trace w) @ take j (wires (w_mem w) (M i)) \<and>
     (ms = [] \<and> \<not> sk_busy s' \<longrightarrow> take j (wires (w_mem w) (M i)) = wires (w_mem w) (M i))"
proof -
  have "to_send (w_mem w) (M i) (sockbuf.truncate s) (wires (w_mem w) (M i))" using assms(2-4) by (simp add: to_send_def)
  from out_events_law [OF assms(1) this assms(5), of n] show ?thesis by (fastforce simp: to_send_def)
qed

theorem socket_sends_its_queue_witness:
  "\<exists>w w' j. NetSocket_AsyncSendMsg kind_env 1 sample_cmd (ready_world (\<lambda>_. 0)) = Inr w \<and>
     out_events kind_env 1 5 w = Inr w' \<and>
     accepted (env_os kind_env) 9 (w_trace w') = accepted (env_os kind_env) 9 (w_trace w) @ take j (wires (w_mem w) [sample_cmd])"
proof -
  from send_to_serving [OF ready_serving [where mem = "\<lambda>_. 0"] ready_tasks boots_grants(1) [OF kind_boots], of sample_cmd] obtain w s where
    w: "NetSocket_AsyncSendMsg kind_env 1 sample_cmd (ready_world (\<lambda>_. 0)) = Inr w"
      "serving 1 s ((\<lambda>_. [])(1 := [sample_cmd])) w" "sockbuf.truncate s = fresh_sock 9"
    by (auto simp: ready_bufs)
  from w(3) have s: "\<not> sk_busy s" "length (sk_out_buf s) = 128" "sk_s s = 9"
    by (metis truncate_simps(6) fresh_sock_simps(6), metis truncate_simps(3) fresh_sock_simps(3), metis truncate_simps(1) fresh_sock_simps(1))
  have "writes_ok (env_os kind_env) (sk_s s)" by (simp add: writes_ok_def kind_env_def sysret_def)
  from socket_sends_its_queue [OF w(2) s(1,2) _ this, of 5] w(1) s(3) show ?thesis
    by (auto simp: sample_len)
qed

text \<open>C21: A buffered message wakes its sender. AsyncSendMsg on an active socket appends the message to the
  messages buffered for that socket and to no other's, and queues the socket's send task
  once; when the worker runs that task, the kernel polls the descriptor for output in
  addition to what it polled for, so that the next output event sends the message.\<close>

theorem buffered_message_wakes_sender:
  assumes "serving i s M w" and "synced i s w" and "tasks_are w T" and "grants E"
  shows "\<exists>w1 w2 s2. NetSocket_AsyncSendMsg E i m w = Inr w1 \<and>
     tasks_are w1 (T(sk_worker s := appended (w_next w) (TaskItem i TkSend) (T (sk_worker s)))) \<and>
     run_task E (Suc (Suc n)) i TkSend w1 = Inr w2 \<and> serving i s2 (M(i := M i @ [m])) w2 \<and>
     interest (p_ep (wk_poller (w_workers w2 ! sk_worker s2))) (w_trace w2) (h_fd (wf_handle (sk_wfd s))) =
       Some (HSock i, h_events (wf_handle (sk_wfd s)) OR EPOLLOUT)"
proof -
  obtain w1 s1 where w1: "NetSocket_AsyncSendMsg E i m w = Inr w1" "serving i s1 (M(i := M i @ [m])) w1" "handle_of s1 = handle_of s"
     "synced i s1 w1" "tasks_are w1 (T(sk_worker s := appended (w_next w) (TaskItem i TkSend) (T (sk_worker s))))"
    using send_to_serving [OF assms(1,3,4), of m] assms(2) by blast
  obtain w2 s2 where w2: "run_task E (Suc (Suc n)) i TkSend w1 = Inr w2" "serving i s2 (M(i := M i @ [m])) w2" "synced i s2 w2"
     "h_fd (handle_of s2) = h_fd (handle_of s1)" "h_events (handle_of s2) = h_events (handle_of s1) OR task_mask TkSend"
    using interest_task_law [of i s1 "M(i := M i @ [m])" w1 TkSend] w1(2,4) unfolding serving_steady by metis
  then have "interest (p_ep (poller_of s2 w2)) (w_trace w2) (h_fd (handle_of s)) = Some (HSock i, h_events (handle_of s) OR EPOLLOUT)"
    by (simp add: synced_def in_sync_def task_mask_def w1(3))
  with w1 w2 show ?thesis by blast
qed

theorem buffered_message_wakes_sender_witness:
  "\<exists>w1 w2 s2. NetSocket_AsyncSendMsg kind_env 1 sample_cmd (ready_world (\<lambda>_. 0)) = Inr w1 \<and>
     run_task kind_env 2 1 TkSend w1 = Inr w2 \<and> serving 1 s2 ((\<lambda>_. [])(1 := [sample_cmd])) w2"
  using buffered_message_wakes_sender [OF ready_serving [where mem = "\<lambda>_. 0"] ready_synced ready_tasks boots_grants(1) [OF kind_boots], of sample_cmd 0]
  unfolding numeral_2_eq_2 by auto

end
