(* ===== verification/Netreceive.thy ===== *)
theory Netreceive
  imports Netsend
begin

text \<open>
  The input of an active socket: what an input event of its descriptor does to the
  process. Data messages complete the read that waits for them; a run of events refines
  the run \<open>recv_run\<close> on the bare buffers.
\<close>

section \<open>The transfer only looks at the buffers\<close>

lemma header_core:
  "\<exists>e b off tr'. recv_header os sk tr = (e, sk\<lparr>sk_in_buf := b, sk_in_offset := off\<rparr>, tr') \<and>
     recv_header os (sockbuf.truncate sk) tr = (e, (sockbuf.truncate sk)\<lparr>sk_in_buf := b, sk_in_offset := off\<rparr>, tr')"
proof (cases "below_header (sk_in_offset sk)")
  case True
  obtain e bs off1 tr1 where "read_some os (sk_s sk) (32 - scast (sk_in_offset sk)) (sk_in_offset sk) tr = (e, bs, off1, tr1)"
    by (metis prod_cases4)
  with True show ?thesis by (simp add: recv_header_def) blast
next
  case False
  have "x\<lparr>sk_in_buf := sk_in_buf x, sk_in_offset := sk_in_offset x\<rparr> = x" for x :: "'b sockbuf_scheme" by (cases x) simp
  have "sk = sk\<lparr>sk_in_buf := sk_in_buf sk, sk_in_offset := sk_in_offset sk\<rparr>" by (cases sk) simp
  moreover have "sockbuf.truncate sk = (sockbuf.truncate sk)\<lparr>sk_in_buf := sk_in_buf sk, sk_in_offset := sk_in_offset sk\<rparr>"
     by (simp add: sockbuf.defs)
  ultimately show ?thesis using False 
    by (intro exI [of _ False] exI [of _ "sk_in_buf sk"] exI [of _ "sk_in_offset sk"] exI [of _ tr]) (simp add: recv_header_def)
qed

lemma payload_core:
  "\<exists>e off mem' tr'. recv_payload os u mem m sk tr = (e, sk\<lparr>sk_in_offset := off\<rparr>, mem', tr') \<and>
     recv_payload os u mem m (sockbuf.truncate sk) tr = (e, (sockbuf.truncate sk)\<lparr>sk_in_offset := off\<rparr>, mem', tr')"
proof (cases "below_total (sk_in_offset sk) (total_msg_sz m)")
  case True
  obtain e bs off1 tr1 where "read_some os (sk_s sk) (m_extra m + (32 - scast (sk_in_offset sk))) (sk_in_offset sk) tr = (e, bs, off1, tr1)"
    by (metis prod_cases4)
  with True show ?thesis by (simp add: recv_payload_def) blast
next
  case False
  have "sk = sk\<lparr>sk_in_offset := sk_in_offset sk\<rparr>" by (cases sk) simp
  moreover have "sockbuf.truncate sk = (sockbuf.truncate sk)\<lparr>sk_in_offset := sk_in_offset sk\<rparr>"
     by (simp add: sockbuf.defs)
  ultimately show ?thesis using False 
    by (intro exI [of _ False] exI [of _ "sk_in_offset sk"] exI [of _ mem] exI [of _ tr]) (simp add: recv_payload_def)
qed

lemma RecvRaw_core:
  "\<exists>rc b off mem' tr'. NetSocket_RecvRaw os u mem sk tr = (rc, sk\<lparr>sk_in_buf := b, sk_in_offset := off\<rparr>, mem', tr') \<and>
     rc \<in> {0, - EAGAIN, - ECONNRESET} \<and>
     NetSocket_RecvRaw os u mem (sockbuf.truncate sk) tr =
       (rc, (sockbuf.truncate sk)\<lparr>sk_in_buf := b, sk_in_offset := off\<rparr>, mem', tr')"
proof -
  obtain e b off tr1 where h: "recv_header os sk tr = (e, sk\<lparr>sk_in_buf := b, sk_in_offset := off\<rparr>, tr1)"
     "recv_header os (sockbuf.truncate sk) tr = (e, (sockbuf.truncate sk)\<lparr>sk_in_buf := b, sk_in_offset := off\<rparr>, tr1)"
    using header_core by blast
  let ?sk = "sk\<lparr>sk_in_buf := b, sk_in_offset := off\<rparr>"
  obtain e2 off2 mem2 tr2 where p: "recv_payload os u mem (NetMsg_of_bytes b) ?sk tr1 = (e2, ?sk\<lparr>sk_in_offset := off2\<rparr>, mem2, tr2)"
     "recv_payload os u mem (NetMsg_of_bytes b) (sockbuf.truncate ?sk) tr1 = (e2, (sockbuf.truncate ?sk)\<lparr>sk_in_offset := off2\<rparr>, mem2, tr2)"
    using payload_core by blast
  show ?thesis using h p by (simp add: NetSocket_RecvRaw_def) blast
qed
section \<open>What a message asks for\<close>

text \<open>A data message queues the callback that waits for its token, and forgets it; without one it is dropped.\<close>

definition finish_read :: "netmsg \<Rightarrow> netdevice \<Rightarrow> netdevice" where
  "finish_read m d =
     (case dv_token2callback d (m_dst m) of
        None \<Rightarrow> d
      | Some cb \<Rightarrow> d\<lparr>dv_cq := snd (Channel_Send cb (dv_cq d)),
                      dv_token2callback := (dv_token2callback d)(m_dst m := None)\<rparr>)"

lemma Parse_data: "msg_type m = 1 \<Longrightarrow> NetDevice_ParseNetMsg E run m w = Inr (0, upd_dev (finish_read m) w)"
  by (cases w) (simp add: NetDevice_ParseNetMsg_def finish_read_def upd_dev_def split: option.split)

definition reads_command :: "netmsg \<Rightarrow> bool" where
  "reads_command m \<longleftrightarrow> msg_type m = 0 \<and> sint (m_extra m) = kNetMsgCmdRead"

definition read_reply :: "user \<Rightarrow> netmsg \<Rightarrow> netmsg" where
  "read_reply u m = \<lparr>msg_type = 1, m_src = u_Token2Dptr u (m_src m), m_dst = m_dst m, m_extra = u_Token2DptrSize u (m_src m)\<rparr>"

lemma Parse_read:
  "reads_command m \<Longrightarrow> NetDevice_ParseNetMsg E run m w =
     (if sint (u_Token2DptrSize (env_user E) (m_src m)) = - 1 then Inl (CheckFailed ''data_len != -1'')
      else andThen (NetDevice_SendMsg E run (read_reply (env_user E) m) w) (\<lambda>(_, w). Inr (0, w)))"
  by (simp add: NetDevice_ParseNetMsg_def reads_command_def read_reply_def NetMsg_new_def)

lemma Parse_other:
  "msg_type m \<noteq> 1 \<Longrightarrow> \<not> reads_command m \<Longrightarrow> NetDevice_ParseNetMsg E run m w = Inl (LogFatal ''Unexpected Run'')"
  by (simp add: NetDevice_ParseNetMsg_def reads_command_def)

section \<open>An input event\<close>

lemma on_in: "w_socks w i = Some s \<Longrightarrow> sk_state s = kNetSockStateActive \<Longrightarrow> on_fd E i kNetPollerIn w = active_in E i w"
  by (simp add: NetSocketHandler_def live from_active_def case_active_def Let_def)

text \<open>The state after a read: the buffers \<open>b\<close>, \<open>off\<close> of socket \<open>i\<close>, memory and trace.\<close>

definition after_read_of :: "nat \<Rightarrow> netsock \<Rightarrow> memory \<Rightarrow> trace \<Rightarrow> world \<Rightarrow> world" where
  "after_read_of i s mem tr w = w\<lparr>w_trace := tr, w_mem := mem, w_socks := (w_socks w)(i \<mapsto> s)\<rparr>"

lemma sock_RecvRaw_live:
  assumes "w_socks w i = Some s" and "NetSocket_RecvRaw (env_os E) (env_user E) (w_mem w) s (w_trace w) = (rc, s1, mem, tr)"
  shows "sock_RecvRaw E i w = Inr (rc, after_read_of i s1 mem tr w)"
  using assms by (simp add: sock_RecvRaw_def live after_read_of_def)

text \<open>No message is complete.\<close>

lemma active_in_waits:
  assumes s: "w_socks w i = Some s" "cx_events (sk_ctx s) = NetQueue_Init"
    and r: "NetSocket_RecvRaw (env_os E) (env_user E) (w_mem w) s (w_trace w) = (rc, s1, mem, tr)" "rc \<noteq> 0"
  shows "andThen (active_in E i w) (process_events E (Suc n) i) = Inr (after_read_of i s1 mem tr w)"
proof -
  from RecvRaw_core [of "env_os E" "env_user E" "w_mem w" s "w_trace w"] r have "rc = - EAGAIN \<or> rc = - ECONNRESET" "sk_ctx s1 = sk_ctx s"
    by auto
  then have "active_in E i w = Inr (after_read_of i s1 mem tr w)"
    using sock_RecvRaw_live [OF s(1) r(1)] by (auto simp: active_in_def)
  moreover have "w_socks (after_read_of i s1 mem tr w) i = Some s1" by (simp add: after_read_of_def)
  ultimately show ?thesis using process_events_none s(2) \<open>sk_ctx s1 = sk_ctx s\<close> by simp
qed

text \<open>A message is complete: the device parses it while the socket's context is locked.\<close>

definition heard_sock :: "nat \<Rightarrow> netsock \<Rightarrow> netsock" where
  "heard_sock i s = s\<lparr>sk_event := (sk_event s)(EvReceived := quiet_event i)\<rparr>"

lemma active_in_parses:
  assumes s: "w_socks w i = Some s" "attached i s" "device_up w" "cx_events (sk_ctx s) = NetQueue_Init"
      "w_next w (EvItem (SockEv i EvReceived)) = NOT_IN_QUEUE"
    and r: "NetSocket_RecvRaw (env_os E) (env_user E) (w_mem w) s (w_trace w) = (0, s1, mem, tr)"
  shows "andThen (active_in E i w) (process_events E (Suc n) i) =
     andThen (NetDevice_ParseNetMsg E (dispatch E) (NetSocket_ExtractNetMsg s1) (after_read_of i (heard_sock i s1) mem tr w))
       (\<lambda>(_, w). process_events E n i w)"
proof -
  let ?w1 = "after_read_of i s1 mem tr w" and ?p = "PMsg (NetSocket_ExtractNetMsg s1)"
  obtain b off where s1: "s1 = s\<lparr>sk_in_buf := b, sk_in_offset := off\<rparr>"
    using RecvRaw_core [of "env_os E" "env_user E" "w_mem w" s "w_trace w"] r by auto
  have w1: "w_socks ?w1 i = Some s1" by (simp add: after_read_of_def)
  have a: "active_in E i w = raise_sock i EvReceived kNetSockEventTypeReceived ?p ?w1"
    using sock_RecvRaw_live [OF s(1) r] w1 by (simp add: active_in_def live)
  have "attached i s1" "device_up ?w1" "cx_events (sk_ctx s1) = NetQueue_Init" "w_next ?w1 (EvItem (SockEv i EvReceived)) = NOT_IN_QUEUE"
    using s by (simp_all add: s1 after_read_of_def)
  from raise_then_process [OF w1 this, of ?p kNetSockEventTypeReceived E n] obtain w2 where
    "raise_sock i EvReceived kNetSockEventTypeReceived ?p ?w1 = Inr w2"
    "process_events E (Suc n) i w2 = andThen (NetDeviceFsmHandler E (dispatch E) kNetDeviceSrcSocketEvent kNetSockEventTypeReceived ?p
       (?w1\<lparr>w_socks := (w_socks ?w1)(i \<mapsto> heard_sock i s1)\<rparr>)) (process_events E n i)"
    by (auto simp: heard_sock_def)
  moreover have "?w1\<lparr>w_socks := (w_socks ?w1)(i \<mapsto> heard_sock i s1)\<rparr> = after_read_of i (heard_sock i s1) mem tr w"
    by (simp add: after_read_of_def)
  ultimately show ?thesis by (simp add: a NetDeviceFsmHandler_def as_msg_def split_def)
qed

section \<open>Data messages\<close>

lemma Extract_truncate [simp]: "NetSocket_ExtractNetMsg (sockbuf.truncate s) = NetSocket_ExtractNetMsg s"
  by (simp add: NetSocket_ExtractNetMsg_def)

lemma finish_read_fsm [simp]: "dv_fsm (finish_read m d) = dv_fsm d" "dv_token2sock (finish_read m d) = dv_token2sock d"
  by (simp_all add: finish_read_def split: option.split)

text \<open>What the device has done after the event: the completion of a read, if a message was complete.\<close>

definition read_done :: "int \<Rightarrow> netmsg \<Rightarrow> netdevice \<Rightarrow> netdevice" where
  "read_done rc m d = (if rc = 0 then finish_read m d else d)"

lemma in_event_section:
  assumes a: "serving i s M w"
    and ev: "NetSocket_RecvRaw (env_os E) (env_user E) (w_mem w) (sockbuf.truncate s) (w_trace w) = (rc, b, mem, tr)"
    and data: "rc = 0 \<longrightarrow> msg_type (NetSocket_ExtractNetMsg b) = 1"
  shows "\<exists>w' s'. run_fd E (Suc (Suc (Suc n))) i kNetPollerIn w = Inr w' \<and> serving i s' M w' \<and> sockbuf.truncate s' = b \<and>
     w' = (after_read_of i s' mem tr w)\<lparr>w_dev := read_done rc (NetSocket_ExtractNetMsg b) (w_dev w)\<rparr>"
proof -
  from a have r: "at_rest i s w" and st: "sk_state s = kNetSockStateActive" and w: "pollers_ok w" "device_up w" "mail_are w M"
    by (simp_all add: serving_def)
  note rest = r [unfolded at_rest_def]
  let ?w1 = "in_section i s w" and ?s1 = "locked s" and ?d = "read_done rc (NetSocket_ExtractNetMsg b) (w_dev w)"
  have w1: "w_socks ?w1 i = Some ?s1" "attached i ?s1" "device_up ?w1" "cx_events (sk_ctx ?s1) = NetQueue_Init"
    "w_next ?w1 (EvItem (SockEv i EvReceived)) = NOT_IN_QUEUE" "sk_state ?s1 = kNetSockStateActive"
    using rest w(2) st by simp_all
  obtain bb off where raw: "NetSocket_RecvRaw (env_os E) (env_user E) (w_mem ?w1) ?s1 (w_trace ?w1) = (rc, ?s1\<lparr>sk_in_buf := bb, sk_in_offset := off\<rparr>, mem, tr)"
    and b: "b = (sockbuf.truncate s)\<lparr>sk_in_buf := bb, sk_in_offset := off\<rparr>"
    using RecvRaw_core [of "env_os E" "env_user E" "w_mem w" ?s1 "w_trace w"] ev by auto
  let ?s2 = "?s1\<lparr>sk_in_buf := bb, sk_in_offset := off\<rparr>"
  let ?s3 = "if rc = 0 then heard_sock i ?s2 else ?s2"
  let ?w3 = "(after_read_of i ?s3 mem tr ?w1)\<lparr>w_dev := ?d\<rparr>"
  have w3: "w_socks ?w3 i = Some ?s3" by (simp add: after_read_of_def)
  have s3: "cx_events (sk_ctx ?s3) = NetQueue_Init" "cx_eventsto (sk_ctx ?s3) = NetQueue_Init"
    using rest by (simp_all add: heard_sock_def)
  have "andThen (active_in E i ?w1) (process_events E (Suc (Suc n)) i) = Inr ?w3"
  proof (cases "rc = 0")
    case True
    have "NetSocket_ExtractNetMsg ?s2 = NetSocket_ExtractNetMsg b" by (simp add: NetSocket_ExtractNetMsg_def b)
    moreover have "upd_dev (finish_read m) (after_read_of i t mem tr ?w1) = (after_read_of i t mem tr ?w1)\<lparr>w_dev := finish_read m (w_dev w)\<rparr>" for m t
      by (simp add: upd_dev_def after_read_of_def)
    ultimately show ?thesis
      using active_in_parses [OF w1(1-5), of E ?s2 mem tr "Suc n"] raw True data process_events_none [OF w3 s3(1)]
      by (simp add: Parse_data read_done_def)
  next
    case False
    then show ?thesis using active_in_waits [OF w1(1,4) raw] by (simp add: read_done_def after_read_of_def)
  qed
  then have run: "run_fd E (Suc (Suc (Suc n))) i kNetPollerIn w = unlock_ctx i ?w3"
    using on_in [OF w1(1,6)] by (intro fd_runs [OF r _ w3 s3(2)]) simp
  let ?s4 = "unlocked ?s3" and ?w4 = "(after_read_of i (unlocked ?s3) mem tr w)\<lparr>w_dev := ?d\<rparr>"
  have "unlock_ctx i ?w3 = Inr ?w4" unfolding unlock_live [OF w3] by (simp add: after_read_of_def)
  moreover have "serving i ?s4 M ?w4" unfolding serving_def
  proof (intro conjI)
    show "at_rest i ?s4 ?w4" using rest
      by (auto simp: at_rest_def after_read_of_def unlocked_def heard_sock_def attached_def running_def)
    show "sk_state ?s4 = kNetSockStateActive" using st by (simp add: heard_sock_def)
    show "mail_are ?w4 M" using rest
      by (intro same_mail_are [OF w(3)]) (simp add: same_mail_def after_read_of_def heard_sock_def)
  qed (use w in \<open>simp_all add: after_read_of_def device_up_def pollers_ok_def read_done_def\<close>)
  moreover have "sockbuf.truncate ?s4 = b" by (simp add: b heard_sock_def)
  ultimately show ?thesis using run by (intro exI [of _ ?w4] exI [of _ ?s4]) simp
qed

text \<open>\<open>n\<close> input events of one socket.\<close>

primrec in_events :: "env \<Rightarrow> nat \<Rightarrow> nat \<Rightarrow> world \<Rightarrow> world res" where
  "in_events E i 0 w = Inr w"
| "in_events E i (Suc n) w = andThen (run_fd E 3 i kNetPollerIn w) (in_events E i n)"

lemma in_events_law:
  assumes "serving i s M w"
    and "recv_run (env_os E) (env_user E) n (sockbuf.truncate s) (w_mem w) (w_trace w) = (ms, b, mem, tr)"
    and "\<forall>m \<in> set ms. msg_type m = 1"
  shows "\<exists>w' s'. in_events E i n w = Inr w' \<and> serving i s' M w' \<and> sockbuf.truncate s' = b \<and>
     w' = (after_read_of i s' mem tr w)\<lparr>w_dev := fold finish_read ms (w_dev w)\<rparr>"
  using assms
proof (induction n arbitrary: s w ms)
  case 0
  then have "w_socks w i = Some s" by (simp add: serving_def at_rest_def)
  with 0 show ?case by (intro exI [of _ w] exI [of _ s]) (simp add: after_read_of_def fun_upd_idem)
next
  case (Suc n)
  obtain rc b1 mem1 tr1 where e: "NetSocket_RecvRaw (env_os E) (env_user E) (w_mem w) (sockbuf.truncate s) (w_trace w) = (rc, b1, mem1, tr1)"
    by (metis prod_cases4)
  obtain ms1 b2 mem2 tr2 where f: "recv_run (env_os E) (env_user E) n b1 mem1 tr1 = (ms1, b2, mem2, tr2)"
    by (metis prod_cases4)
  from Suc.prems(2) e f have ms: "ms = (if rc = 0 then NetSocket_ExtractNetMsg b1 # ms1 else ms1)" "b = b2" "mem = mem2" "tr = tr2"
    by simp_all
  obtain w1 s1 where w1: "run_fd E 3 i kNetPollerIn w = Inr w1" "serving i s1 M w1" "sockbuf.truncate s1 = b1"
     "w1 = (after_read_of i s1 mem1 tr1 w)\<lparr>w_dev := read_done rc (NetSocket_ExtractNetMsg b1) (w_dev w)\<rparr>"
    using in_event_section [OF Suc.prems(1) e, of 0] Suc.prems(3) ms(1) unfolding numeral_3_eq_3 by auto
  have "recv_run (env_os E) (env_user E) n (sockbuf.truncate s1) (w_mem w1) (w_trace w1) = (ms1, b, mem, tr)"
    using f by (simp add: w1(3,4) after_read_of_def ms)
  from Suc.IH [OF w1(2) this] Suc.prems(3) ms(1) obtain w' s' where
    w': "in_events E i n w1 = Inr w'" "serving i s' M w'" "sockbuf.truncate s' = b"
      "w' = (after_read_of i s' mem tr w1)\<lparr>w_dev := fold finish_read ms1 (w_dev w1)\<rparr>" by (auto split: if_splits)
  have "w' = (after_read_of i s' mem tr w)\<lparr>w_dev := fold finish_read ms (w_dev w)\<rparr>"
    by (simp add: w'(4) w1(4) after_read_of_def read_done_def ms(1))
  with w1(1) w' show ?case by (intro exI [of _ w'] exI [of _ s']) simp
qed

section \<open>Callbacks\<close>

text \<open>The callbacks that a list of data messages completes, in order, when \<open>cbs\<close> wait.\<close>

fun completions :: "netmsg list \<Rightarrow> (64 word \<rightharpoonup> nat) \<Rightarrow> nat list" where
  "completions [] cbs = []"
| "completions (m # ms) cbs =
     (case cbs (m_dst m) of None \<Rightarrow> completions ms cbs | Some f \<Rightarrow> f # completions ms (cbs(m_dst m := None)))"

lemma fold_finish_read:
  "\<not> ch_send_closed (dv_cq d) \<Longrightarrow>
   ch_val (dv_cq (fold finish_read ms d)) = ch_val (dv_cq d) @ completions ms (dv_token2callback d)"
proof (induction ms arbitrary: d)
  case (Cons m ms)
  then show ?case
    by (cases "dv_token2callback d (m_dst m)") (simp_all add: finish_read_def Channel_Send_def fun_upd_def)
qed simp

section \<open>Properties\<close>

text \<open>C12: Data completes the reads that wait for it. Let the kernel deliver to an active socket that stands at the start of a
  message a stream of data messages, each below 2 GiB, cut anywhere, and let the sending end of the completion
  queue be open. After any number of input events no event has failed, the
  payloads of the messages that have arrived are in memory at the addresses of their
  tokens, and the completion queue holds, in the order of the messages and after what it
  held before, the callbacks registered for those tokens, each once: a message whose token has
  no callback (any more) queues nothing. Messages, tokens and all other sockets are as before.\<close>

theorem data_completes_reads:
  assumes "serving i s M w" and "sk_in_offset s = 0" and "length (sk_in_buf s) = 128"
    and "reads_stream (env_os E) (sk_s s) (images mps)" and "consumed (env_os E) (sk_s s) (w_trace w) = 0"
    and "\<forall>(m, pay) \<in> set mps. fits m pay \<and> msg_type m = 1" and "\<not> ch_send_closed (dv_cq (w_dev w))"
  shows "\<exists>d w' s'. in_events E i n w = Inr w' \<and> serving i s' M w' \<and> d \<le> length mps \<and>
     (d < length mps \<longrightarrow> consumed (env_os E) (sk_s s) (w_trace w') < length (images (take (Suc d) mps))) \<and>
     ch_val (dv_cq (w_dev w')) = ch_val (dv_cq (w_dev w)) @ completions (map fst (take d mps)) (dv_token2callback (w_dev w)) \<and>
     w_mem w' = partly_delivered (env_user E) mps d (consumed (env_os E) (sk_s s) (w_trace w')) (w_mem w) \<and>
     dv_token2sock (w_dev w') = dv_token2sock (w_dev w) \<and> (\<forall>j. j \<noteq> i \<longrightarrow> w_socks w' j = w_socks w j)"
proof -
  let ?b = "sockbuf.truncate s"
  have fits: "\<forall>(m, pay) \<in> set mps. fits m pay" using assms(6) by auto
  obtain d b mem tr where r: "recv_run (env_os E) (env_user E) n ?b (w_mem w) (w_trace w) = (map fst (take d mps), b, mem, tr)"
    and d: "d \<le> length mps" "d < length mps \<longrightarrow> consumed (env_os E) (sk_s s) tr < length (images (take (Suc d) mps))"
      "mem = partly_delivered (env_user E) mps d (consumed (env_os E) (sk_s s) tr) (w_mem w)"
    using recv_run_from_start [of "env_os E" ?b mps "w_trace w" "env_user E" n "w_mem w"] assms(2-5) fits by auto
  have "\<forall>m \<in> set (map fst (take d mps)). msg_type m = 1" using assms(6) by (auto dest!: in_set_takeD)
  from in_events_law [OF assms(1) r this] obtain w' s' where
    w': "in_events E i n w = Inr w'" "serving i s' M w'"
      "w' = (after_read_of i s' mem tr w)\<lparr>w_dev := fold finish_read (map fst (take d mps)) (w_dev w)\<rparr>" by blast
  have "dv_token2sock (fold finish_read ms e) = dv_token2sock e" for ms e by (induction ms arbitrary: e) simp_all
  with w' d fold_finish_read [OF assms(7), of "map fst (take d mps)"] show ?thesis
    by (intro exI [of _ d] exI [of _ w'] exI [of _ s']) (simp add: after_read_of_def)
qed

text \<open>A process whose descriptor 9 delivers a stream, one byte at a time, and that waits for the data of \<open>sample_data\<close>.\<close>

definition stream_env :: "byte list \<Rightarrow> env" where
  "stream_env stream = \<lparr>env_os = slow_os 9 stream, env_user = plain_user\<rparr>"

definition waiting_world :: world where
  "waiting_world = (ready_world (\<lambda>_. 0))\<lparr>w_dev := (w_dev (ready_world (\<lambda>_. 0)))\<lparr>dv_token2callback := [8192 \<mapsto> 77]\<rparr>\<rparr>"

lemma waiting_serving: "serving 1 ready_sock (\<lambda>_. []) waiting_world"
  using ready_serving [of "\<lambda>_. 0"]
  by (auto simp: serving_def waiting_world_def at_rest_def pollers_ok_def device_up_def intro: same_mail_are simp: same_mail_def)

definition sample_data_stream :: "(netmsg \<times> byte list) list" where
  "sample_data_stream = [(sample_data, [5, 6])]"

theorem data_completes_reads_witness:
  "\<exists>d w'. in_events (stream_env (images sample_data_stream)) 1 80 waiting_world = Inr w' \<and> d \<le> length sample_data_stream \<and>
     ch_val (dv_cq (w_dev w')) = completions (map fst (take d sample_data_stream)) [8192 \<mapsto> 77]"
proof -
  let ?E = "stream_env (images sample_data_stream)"
  have dev: "ch_val (dv_cq (w_dev waiting_world)) = []" "\<not> ch_send_closed (dv_cq (w_dev waiting_world))"
    "dv_token2callback (w_dev waiting_world) = [8192 \<mapsto> 77]" "w_trace waiting_world = [Sys_epoll_ctl 4 EPOLL_CTL_ADD 9 (Some (HSock 1, 0))]"
    by (simp_all add: waiting_world_def ready_world_def device_set_up_def new_world_def new_device_def Channel_new_def)
  have s: "sk_s ready_sock = 9" "sk_in_offset ready_sock = 0" "length (sk_in_buf ready_sock) = 128"
    by (simp_all add: ready_sock_def init_sock_def NetSocket_new_def Let_def)
  have E: "reads_stream (env_os ?E) (sk_s ready_sock) (images sample_data_stream)"
    using slow_os_reads [of 9 "images sample_data_stream"] by (simp add: stream_env_def s)
  have "msg_type sample_data = 1" by (simp add: sample_data_def)
  then have "\<forall>(m, pay) \<in> set sample_data_stream. fits m pay \<and> msg_type m = 1"
    by (simp add: sample_data_stream_def fits_def sample_len)
  note fit = this
  have c: "consumed (env_os ?E) (sk_s ready_sock) (w_trace waiting_world) = 0" by (simp add: dev(4))
  from data_completes_reads [OF waiting_serving s(2,3) E c fit dev(2), of 80] show ?thesis
    unfolding dev(1,3) append_Nil by blast
qed

end
