(* ===== verification/Netanswer.thy ===== *)
theory Netanswer
  imports Netreceive
begin

text \<open>
  Messages that are answered: a read command makes the device send the data back on the
  socket its token names; a message that is neither data nor such a command, or a read of
  memory the user does not know, ends the process.
\<close>

section \<open>Sending on a socket that is there\<close>

lemma SendMsg_known:
  assumes "NetDevice_Token2Socket (m_dst m) w = Some j" and "w_socks w j = Some s" and "f_state (sk_fsm s) \<noteq> kNetFsmStateIdle"
  shows "NetDevice_SendMsg E run m w = andThen (NetSocket_AsyncSendMsg E j m w) (\<lambda>w. Inr (0, w))"
  using assms by (simp add: NetDevice_SendMsg_def route_def NetSocket_IsIdle_def live)

text \<open>The run of an input event that completes a message, up to the device's parsing of it.\<close>

lemma in_event_parses:
  assumes r: "at_rest i s w" and st: "sk_state s = kNetSockStateActive" and up: "device_up w"
    and ev: "NetSocket_RecvRaw (env_os E) (env_user E) (w_mem w) (sockbuf.truncate s) (w_trace w) = (0, b, mem, tr)"
  shows "\<exists>s2. sockbuf.truncate s2 = b \<and> sk_msgq s2 = sk_msgq s \<and> sk_state s2 = sk_state s \<and> sk_wfd s2 = sk_wfd s \<and>
     sk_fsm s2 = sk_fsm s \<and> sk_worker s2 = sk_worker s \<and> sk_task s2 = sk_task s \<and> sk_ctx s2 = (sk_ctx s)\<lparr>cx_locked := True\<rparr> \<and>
     (\<forall>k. sk_event s2 k = (if k = EvReceived then quiet_event i else sk_event s k)) \<and>
     andThen (on_fd E i kNetPollerIn (in_section i s w)) (process_events E (Suc n) i) =
       andThen (NetDevice_ParseNetMsg E (dispatch E) (NetSocket_ExtractNetMsg b) (after_read_of i s2 mem tr w))
         (\<lambda>(_, w). process_events E n i w)"
proof -
  note rest = r [unfolded at_rest_def]
  let ?w1 = "in_section i s w" and ?s1 = "locked s"
  have w1: "w_socks ?w1 i = Some ?s1" "attached i ?s1" "device_up ?w1" "cx_events (sk_ctx ?s1) = NetQueue_Init"
    "w_next ?w1 (EvItem (SockEv i EvReceived)) = NOT_IN_QUEUE" "sk_state ?s1 = kNetSockStateActive"
    using rest up st by simp_all
  obtain bb off where raw: "NetSocket_RecvRaw (env_os E) (env_user E) (w_mem ?w1) ?s1 (w_trace ?w1) = (0, ?s1\<lparr>sk_in_buf := bb, sk_in_offset := off\<rparr>, mem, tr)"
    and b: "b = (sockbuf.truncate s)\<lparr>sk_in_buf := bb, sk_in_offset := off\<rparr>"
    using RecvRaw_core [of "env_os E" "env_user E" "w_mem w" ?s1 "w_trace w"] ev by auto
  let ?s2 = "heard_sock i (?s1\<lparr>sk_in_buf := bb, sk_in_offset := off\<rparr>)"
  have "NetSocket_ExtractNetMsg (?s1\<lparr>sk_in_buf := bb, sk_in_offset := off\<rparr>) = NetSocket_ExtractNetMsg b"
    by (simp add: NetSocket_ExtractNetMsg_def b)
  moreover have "after_read_of i ?s2 mem tr ?w1 = after_read_of i ?s2 mem tr w" by (simp add: after_read_of_def)
  ultimately show ?thesis
    using active_in_parses [OF w1(1-5) raw, of n] on_in [OF w1(1,6)]
    by (intro exI [of _ ?s2]) (simp add: b heard_sock_def locked_def)
qed

text \<open>A read command whose token names socket \<open>j\<close>: the reply is buffered there before the section ends.\<close>

lemma answer_law:
  assumes a: "serving i s M w" and st: "w_socks w j = Some sj" "j \<noteq> i" "f_state (sk_fsm sj) \<noteq> kNetFsmStateIdle" "sk_worker sj < length (w_workers w)"
    and m: "NetDevice_Token2Socket (m_dst m) w = Some j" "reads_command m"
      "sint (u_Token2DptrSize (env_user E) (m_src m)) \<noteq> - 1"
    and T: "tasks_are w T" and E: "grants E"
    and s2: "sk_msgq s2 = sk_msgq s"
  shows "\<exists>w' q. NetDevice_ParseNetMsg E run m (after_read_of i s2 mem tr w) = Inr (0, w') \<and>
     mail_are w' (M(j := M j @ [read_reply (env_user E) m])) \<and>
     tasks_are w' (T(sk_worker sj := appended (w_next w) (TaskItem j TkSend) (T (sk_worker sj)))) \<and>
     w_socks w' = (w_socks w)(i \<mapsto> s2, j \<mapsto> sj\<lparr>sk_msgq := q\<rparr>) \<and> w_dev w' = w_dev w \<and> w_mem w' = mem \<and> w_nsocks w' = w_nsocks w \<and>
     length (w_workers w') = length (w_workers w) \<and> (\<forall>x. is_msg x \<or> is_task x \<or> w_next w' x = w_next w x) \<and>
     pollers_ok w' = pollers_ok w \<and> consumed os f (w_trace w') = consumed os f tr"
proof -
  let ?w1 = "after_read_of i s2 mem tr w" and ?r = "read_reply (env_user E) m"
  have i: "w_socks w i = Some s" "mail_are w M" using a by (simp_all add: serving_def at_rest_def)
  have w1: "w_socks ?w1 j = Some sj" "sk_worker sj < length (w_workers ?w1)" "tasks_are ?w1 T" "mail_are ?w1 M"
    using st T by (simp_all add: after_read_of_def) (rule same_mail_are [OF i(2)], use i s2 in \<open>simp add: same_mail_def\<close>)
  from AsyncSendMsg_law [OF w1 E, of ?r] obtain w' nx q where
    w': "NetSocket_AsyncSendMsg E j ?r ?w1 = Inr w'" "mail_are w' (M(j := M j @ [?r]))"
      "tasks_are w' (T(sk_worker sj := appended (w_next ?w1) (TaskItem j TkSend) (T (sk_worker sj))))"
      "only_tasks (enqueued j sj ?r nx q ?w1) w'" "\<And>x. \<not> is_msg x \<Longrightarrow> nx x = w_next ?w1 x" by blast
  have "NetDevice_Token2Socket (m_dst ?r) ?w1 = Some j" using m(1) by (simp add: NetDevice_Token2Socket_def after_read_of_def read_reply_def)
  from SendMsg_known [OF this w1(1) st(3)] w'(1) m(2,3)
  have "NetDevice_ParseNetMsg E run m ?w1 = Inr (0, w')" by (simp add: Parse_read)
  moreover have "is_msg x \<or> is_task x \<or> w_next w' x = w_next w x" for x
    using only_tasks_simps(10) [OF w'(4), of x] w'(5) [of x] by (cases "is_task x") (auto simp: after_read_of_def)
  moreover have "pollers_ok w' = pollers_ok w"
    using only_tasks_pollers [OF w'(4)] by (simp add: pollers_ok_def after_read_of_def)
  moreover have "consumed os f (w_trace w') = consumed os f tr"
    using only_tasks_trace(2) [OF w'(4), of os f] by (simp add: after_read_of_def)
  ultimately show ?thesis using w'(2,3)
    by (intro exI [of _ w'] exI [of _ q]) (simp add: only_tasks_simps(1-9) [OF w'(4)] after_read_of_def)
qed

lemma answer_section:
  assumes a: "serving i s M w" and j: "w_socks w j = Some sj" "j \<noteq> i" "f_state (sk_fsm sj) \<noteq> kNetFsmStateIdle" "sk_worker sj < length (w_workers w)"
    and ev: "NetSocket_RecvRaw (env_os E) (env_user E) (w_mem w) (sockbuf.truncate s) (w_trace w) = (0, b, mem, tr)"
    and m: "m = NetSocket_ExtractNetMsg b" "NetDevice_Token2Socket (m_dst m) w = Some j" "reads_command m"
      "sint (u_Token2DptrSize (env_user E) (m_src m)) \<noteq> - 1"
    and T: "tasks_are w T" and E: "grants E"
  shows "\<exists>w' s' q. run_fd E (Suc (Suc (Suc n))) i kNetPollerIn w = Inr w' \<and>
     serving i s' (M(j := M j @ [read_reply (env_user E) m])) w' \<and> sockbuf.truncate s' = b \<and>
     tasks_are w' (T(sk_worker sj := appended (w_next w) (TaskItem j TkSend) (T (sk_worker sj)))) \<and>
     w_socks w' = (w_socks w)(i \<mapsto> s', j \<mapsto> sj\<lparr>sk_msgq := q\<rparr>) \<and> w_dev w' = w_dev w \<and> w_mem w' = mem"
proof -
  from a have r: "at_rest i s w" and st: "sk_state s = kNetSockStateActive" and w: "pollers_ok w" "device_up w"
    by (simp_all add: serving_def)
  note rest = r [unfolded at_rest_def]
  obtain s2 where s2: "sockbuf.truncate s2 = b" "sk_msgq s2 = sk_msgq s" "sk_state s2 = sk_state s" "sk_wfd s2 = sk_wfd s"
     "sk_fsm s2 = sk_fsm s" "sk_worker s2 = sk_worker s" "sk_task s2 = sk_task s" "sk_ctx s2 = (sk_ctx s)\<lparr>cx_locked := True\<rparr>" and
    f: "andThen (on_fd E i kNetPollerIn (in_section i s w)) (process_events E (Suc (Suc n)) i) =
       andThen (NetDevice_ParseNetMsg E (dispatch E) m (after_read_of i s2 mem tr w)) (\<lambda>(_, w). process_events E (Suc n) i w)"
    using in_event_parses [OF r st w(2) ev, of "Suc n"] m(1) by blast
  obtain w3 q where w3: "NetDevice_ParseNetMsg E (dispatch E) m (after_read_of i s2 mem tr w) = Inr (0, w3)"
     "mail_are w3 (M(j := M j @ [read_reply (env_user E) m]))"
     "tasks_are w3 (T(sk_worker sj := appended (w_next w) (TaskItem j TkSend) (T (sk_worker sj))))"
     "w_socks w3 = (w_socks w)(i \<mapsto> s2, j \<mapsto> sj\<lparr>sk_msgq := q\<rparr>)" "w_dev w3 = w_dev w" "w_mem w3 = mem"
     "length (w_workers w3) = length (w_workers w)" "\<And>x. is_msg x \<or> is_task x \<or> w_next w3 x = w_next w x" "pollers_ok w3 = pollers_ok w"
    using answer_law [OF a j m(2-4) T E s2(2), of "dispatch E" mem tr] by blast
  have i3: "w_socks w3 i = Some s2" using j(2) by (simp add: w3(4))
  have q3: "cx_events (sk_ctx s2) = NetQueue_Init" "cx_eventsto (sk_ctx s2) = NetQueue_Init" using rest by (simp_all add: s2)
  have run: "run_fd E (Suc (Suc (Suc n))) i kNetPollerIn w = unlock_ctx i w3"
    using f w3(1) process_events_none [OF i3 q3(1)] by (intro fd_runs [OF r _ i3 q3(2)]) simp
  let ?s4 = "unlocked s2" and ?w4 = "w3\<lparr>w_socks := (w_socks w3)(i \<mapsto> unlocked s2)\<rparr>"
  have "serving i ?s4 (M(j := M j @ [read_reply (env_user E) m])) ?w4" unfolding serving_def
  proof (intro conjI)
    have "w_next w3 (EvItem (SockEv i k)) = NOT_IN_QUEUE" for k using w3(8) [of "EvItem (SockEv i k)"] rest by simp
    then show "at_rest i ?s4 ?w4" using rest w3(7) by (simp add: at_rest_def unlocked_def s2 attached_def running_def)
    show "mail_are ?w4 (M(j := M j @ [read_reply (env_user E) m]))"
      by (intro same_mail_are [OF w3(2)] same_mail_sock [OF i3]) simp
  qed (use st w w3(5,9) in \<open>simp_all add: s2 device_up_def\<close>)
  moreover have "w_socks ?w4 = (w_socks w)(i \<mapsto> ?s4, j \<mapsto> sj\<lparr>sk_msgq := q\<rparr>)"
    using j(2) by (simp add: w3(4) fun_upd_twist)
  ultimately show ?thesis using run unlock_live [OF i3] w3(3,5,6) s2(1)
    by (intro exI [of _ ?w4] exI [of _ ?s4] exI [of _ q]) simp
qed

section \<open>Properties\<close>

text \<open>C32: A message can end the process. If the message an active socket has received completely is
  neither data nor a read command (its type is 2 or 3, or it carries another command), or
  asks for memory whose size the user's \<open>Token2DptrSize\<close> does not know, the process is
  aborted by \<open>LOG(FATAL)\<close> or by \<open>CHECK_NE\<close>: whoever can connect can end it with 32 bytes.\<close>

theorem bad_message_ends_process:
  assumes "at_rest i s w" and "sk_state s = kNetSockStateActive" and "device_up w"
    and "NetSocket_RecvRaw (env_os E) (env_user E) (w_mem w) (sockbuf.truncate s) (w_trace w) = (0, b, mem, tr)"
    and "m = NetSocket_ExtractNetMsg b" and "msg_type m \<noteq> 1"
    and "\<not> reads_command m \<or> sint (u_Token2DptrSize (env_user E) (m_src m)) = - 1"
  shows "run_fd E (Suc (Suc n)) i kNetPollerIn w =
     Inl (if reads_command m then CheckFailed ''data_len != -1'' else LogFatal ''Unexpected Run'')"
proof (rule fd_fails [OF assms(1)])
  from in_event_parses [OF assms(1-4), of n] show
    "andThen (on_fd E i kNetPollerIn (in_section i s w)) (process_events E (Suc n) i) =
       Inl (if reads_command m then CheckFailed ''data_len != -1'' else LogFatal ''Unexpected Run'')"
    using assms(5-7) by (auto simp: Parse_other Parse_read)
qed

text \<open>A kernel that hands over the header of \<open>m\<close> with each read of descriptor 9, and a message that asks for nothing known.\<close>

definition header_env :: "netmsg \<Rightarrow> env" where
  "header_env m = \<lparr>env_os = (\<lambda>tr. case tr of Sys_read f n # _ \<Rightarrow> (sysret 32)\<lparr>sr_data := NetMsg_bytes m\<rparr> | _ \<Rightarrow> kind_os tr),
     env_user = plain_user\<rparr>"

lemma header_received:
  assumes "payload_len m = 0" and "sk_in_offset sk = 0" and "length (sk_in_buf sk) = 128"
  shows "NetSocket_RecvRaw (env_os (header_env m)) u mem sk tr =
     (0, sk\<lparr>sk_in_buf := NetMsg_bytes m @ drop 32 (sk_in_buf sk), sk_in_offset := 0\<rparr>, mem, Sys_read (sk_s sk) 32 # tr)"
proof -
  have b: "\<not> below_header 32" "below_header 0" by (simp_all add: below_header_def)
  have "\<not> below_total 32 (total_msg_sz m)"
    using below_total_off [of 32 m] assms(1) by (simp add: msg_len_def)
  with b assms show ?thesis
    by (simp add: NetSocket_RecvRaw_def recv_header_def recv_payload_def read_some_def store_at_def header_env_def sysret_def NetMsg_of_bytes_append Let_def)
qed

lemma header_extracted: "NetSocket_ExtractNetMsg (sk\<lparr>sk_in_buf := NetMsg_bytes m @ bs, sk_in_offset := x\<rparr>) = m"
  by (rule Extract_header) simp

definition odd_msg :: netmsg where
  "odd_msg = \<lparr>msg_type = 2, m_src = 0, m_dst = 0, m_extra = 0\<rparr>"

theorem bad_message_ends_process_witness:
  "run_fd (header_env odd_msg) 2 1 kNetPollerIn (ready_world (\<lambda>_. 0)) = Inl (LogFatal ''Unexpected Run'')"
proof -
  have s: "sk_in_offset (fresh_sock 9) = 0" "length (sk_in_buf (fresh_sock 9)) = 128" "payload_len odd_msg = 0" "\<not> reads_command odd_msg"
    "msg_type odd_msg \<noteq> 1"
    by (simp_all add: payload_len_def odd_msg_def reads_command_def)
  note ready = ready_serving [of "\<lambda>_. 0", unfolded serving_def]
  from ready bad_message_ends_process [of 1 ready_sock "ready_world (\<lambda>_. 0)" "header_env odd_msg" _ _ _ odd_msg 0]
    header_received [OF s(3,1,2)] s(4,5) show ?thesis
    unfolding numeral_2_eq_2 by (simp add: ready_bufs header_extracted)
qed

text \<open>C13: A read command is answered. When an active socket has received a read command completely, whose token names
  another socket of the device that is in use, the worker's critical section buffers exactly
  one reply for that socket, behind what was buffered: a data message with the address and size the
  user gives for the token to be read, to the token where it is wanted. The send task
  of that socket is queued; the receiving socket is at rest and ready for the next message.\<close>

theorem read_command_is_answered:
  assumes "serving i s M w"
    and "NetSocket_RecvRaw (env_os E) (env_user E) (w_mem w) (sockbuf.truncate s) (w_trace w) = (0, b, mem, tr)"
    and "m = NetSocket_ExtractNetMsg b" and "reads_command m" and "sint (u_Token2DptrSize (env_user E) (m_src m)) \<noteq> - 1"
    and "NetDevice_Token2Socket (m_dst m) w = Some j" and "w_socks w j = Some sj" and "j \<noteq> i"
    and "f_state (sk_fsm sj) \<noteq> kNetFsmStateIdle" and "sk_worker sj < length (w_workers w)"
    and "tasks_are w T" and "grants E"
  shows "\<exists>w' s' q. run_fd E (Suc (Suc (Suc n))) i kNetPollerIn w = Inr w' \<and>
     serving i s' (M(j := M j @ [\<lparr>msg_type = 1, m_src = u_Token2Dptr (env_user E) (m_src m), m_dst = m_dst m,
                                  m_extra = u_Token2DptrSize (env_user E) (m_src m)\<rparr>])) w' \<and> sockbuf.truncate s' = b \<and>
     tasks_are w' (T(sk_worker sj := appended (w_next w) (TaskItem j TkSend) (T (sk_worker sj)))) \<and>
     w_socks w' = (w_socks w)(i \<mapsto> s', j \<mapsto> sj\<lparr>sk_msgq := q\<rparr>) \<and> w_dev w' = w_dev w \<and> w_mem w' = mem"
  using answer_section [OF assms(1,7-10,2,3,6,4,5,11,12)] unfolding read_reply_def .

text \<open>A second socket, number 2, that the token 9 names.\<close>

definition named_sock :: netsock where
  "named_sock =
     (let s = init_sock 2 kNetDeviceSrcSocketEvent FDevice \<lparr>sin_family = 2, sin_port = 8341, s_addr = 2\<rparr> 1 NetSocket_new
      in s\<lparr>sk_s := 10, sk_fsm := (sk_fsm s)\<lparr>f_state := kNetFsmStateActive\<rparr>, sk_state := kNetSockStateActive\<rparr>)"

definition two_world :: world where
  "two_world =
     (let w = ready_world (\<lambda>_. 0)
      in w\<lparr>w_socks := (w_socks w)(2 \<mapsto> named_sock), w_nsocks := 3, w_dev := (w_dev w)\<lparr>dv_token2sock := [(9, 2)]\<rparr>\<rparr>)"

lemma two_serving: "serving 1 ready_sock (\<lambda>_. []) two_world"
  unfolding serving_def
proof (intro conjI)
  note ready = ready_serving [of "\<lambda>_. 0", unfolded serving_def]
  then show "at_rest 1 ready_sock two_world" "pollers_ok two_world" "device_up two_world"
    by (simp_all add: two_world_def at_rest_def pollers_ok_def device_up_def Let_def)
  show "mail_are two_world (\<lambda>_. [])"
    unfolding mail_are_def
    by (intro exI [of _ "\<lambda>_. []"] mail_keysI)
      (auto simp: two_world_def ready_world_def ready_sock_def named_sock_def init_sock_def Init_rep Let_def split: if_splits)
qed (simp add: ready_sock_def Let_def)

theorem read_command_is_answered_witness:
  "\<exists>w' s'. run_fd (header_env sample_cmd) 3 1 kNetPollerIn two_world = Inr w' \<and>
     serving 1 s' ((\<lambda>_. [])(2 := [\<lparr>msg_type = 1, m_src = 7, m_dst = 9, m_extra = 2\<rparr>])) w'"
proof -
  have p: "payload_len sample_cmd = 0" by (rule sample_len)
  have E: "grants (header_env sample_cmd)"
    by (simp add: grants_def can_signal_def sets_flags_def header_env_def sysret_def le_bytes_def)
  have c: "reads_command sample_cmd" "m_src sample_cmd = 7" "m_dst sample_cmd = 9" by (simp_all add: reads_command_def sample_cmd_def)
  have u: "u_Token2Dptr (env_user (header_env sample_cmd)) 7 = 7" "u_Token2DptrSize (env_user (header_env sample_cmd)) 7 = 2"
    by (simp_all add: header_env_def plain_user_def)
  have w: "NetDevice_Token2Socket 9 two_world = Some 2" "w_socks two_world 2 = Some named_sock"
    "f_state (sk_fsm named_sock) \<noteq> kNetFsmStateIdle" "sk_worker named_sock < length (w_workers two_world)"
    by (simp_all add: two_world_def NetDevice_Token2Socket_def named_sock_def init_sock_def ready_world_def Let_def)
  have T: "tasks_are two_world (\<lambda>_. [])"
    using ready_tasks [of "\<lambda>_. 0"] by (simp add: tasks_are_def two_world_def Let_def)
  have raw: "NetSocket_RecvRaw (env_os (header_env sample_cmd)) (env_user (header_env sample_cmd)) (w_mem two_world)
     (sockbuf.truncate ready_sock) (w_trace two_world) =
     (0, (fresh_sock 9)\<lparr>sk_in_buf := NetMsg_bytes sample_cmd @ drop 32 (sk_in_buf (fresh_sock 9)), sk_in_offset := 0\<rparr>, w_mem two_world,
      Sys_read 9 32 # w_trace two_world)"
    unfolding ready_bufs using header_received [OF p, of "fresh_sock 9"] by simp
  have "sint (u_Token2DptrSize (env_user (header_env sample_cmd)) (m_src sample_cmd)) \<noteq> - 1" by (simp add: c u)
  from read_command_is_answered [OF two_serving raw header_extracted [symmetric] c(1) this w(1) [folded c(3)] w(2) _ w(3,4) T E, of 0]
  show ?thesis unfolding c(2,3) u numeral_3_eq_3 by auto
qed

end
