(* ===== verification/Netroute.thy ===== *)
theory Netroute
  imports Netanswer
begin

text \<open>
  Which socket a message goes out on. \<open>SendMsg\<close> looks the destination token up in
  \<open>token2sock_\<close>, then looks for a socket to the same address, and makes a socket when there
  is none; the token is then remembered. So a machine is reached by one socket however many
  tokens name its memory.
\<close>

section \<open>The table of tokens\<close>

definition addr_of :: "world \<Rightarrow> nat \<Rightarrow> sockaddr" where
  "addr_of w i = (case w_socks w i of None \<Rightarrow> \<lparr>sin_family = 0, sin_port = 0, s_addr = 0\<rparr> | Some s \<Rightarrow> sk_ip s)"

text \<open>
  The sockets of the table are there, each is connected to the machine of the tokens that
  name it, no two of them to the same machine, and no token is named twice.
\<close>

definition table_ok :: "env \<Rightarrow> world \<Rightarrow> bool" where
  "table_ok E w \<longleftrightarrow>
     (\<forall>(t, i) \<in> set (dv_token2sock (w_dev w)). w_socks w i \<noteq> None \<and> IsIpEqual (addr_of w i) (u_Token2Ip (env_user E) t)) \<and>
     (\<forall>(t, i) \<in> set (dv_token2sock (w_dev w)). \<forall>(t', i') \<in> set (dv_token2sock (w_dev w)).
        IsIpEqual (addr_of w i) (addr_of w i') \<longrightarrow> i = i') \<and>
     distinct (map fst (dv_token2sock (w_dev w)))"

lemma IsIpEqual_eq: "IsIpEqual a b \<longleftrightarrow> a = b"
  by (cases a, cases b) (auto simp: IsIpEqual_def)

text \<open>The first entry of the table whose socket has the address.\<close>

definition entry_for :: "world \<Rightarrow> sockaddr \<Rightarrow> (64 word \<times> nat) option" where
  "entry_for w a = find (\<lambda>(t, i). addr_of w i = a) (dv_token2sock (w_dev w))"

lemma find_by_ip_law:
  "\<forall>(t, i) \<in> set m. w_socks w i \<noteq> None \<Longrightarrow>
   find_by_ip a m w = Inr (map_option snd (find (\<lambda>(t, i). addr_of w i = a) m))"
  by (induction a m w rule: find_by_ip.induct) (auto simp: live IsIpEqual_eq addr_of_def)

lemma found_entry: "entry_for w a = Some (t, i) \<Longrightarrow> (t, i) \<in> set (dv_token2sock (w_dev w)) \<and> addr_of w i = a"
  by (auto simp: entry_for_def find_Some_iff) (metis nth_mem)

lemma no_entry: "entry_for w a = None \<Longrightarrow> (t, i) \<in> set (dv_token2sock (w_dev w)) \<Longrightarrow> addr_of w i \<noteq> a"
  by (auto simp: entry_for_def find_None_iff)

section \<open>Routing\<close>

lemma route_known: "NetDevice_Token2Socket t w = Some i \<Longrightarrow> route E t w = Inr (i, w)"
  by (simp add: route_def)

lemma route_shared:
  assumes "table_ok E w" and "NetDevice_Token2Socket t w = None" and "entry_for w (u_Token2Ip (env_user E) t) = Some (t', i)"
  shows "route E t w = Inr (i, emplace_sock t i w)"
proof -
  have "find_by_ip (u_Token2Ip (env_user E) t) (dv_token2sock (w_dev w)) w = Inr (Some i)"
    using assms by (subst find_by_ip_law) (auto simp: table_ok_def entry_for_def)
  with assms(2) show ?thesis by (simp add: route_def)
qed

text \<open>The socket made for a new machine, and the state with it.\<close>

definition routed_world :: "env \<Rightarrow> 64 word \<Rightarrow> world \<Rightarrow> world" where
  "routed_world E t w =
     (let i = w_nsocks w in
      w\<lparr>w_nsocks := Suc i, w_cur_worker := next_worker (w_cur_worker w),
        w_next := (\<lambda>x. if item_of i x then NOT_IN_QUEUE else w_next w x),
        w_socks := (w_socks w)(i \<mapsto> init_sock i kNetDeviceSrcSocketEvent FDevice (u_Token2Ip (env_user E) t) (nat (w_cur_worker w)) NetSocket_new),
        w_dev := (w_dev w)\<lparr>dv_token2sock := dv_token2sock (w_dev w) @ [(t, i)],
                           dv_sock_sets := List.insert i (dv_sock_sets (w_dev w))\<rparr>\<rparr>)"

lemma route_fresh:
  assumes w: "table_ok E w" "NetDevice_Token2Socket t w = None" "entry_for w (u_Token2Ip (env_user E) t) = None"
    and c: "0 \<le> w_cur_worker w" "w_cur_worker w < int kNetWorkerNum"
  shows "route E t w = Inr (w_nsocks w, routed_world E t w)"
proof -
  let ?i = "w_nsocks w" and ?a = "u_Token2Ip (env_user E) t"
  have f: "find_by_ip ?a (dv_token2sock (w_dev w)) w = Inr None"
    using w by (subst find_by_ip_law) (auto simp: table_ok_def entry_for_def)
  let ?w1 = "insert_sock ?i (w\<lparr>w_socks := (w_socks w)(?i \<mapsto> NetSocket_new), w_nsocks := Suc ?i\<rparr>)"
  let ?s = "init_sock ?i kNetDeviceSrcSocketEvent FDevice ?a (nat (w_cur_worker w)) NetSocket_new"
  have w1: "w_socks ?w1 ?i = Some NetSocket_new" "w_cur_worker ?w1 = w_cur_worker w"
    by (simp_all add: insert_sock_def)
  let ?w2 = "?w1\<lparr>w_cur_worker := next_worker (w_cur_worker w), w_next := (\<lambda>x. if item_of ?i x then NOT_IN_QUEUE else w_next w x),
            w_socks := (w_socks w)(?i \<mapsto> ?s)\<rparr>"
  have "NetSocket_Init ?i kNetDeviceSrcSocketEvent FDevice ?a ?w1 = Inr ?w2"
    using Socket_Init_law [of ?w1 ?i NetSocket_new kNetDeviceSrcSocketEvent FDevice ?a] w1 c
    by (simp add: insert_sock_def upd_dev_def cong: if_cong)
  moreover have "emplace_sock t ?i ?w2 = routed_world E t w"
    using w(2) by (simp add: emplace_sock_def NetDevice_Token2Socket_def insert_sock_def upd_dev_def routed_world_def Let_def)
  moreover have "NetFsm_IsIdle (FSock ?i) (routed_world E t w) = Inr True"
    by (simp add: IsIdle_live [where s = ?s] routed_world_def init_sock_def Let_def)
  ultimately show ?thesis
    using w(2) f by (simp add: route_def new_sock_def NetSocket_IsIdle_def)
qed

text \<open>Where a message to \<open>t\<close> goes, and the state after the decision.\<close>

definition route_spec :: "env \<Rightarrow> 64 word \<Rightarrow> world \<Rightarrow> nat \<times> world" where
  "route_spec E t w =
     (case NetDevice_Token2Socket t w of
        Some i \<Rightarrow> (i, w)
      | None \<Rightarrow>
          (case entry_for w (u_Token2Ip (env_user E) t) of
             Some (t', i) \<Rightarrow> (i, w\<lparr>w_dev := (w_dev w)\<lparr>dv_token2sock := dv_token2sock (w_dev w) @ [(t, i)]\<rparr>\<rparr>)
           | None \<Rightarrow> (w_nsocks w, routed_world E t w)))"

lemma route_law:
  assumes "table_ok E w" and "0 \<le> w_cur_worker w" and "w_cur_worker w < int kNetWorkerNum"
  shows "route E t w = Inr (route_spec E t w)"
proof (cases "NetDevice_Token2Socket t w")
  case None
  show ?thesis
  proof (cases "entry_for w (u_Token2Ip (env_user E) t)")
    case (Some e)
    obtain t' i where "e = (t', i)" by (cases e)
    with Some None route_shared [OF assms(1) None] show ?thesis
      by (cases "w_dev w") (auto simp: route_spec_def emplace_sock_def NetDevice_Token2Socket_def upd_dev_def)
  qed (use route_fresh [OF assms(1) None _ assms(2,3)] None in \<open>simp add: route_spec_def\<close>)
qed (simp add: route_known route_spec_def)

text \<open>The table stays in order, and the token is in it now.\<close>

lemma route_spec_table:
  assumes w: "table_ok E w" and new: "w_socks w (w_nsocks w) = None"
  shows "table_ok E (snd (route_spec E t w))"
    and "NetDevice_Token2Socket t (snd (route_spec E t w)) = Some (fst (route_spec E t w))"
    and "addr_of (snd (route_spec E t w)) (fst (route_spec E t w)) = u_Token2Ip (env_user E) t"
proof -
  let ?a = "u_Token2Ip (env_user E) t" and ?n = "w_nsocks w" and ?m = "dv_token2sock (w_dev w)"
  have tab: "w_socks w i \<noteq> None" "addr_of w i = u_Token2Ip (env_user E) t'" "i \<noteq> ?n" if "(t', i) \<in> set ?m" for t' i
    using w that new by (auto simp: table_ok_def IsIpEqual_eq)
  have inj: "i = i'" if "(t', i) \<in> set ?m" "(t'', i') \<in> set ?m" "addr_of w i = addr_of w i'" for t' t'' i i'
    using w that unfolding table_ok_def IsIpEqual_eq by blast
  have dist: "distinct (map fst ?m)" using w by (simp add: table_ok_def)
  have "table_ok E (snd (route_spec E t w)) \<and> NetDevice_Token2Socket t (snd (route_spec E t w)) = Some (fst (route_spec E t w)) \<and>
      addr_of (snd (route_spec E t w)) (fst (route_spec E t w)) = ?a"
  proof (cases "NetDevice_Token2Socket t w")
    case (Some i)
    then have "(t, i) \<in> set ?m" by (auto simp: NetDevice_Token2Socket_def dest: map_of_SomeD)
    with Some w tab(2) show ?thesis by (simp add: route_spec_def)
  next
    case None
    then have t: "t \<notin> fst ` set ?m" by (simp add: NetDevice_Token2Socket_def map_of_eq_None_iff)
    then have last: "map_of (?m @ [(t, i)]) t = Some i" for i using map_of_eq_None_iff [of ?m t] by (simp add: map_add_def)
    show ?thesis
    proof (cases "entry_for w ?a")
      case (Some e)
      then obtain t' i where e: "entry_for w ?a = Some (t', i)" by (cases e) simp
      note i = found_entry [OF e]
      have a: "addr_of (w\<lparr>w_dev := d\<rparr>) k = addr_of w k" for d k by (simp add: addr_of_def)
      from None e i t tab inj dist last show ?thesis
        by (auto simp: route_spec_def table_ok_def IsIpEqual_eq a NetDevice_Token2Socket_def)
    next
      case none: None
      have a: "addr_of (routed_world E t w) k = (if k = ?n then ?a else addr_of w k)" for k
        by (simp add: addr_of_def routed_world_def init_sock_def Let_def)
      have m: "dv_token2sock (w_dev (routed_world E t w)) = ?m @ [(t, ?n)]" by (simp add: routed_world_def Let_def)
      let ?s = "init_sock ?n kNetDeviceSrcSocketEvent FDevice ?a (nat (w_cur_worker w)) NetSocket_new"
      have socks: "w_socks (routed_world E t w) = (w_socks w)(?n \<mapsto> ?s)" by (simp add: routed_world_def Let_def)
      from None none show ?thesis
        using tab inj dist t last no_entry [OF none]
        by (auto simp: route_spec_def table_ok_def IsIpEqual_eq a m socks NetDevice_Token2Socket_def dest: tab(3)) metis
    qed
  qed
  then show "table_ok E (snd (route_spec E t w))"
    "NetDevice_Token2Socket t (snd (route_spec E t w)) = Some (fst (route_spec E t w))"
    "addr_of (snd (route_spec E t w)) (fst (route_spec E t w)) = u_Token2Ip (env_user E) t" by blast+
qed

lemma table_addresses:
  assumes "table_ok E w" and "NetDevice_Token2Socket t w = Some i" and "NetDevice_Token2Socket t' w = Some i'"
  shows "i = i' \<longleftrightarrow> u_Token2Ip (env_user E) t = u_Token2Ip (env_user E) t'"
proof -
  from assms(2,3) have m: "(t, i) \<in> set (dv_token2sock (w_dev w))" "(t', i') \<in> set (dv_token2sock (w_dev w))"
    by (auto simp: NetDevice_Token2Socket_def dest: map_of_SomeD)
  with assms(1) have "addr_of w i = u_Token2Ip (env_user E) t" "addr_of w i' = u_Token2Ip (env_user E) t'"
    unfolding table_ok_def IsIpEqual_eq by blast+
  moreover from assms(1) m have "addr_of w i = addr_of w i' \<Longrightarrow> i = i'" unfolding table_ok_def IsIpEqual_eq by blast
  ultimately show ?thesis by auto
qed

lemma route_spec_known:
  "NetDevice_Token2Socket t' w = Some j \<Longrightarrow> NetDevice_Token2Socket t' (snd (route_spec E t w)) = Some j"
  by (auto simp: route_spec_def NetDevice_Token2Socket_def routed_world_def map_add_Some_iff Let_def split: option.split prod.split)

text \<open>Routing one message after the other.\<close>

fun route_all :: "env \<Rightarrow> 64 word list \<Rightarrow> world \<Rightarrow> (nat list \<times> world) res" where
  "route_all E [] w = Inr ([], w)"
| "route_all E (t # ts) w =
     andThen (route E t w) (\<lambda>(i, w). andThen (route_all E ts w) (\<lambda>(is, w). Inr (i # is, w)))"

lemma route_ok:
  assumes "world_ok w" and "table_ok E w"
  shows "\<exists>i w'. route E t w = Inr (i, w') \<and> world_ok w' \<and> table_ok E w' \<and> NetDevice_Token2Socket t w' = Some i \<and>
     (\<forall>t' j. NetDevice_Token2Socket t' w = Some j \<longrightarrow> NetDevice_Token2Socket t' w' = Some j)"
proof -
  from assms(1) have c: "0 \<le> w_cur_worker w" "w_cur_worker w < int kNetWorkerNum" and new: "w_socks w (w_nsocks w) = None"
    by (auto simp: world_ok_def) (meson less_irrefl not_None_eq)
  from route_law [OF assms(2) c] have r: "route E t w = Inr (fst (route_spec E t w), snd (route_spec E t w))" by simp
  with inv.route_keeps [OF assms(1), of E t] have "world_ok (snd (route_spec E t w))" by (simp add: after_def split_def)
  with r route_spec_table [OF assms(2) new, of t] route_spec_known show ?thesis by blast
qed

lemma route_all_ok:
  assumes "world_ok w" and "table_ok E w"
  shows "\<exists>is w'. route_all E ts w = Inr (is, w') \<and> world_ok w' \<and> table_ok E w' \<and> length is = length ts \<and>
     (\<forall>k < length ts. NetDevice_Token2Socket (ts ! k) w' = Some (is ! k)) \<and>
     (\<forall>t' j. NetDevice_Token2Socket t' w = Some j \<longrightarrow> NetDevice_Token2Socket t' w' = Some j)"
  using assms
proof (induction ts arbitrary: w)
  case (Cons t ts)
  from route_ok [OF Cons.prems, of t] obtain i w1 where
    w1: "route E t w = Inr (i, w1)" "world_ok w1" "table_ok E w1" "NetDevice_Token2Socket t w1 = Some i"
      "\<And>t' j. NetDevice_Token2Socket t' w = Some j \<Longrightarrow> NetDevice_Token2Socket t' w1 = Some j" by blast
  from Cons.IH [OF w1(2,3)] obtain "is" w2 where
    w2: "route_all E ts w1 = Inr (is, w2)" "world_ok w2" "table_ok E w2" "length is = length ts"
      "\<And>k. k < length ts \<Longrightarrow> NetDevice_Token2Socket (ts ! k) w2 = Some (is ! k)"
      "\<And>t' j. NetDevice_Token2Socket t' w1 = Some j \<Longrightarrow> NetDevice_Token2Socket t' w2 = Some j" by blast
  have "NetDevice_Token2Socket ((t # ts) ! k) w2 = Some ((i # is) ! k)" if "k < length (t # ts)" for k
    using that w1(4) w2(5,6) by (cases k) auto
  with w1 w2 show ?case by (intro exI [of _ "i # is"] exI [of _ w2]) simp
qed simp

section \<open>Properties\<close>

text \<open>C19: One socket per machine. Routing any number of messages, one after the other, never fails; two of
  them go out on the same socket if and only if their tokens are on the same machine (the
  user's \<open>Token2Ip\<close> gives the same address), and tokens routed before keep their sockets.\<close>

theorem one_socket_per_machine:
  assumes "world_ok w" and "table_ok E w"
  shows "\<exists>is w'. route_all E ts w = Inr (is, w') \<and> length is = length ts \<and>
     (\<forall>j < length ts. \<forall>k < length ts. is ! j = is ! k \<longleftrightarrow> u_Token2Ip (env_user E) (ts ! j) = u_Token2Ip (env_user E) (ts ! k)) \<and>
     (\<forall>k < length ts. NetDevice_Token2Socket (ts ! k) w' = Some (is ! k)) \<and>
     (\<forall>t j. NetDevice_Token2Socket t w = Some j \<longrightarrow> NetDevice_Token2Socket t w' = Some j)"
  using route_all_ok [OF assms, of ts] table_addresses by blast

theorem one_socket_per_machine_witness:
  "\<exists>is w'. route_all kind_env [5, 6, 7] (new_world (\<lambda>_. 0)) = Inr (is, w') \<and> is ! 0 = is ! 2"
proof -
  have "table_ok kind_env (new_world (\<lambda>_. 0))" by (simp add: table_ok_def new_world_def new_device_def)
  from one_socket_per_machine [OF new_world_ok this, of "[5, 6, 7]"] obtain "is" w' where
    "route_all kind_env [5, 6, 7] (new_world (\<lambda>_. 0)) = Inr (is, w')"
    "\<forall>j < 3. \<forall>k < 3. is ! j = is ! k \<longleftrightarrow> u_Token2Ip (env_user kind_env) ([5, 6, 7] ! j) = u_Token2Ip (env_user kind_env) ([5, 6, 7] ! k)"
    by (auto simp: numeral_3_eq_3)
  moreover from this(2) [rule_format, of 0 2] have "is ! 0 = is ! 2" by (simp add: kind_env_def plain_user_def)
  ultimately show ?thesis by blast
qed

text \<open>The request that \<open>ReadData\<close> makes.\<close>

definition read_request :: "64 word \<Rightarrow> 64 word \<Rightarrow> netmsg" where
  "read_request src dst = \<lparr>msg_type = 0, m_src = dst, m_dst = src, m_extra = word_of_int kNetMsgCmdRead\<rparr>"

lemma ReadData_request:
  "NetDevice_ReadData E run src dst cb w = NetDevice_SendMsg E run (read_request src dst) (emplace_callback src cb w)"
  by (simp add: NetDevice_ReadData_def read_request_def NetMsg_new_def)

lemma request_reads: "reads_command (read_request src dst)"
  by (simp add: reads_command_def read_request_def)

lemma route_address:
  assumes "world_ok w" and "table_ok E w"
  shows "\<exists>i w'. route E t w = Inr (i, w') \<and> addr_of w' i = u_Token2Ip (env_user E) t"
proof -
  from route_ok [OF assms, of t] obtain i w' where r: "route E t w = Inr (i, w')" "table_ok E w'" "NetDevice_Token2Socket t w' = Some i" by blast
  from r(3) have "(t, i) \<in> set (dv_token2sock (w_dev w'))" by (auto simp: NetDevice_Token2Socket_def dest: map_of_SomeD)
  with r show ?thesis by (auto simp: table_ok_def IsIpEqual_eq)
qed

text \<open>C27: A read and its reply go to the same machine. The process \<open>A\<close> that reads and the process \<open>B\<close> that
  answers agree on which token is on which machine (as \<open>device.h\<close> demands: every token is
  globally unique). \<open>ReadData\<close> routes its request by its first argument, and \<open>B\<close> routes the
  reply by the same token, so both travel to the machine of that token: if the request
  reached \<open>B\<close>, then the reply is sent to \<open>B\<close> itself, and never back to \<open>A\<close>.\<close>

theorem reply_goes_where_request_went:
  assumes "u_Token2Ip (env_user B) = u_Token2Ip (env_user A)" and "world_ok wA" and "table_ok A wA" and "world_ok wB" and "table_ok B wB"
    and "sint (u_Token2DptrSize (env_user B) dst) \<noteq> - 1"
  shows "NetDevice_ReadData A run src dst cb wA = NetDevice_SendMsg A run (read_request src dst) (emplace_callback src cb wA) \<and>
     NetDevice_ParseNetMsg B run (read_request src dst) wB =
       andThen (NetDevice_SendMsg B run (read_reply (env_user B) (read_request src dst)) wB) (\<lambda>(_, w). Inr (0, w)) \<and>
     (\<exists>i j wA' wB'. route A (m_dst (read_request src dst)) (emplace_callback src cb wA) = Inr (i, wA') \<and>
        route B (m_dst (read_reply (env_user B) (read_request src dst))) wB = Inr (j, wB') \<and>
        addr_of wA' i = u_Token2Ip (env_user A) src \<and> addr_of wB' j = u_Token2Ip (env_user A) src)"
proof -
  have "world_ok (emplace_callback src cb wA)" using inv.callback_keeps [OF assms(2)] .
  moreover have "addr_of (emplace_callback src cb wA) k = addr_of wA k" for k by (simp add: addr_of_def emplace_callback_def)
  then have "table_ok A (emplace_callback src cb wA)" using assms(3) by (simp add: table_ok_def emplace_callback_def)
  ultimately obtain i wA' where "route A src (emplace_callback src cb wA) = Inr (i, wA')" "addr_of wA' i = u_Token2Ip (env_user A) src"
    using route_address by blast
  moreover obtain j wB' where "route B src wB = Inr (j, wB')" "addr_of wB' j = u_Token2Ip (env_user A) src"
    using route_address [OF assms(4,5)] assms(1) by metis
  ultimately show ?thesis
    using Parse_read [OF request_reads, of B run src dst wB] assms(6)
    by (simp add: ReadData_request) (simp add: read_request_def read_reply_def)
qed

theorem reply_goes_where_request_went_witness:
  "\<exists>i j wA' wB'. route kind_env (m_dst (read_request 5 6)) (emplace_callback 5 1 (new_world (\<lambda>_. 0))) = Inr (i, wA') \<and>
     route kind_env (m_dst (read_reply plain_user (read_request 5 6))) (new_world (\<lambda>_. 0)) = Inr (j, wB') \<and>
     addr_of wA' i = addr_of wB' j"
proof -
  have t: "table_ok kind_env (new_world (\<lambda>_. 0))" by (simp add: table_ok_def new_world_def new_device_def)
  have u: "env_user kind_env = plain_user" by (simp add: kind_env_def)
  have "sint (u_Token2DptrSize (env_user kind_env) 6) \<noteq> - 1" by (simp add: u plain_user_def)
  from reply_goes_where_request_went [OF refl new_world_ok t new_world_ok t this, where run = "dispatch kind_env" and src = 5 and cb = 1] show ?thesis
    unfolding u by metis
qed

end
