(* ===== verification/Netconnect.thy ===== *)
theory Netconnect
  imports Netroute
begin

text \<open>
  The first message to a machine: the device makes a socket, starts and connects it, and
  buffers the message, which is sent once the connection is up. (What becomes of a
  connection that fails at once is in \<open>Netrefuse\<close>.)
\<close>

section \<open>A socket for a new machine\<close>

text \<open>A state into which a socket can be added: its number is fresh and nothing is queued for it.\<close>

definition roomy :: "(nat \<Rightarrow> netmsg list) \<Rightarrow> (nat \<Rightarrow> qitem list) \<Rightarrow> world \<Rightarrow> bool" where
  "roomy M T w \<longleftrightarrow>
     (\<forall>i. w_nsocks w \<le> i \<longrightarrow> w_socks w i = None) \<and> 0 \<le> w_cur_worker w \<and> w_cur_worker w < int kNetWorkerNum \<and>
     length (w_workers w) = kNetWorkerNum \<and> pollers_ok w \<and> device_up w \<and> mail_are w M \<and> tasks_are w T \<and>
     (\<forall>k i t. TaskItem i t \<in> set (T k) \<longrightarrow> i < w_nsocks w)"

text \<open>A kernel that starts every connection attempt without finishing it.\<close>

definition dials :: "env \<Rightarrow> bool" where
  "dials E \<longleftrightarrow> (\<forall>tr f a. sr_ret (env_os E (Sys_connect f a # tr)) = - 1 \<and> sr_errno (env_os E (Sys_connect f a # tr)) = EINPROGRESS)"

lemma no_mail_for_new: "mail_are w M \<Longrightarrow> w_socks w i = None \<Longrightarrow> M i = []"
proof -
  assume "mail_are w M" "w_socks w i = None"
  then obtain K where K: "mail_keys w K M" by (auto simp: mail_are_def)
  from mailD(2) [OF K \<open>w_socks w i = None\<close>] mailD(4) [OF K, of i] show "M i = []" by simp
qed

lemma routed_simps:
  "w_nsocks (routed_world E t w) = Suc (w_nsocks w)" "w_workers (routed_world E t w) = w_workers w"
  "w_trace (routed_world E t w) = w_trace w" "w_mem (routed_world E t w) = w_mem w"
  "w_wraps (routed_world E t w) = w_wraps w" "w_nwraps (routed_world E t w) = w_nwraps w"
  "w_socks (routed_world E t w) = (w_socks w)(w_nsocks w \<mapsto>
     init_sock (w_nsocks w) kNetDeviceSrcSocketEvent FDevice (u_Token2Ip (env_user E) t) (nat (w_cur_worker w)) NetSocket_new)"
  "w_next (routed_world E t w) = (\<lambda>x. if item_of (w_nsocks w) x then NOT_IN_QUEUE else w_next w x)"
  "dv_fsm (w_dev (routed_world E t w)) = dv_fsm (w_dev w)"
  "dv_token2sock (w_dev (routed_world E t w)) = dv_token2sock (w_dev w) @ [(t, w_nsocks w)]"
  by (simp_all add: routed_world_def Let_def)

lemma routed_mail:
  assumes "mail_are w M" and "w_socks w (w_nsocks w) = None"
  shows "mail_are (routed_world E t w) M"
proof -
  from assms(1) obtain K where K: "mail_keys w K M" by (auto simp: mail_are_def)
  have "queue_rep (w_next (routed_world E t w)) q (map MsgItem ks) = queue_rep (w_next w) q (map MsgItem ks)" for q ks
    by (rule queue_rep_frame) (auto simp: routed_simps)
  then have "mail_keys (routed_world E t w) K M"
    using mailD [OF K] mailD(2) [OF K assms(2)]
    by (intro mail_keysI) (auto simp: routed_simps init_sock_def Init_rep split: if_splits)
  then show ?thesis by (auto simp: mail_are_def)
qed

lemma routed_tasks:
  assumes T: "tasks_are w T" and new: "\<And>k t. TaskItem (w_nsocks w) t \<notin> set (T k)"
  shows "tasks_are (routed_world E a w) T"
proof (rule tasks_are_frame [OF T])
  fix k x
  assume x: "x \<in> set (T k)"
  with T have "is_task x" by (simp add: tasks_are_def)
  have "\<not> item_of (w_nsocks w) x" by (cases x) (use x new \<open>is_task x\<close> in auto)
  then show "w_next (routed_world E a w) x = w_next w x" by (simp add: routed_simps)
qed (simp add: routed_simps)

section \<open>Start and connect\<close>

lemma routed_starts:
  fixes t :: "64 word"
  assumes E: "grants E" "opens_sockets E" and w: "w_socks w (w_nsocks w) = None"
  defines "i \<equiv> w_nsocks w" and "s1 \<equiv> init_sock (w_nsocks w) kNetDeviceSrcSocketEvent FDevice (u_Token2Ip (env_user E) t) (nat (w_cur_worker w)) NetSocket_new"
  shows "NetSocket_Start E (dispatch E) i AF_INET SOCK_STREAM 0 (routed_world E t w) = Inr (0,
     (routed_world E t w)\<lparr>w_socks := (w_socks (routed_world E t w))
        (i \<mapsto> s1\<lparr>sk_s := socket_fd E (w_trace w), sk_state := kNetSockStateStarting, sk_fsm := (sk_fsm s1)\<lparr>f_state := kNetFsmStateActive\<rparr>\<rparr>),
      w_trace := socket_calls E (w_trace w) @ w_trace w\<rparr>)"
proof -
  have "w_socks (routed_world E t w) i = Some s1" by (simp add: routed_simps i_def s1_def)
  then show ?thesis
    using started [OF E(1), of "routed_world E t w" i s1] E(2) by (auto simp: init_sock_def s1_def routed_simps i_def opens_sockets_def)
qed

lemma Handler_connect:
  "w_socks w i = Some s \<Longrightarrow> running s \<Longrightarrow> sk_state s = kNetSockStateStarting \<Longrightarrow>
   NetFsm_Action (dispatch E) (FSock i) kNetSockActionConnect w =
     Inr (w\<lparr>w_socks := (w_socks w)(i \<mapsto> s\<lparr>sk_state := kNetSockStateConnecting\<rparr>)\<rparr>)"
  by (simp add: live)

lemma Connect_pending:
  assumes s: "w_socks w i = Some s" "running s" "sk_state s = kNetSockStateStarting" and E: "dials E"
  shows "NetSocket_Connect E (dispatch E) i w =
     execute_task E i TkConnecting (w\<lparr>w_socks := (w_socks w)(i \<mapsto> s\<lparr>sk_state := kNetSockStateConnecting\<rparr>),
                                      w_trace := Sys_connect (sk_s s) (sk_ip s) # w_trace w\<rparr>)"
  using E Handler_connect [OF s] by (simp add: NetSocket_Connect_def get_sock_live sys_def dials_def)

text \<open>The socket once its connection has been asked for.\<close>

definition dialing_sock :: "nat \<Rightarrow> sockaddr \<Rightarrow> nat \<Rightarrow> int \<Rightarrow> netsock" where
  "dialing_sock i a k fd =
     (let s = init_sock i kNetDeviceSrcSocketEvent FDevice a k NetSocket_new
      in s\<lparr>sk_s := fd, sk_state := kNetSockStateConnecting, sk_fsm := (sk_fsm s)\<lparr>f_state := kNetFsmStateActive\<rparr>\<rparr>)"

definition dial_tasks :: "nat \<Rightarrow> nat \<Rightarrow> (nat \<Rightarrow> qitem list) \<Rightarrow> nat \<Rightarrow> qitem list" where
  "dial_tasks i k T = T(k := T k @ [TaskItem i TkConnecting, TaskItem i TkSend])"

text \<open>The calls of a connection attempt, newest first.\<close>

definition connect_calls :: "env \<Rightarrow> sockaddr \<Rightarrow> trace \<Rightarrow> trace" where
  "connect_calls E a tr = Sys_connect (socket_fd E tr) a # socket_calls E tr"

lemma start_and_connect:
  fixes t :: "64 word"
  assumes E: "grants E" "opens_sockets E" "dials E" and w: "roomy M T w"
  defines "i \<equiv> w_nsocks w" and "k \<equiv> nat (w_cur_worker w)" and "w1 \<equiv> routed_world E t w" and "a \<equiv> u_Token2Ip (env_user E) t"
    and "fd \<equiv> socket_fd E (w_trace w)"
  shows "\<exists>w4. andThen (NetSocket_Start E (dispatch E) i AF_INET SOCK_STREAM 0 w1) (\<lambda>(_, w). NetSocket_Connect E (dispatch E) i w) = Inr w4 \<and>
     w_socks w4 = (w_socks w)(i \<mapsto> dialing_sock i a k fd) \<and> tasks_are w4 (T(k := T k @ [TaskItem i TkConnecting])) \<and>
     mail_are w4 M \<and> pollers_ok w4 \<and> w_dev w4 = w_dev w1 \<and> w_nsocks w4 = Suc i \<and> w_mem w4 = w_mem w \<and>
     length (w_workers w4) = kNetWorkerNum \<and> (\<forall>x. \<not> is_task x \<longrightarrow> w_next w4 x = w_next w1 x) \<and>
     w_next w4 (TaskItem i TkSend) = NOT_IN_QUEUE \<and> w_cur_worker w4 = next_worker (w_cur_worker w) \<and>
     w_trace w4 = woken w k @ connect_calls E a (w_trace w) @ w_trace w \<and>
     (\<forall>j < kNetWorkerNum. wk_poller (w_workers w4 ! j) = wk_poller (w_workers w ! j) \<and> wk_efd (w_workers w4 ! j) = wk_efd (w_workers w ! j))"
proof -
  let ?s1 = "init_sock i kNetDeviceSrcSocketEvent FDevice a k NetSocket_new"
  from w have new: "w_socks w i = None" "k < kNetWorkerNum" "length (w_workers w) = kNetWorkerNum" "pollers_ok w" "mail_are w M" "tasks_are w T"
      "TaskItem i tt \<notin> set (T j)" for j tt
    unfolding roomy_def i_def k_def by (auto simp: nat_less_iff)
  have s1: "w_socks w1 i = Some ?s1" by (simp add: w1_def routed_simps i_def k_def a_def)
  have T1: "tasks_are w1 T" unfolding w1_def using routed_tasks [OF new(6)] new(7) by (simp add: i_def)
  have M1: "mail_are w1 M" unfolding w1_def using new(1) by (intro routed_mail [OF new(5)]) (simp add: i_def)
  let ?s2 = "?s1\<lparr>sk_s := fd, sk_state := kNetSockStateStarting, sk_fsm := (sk_fsm ?s1)\<lparr>f_state := kNetFsmStateActive\<rparr>\<rparr>"
  let ?w2 = "w1\<lparr>w_socks := (w_socks w1)(i \<mapsto> ?s2), w_trace := socket_calls E (w_trace w) @ w_trace w\<rparr>"
  have start: "NetSocket_Start E (dispatch E) i AF_INET SOCK_STREAM 0 w1 = Inr (0, ?w2)"
    using routed_starts [OF E(1,2) new(1) [unfolded i_def], of t] unfolding w1_def i_def a_def k_def fd_def by blast
  have s2: "w_socks ?w2 i = Some ?s2" "running ?s2" "sk_state ?s2 = kNetSockStateStarting" by (simp_all add: init_sock_def running_def)
  let ?s3 = "dialing_sock i a k fd"
  let ?w3 = "?w2\<lparr>w_socks := (w_socks ?w2)(i \<mapsto> ?s2\<lparr>sk_state := kNetSockStateConnecting\<rparr>), w_trace := Sys_connect (sk_s ?s2) (sk_ip ?s2) # w_trace ?w2\<rparr>"
  have s3: "?s2\<lparr>sk_state := kNetSockStateConnecting\<rparr> = ?s3" by (simp add: dialing_sock_def Let_def)
  have w3: "w_socks ?w3 i = Some ?s3" "sk_worker ?s3 = k" "tasks_are ?w3 T" "k < length (w_workers ?w3)"
    using T1 new(2,3) by (simp_all add: s3 w1_def routed_simps) (simp_all add: dialing_sock_def init_sock_def Let_def)
  obtain w4 where w4: "execute_task E i TkConnecting ?w3 = Inr w4" "only_tasks ?w3 w4"
     "tasks_are w4 (T(k := appended (w_next ?w3) (TaskItem i TkConnecting) (T k)))"
     "\<And>y. w_next w4 y = NOT_IN_QUEUE \<longleftrightarrow> y \<noteq> TaskItem i TkConnecting \<and> w_next ?w3 y = NOT_IN_QUEUE"
    using execute_task_tasks [OF w3(1) _ w3(3) E(1), of TkConnecting] w3(2,4) by auto
  have "w_next ?w3 = w_next w1" by simp
  then have nx: "w_next ?w3 (TaskItem i tt) = NOT_IN_QUEUE" for tt by (simp add: w1_def routed_simps i_def)
  note same = only_tasks_simps [OF w4(2)]
  have "mail_are ?w3 M" using s1 by (intro same_mail_are [OF M1]) (simp add: same_mail_def)
  then have "mail_are w4 M" by (rule same_mail_are) (rule only_tasks_same_mail [OF w4(2)])
  moreover have "pollers_ok w4" using new(4) only_tasks_pollers [OF w4(2)] by (simp add: pollers_ok_def w1_def routed_simps)
  moreover have "w_socks w4 = (w_socks w)(i \<mapsto> ?s3)"
    using arg_cong [OF s3, of "\<lambda>s. (w_socks w)(i \<mapsto> s)"] by (simp add: same w1_def routed_simps i_def)
  moreover have "w_trace w4 = woken w k @ connect_calls E a (w_trace w) @ w_trace w"
  proof -
    have "sk_ip ?s2 = a" "woken ?w3 k = woken w k" by (simp_all add: init_sock_def woken_def w1_def routed_simps)
    then show ?thesis using execute_task_trace [OF w4(1) w3(1)] w3(2) by (simp add: connect_calls_def fd_def)
  qed
  moreover have "wk_poller (w_workers w4 ! j) = wk_poller (w_workers w ! j) \<and> wk_efd (w_workers w4 ! j) = wk_efd (w_workers w ! j)"
    if "j < kNetWorkerNum" for j using same(11,12) [of j] that new(3) by (simp add: w1_def routed_simps)
  ultimately show ?thesis
    using start Connect_pending [OF s2 E(3)] w4(1,3,4) nx new(3)
    by (intro exI [of _ w4])
      (simp add: same appended_def, simp add: w1_def routed_simps i_def routed_world_def Let_def)
qed

section \<open>The first message to a machine\<close>

lemma SendMsg_route:
  assumes "route E (m_dst m) w = Inr (i, w1)" and "NetSocket_IsIdle i w1 = Inr True"
    and "andThen (NetSocket_Start E run i AF_INET SOCK_STREAM 0 w1) (\<lambda>(_, w). NetSocket_Connect E run i w) = Inr w2"
    and "NetSocket_AsyncSendMsg E i m w2 = Inr w3"
  shows "NetDevice_SendMsg E run m w = Inr (0, w3)"
  using assms by (simp add: NetDevice_SendMsg_def)

lemma dialing_at_rest:
  assumes "w_socks w i = Some s" and "s = (dialing_sock i a k fd)\<lparr>sk_msgq := q\<rparr>" and "k < length (w_workers w)"
    and "\<And>e. w_next w (EvItem (SockEv i e)) = NOT_IN_QUEUE"
  shows "at_rest i s w"
  using assms by (simp add: at_rest_def dialing_sock_def init_sock_def attached_def running_def NetSocket_new_def Let_def)

lemma first_message_law:
  assumes E: "grants E" "opens_sockets E" "dials E" and w: "roomy M T w"
    and t: "table_ok E w" "NetDevice_Token2Socket (m_dst m) w = None" "entry_for w (u_Token2Ip (env_user E) (m_dst m)) = None"
  defines "i \<equiv> w_nsocks w" and "k \<equiv> nat (w_cur_worker w)" and "a \<equiv> u_Token2Ip (env_user E) (m_dst m)"
  shows "\<exists>w' s'. NetDevice_SendMsg E (dispatch E) m w = Inr (0, w') \<and> at_rest i s' w' \<and> sk_state s' = kNetSockStateConnecting \<and>
     sk_ip s' = a \<and> sk_worker s' = k \<and> sk_s s' = socket_fd E (w_trace w) \<and> sockbuf.truncate s' = fresh_sock (sk_s s') \<and>
     roomy (M(i := [m])) (dial_tasks i k T) w' \<and>
     (\<forall>j. j \<noteq> i \<longrightarrow> w_socks w' j = w_socks w j) \<and> w_mem w' = w_mem w \<and> w_dev w' = w_dev (routed_world E (m_dst m) w) \<and>
     w_nsocks w' = Suc i \<and> w_cur_worker w' = next_worker (w_cur_worker w) \<and>
     w_trace w' = woken w k @ woken w k @ connect_calls E a (w_trace w) @ w_trace w \<and>
     (\<forall>j < kNetWorkerNum. wk_poller (w_workers w' ! j) = wk_poller (w_workers w ! j) \<and> wk_efd (w_workers w' ! j) = wk_efd (w_workers w ! j))"
proof -
  let ?w1 = "routed_world E (m_dst m) w" and ?fd = "socket_fd E (w_trace w)"
  from w have r: "w_socks w i = None" "0 \<le> w_cur_worker w" "w_cur_worker w < int kNetWorkerNum" "device_up w" "mail_are w M"
     "\<And>k i t. TaskItem i t \<in> set (T k) \<Longrightarrow> i < w_nsocks w" unfolding roomy_def i_def by blast+
  have k: "k < kNetWorkerNum" using r(2,3) by (simp add: k_def nat_less_iff)
  have route: "route E (m_dst m) w = Inr (i, ?w1)" using route_fresh [OF t r(2,3)] by (simp add: i_def)
  have idle: "NetSocket_IsIdle i ?w1 = Inr True"
    by (simp add: NetSocket_IsIdle_def IsIdle_live routed_simps i_def init_sock_def)
  let ?s4 = "dialing_sock i a k ?fd"
  obtain w4 where w4: "andThen (NetSocket_Start E (dispatch E) i AF_INET SOCK_STREAM 0 ?w1) (\<lambda>(_, w). NetSocket_Connect E (dispatch E) i w) = Inr w4"
     "w_socks w4 = (w_socks w)(i \<mapsto> ?s4)" "tasks_are w4 (T(k := T k @ [TaskItem i TkConnecting]))"
     "mail_are w4 M" "pollers_ok w4" "w_dev w4 = w_dev ?w1" "w_nsocks w4 = Suc i" "w_mem w4 = w_mem w" "length (w_workers w4) = kNetWorkerNum"
     "\<And>x. \<not> is_task x \<Longrightarrow> w_next w4 x = w_next ?w1 x" "w_next w4 (TaskItem i TkSend) = NOT_IN_QUEUE" "w_cur_worker w4 = next_worker (w_cur_worker w)"
     "w_trace w4 = woken w k @ connect_calls E a (w_trace w) @ w_trace w"
     "\<And>j. j < kNetWorkerNum \<Longrightarrow> wk_poller (w_workers w4 ! j) = wk_poller (w_workers w ! j) \<and> wk_efd (w_workers w4 ! j) = wk_efd (w_workers w ! j)"
    using start_and_connect [OF E w, of "m_dst m"] unfolding i_def [symmetric] k_def [symmetric] a_def [symmetric] by blast
  have s4: "w_socks w4 i = Some ?s4" "sk_worker ?s4 = k"
    by (simp_all add: w4(2)) (simp add: dialing_sock_def init_sock_def Let_def)
  obtain w5 nx q where w5: "NetSocket_AsyncSendMsg E i m w4 = Inr w5" "mail_are w5 (M(i := M i @ [m]))"
     "tasks_are w5 (T(k := T k @ [TaskItem i TkConnecting, TaskItem i TkSend]))"
     "only_tasks (enqueued i ?s4 m nx q w4) w5" "\<And>x. \<not> is_msg x \<Longrightarrow> nx x = w_next w4 x"
    using AsyncSendMsg_law [OF s4(1) _ w4(3,4) E(1), of m] k w4(9,11) by (auto simp: s4(2) appended_def)
  have tr5: "w_trace w5 = woken w k @ woken w k @ connect_calls E a (w_trace w) @ w_trace w"
    using AsyncSendMsg_trace [OF w5(1) s4(1)] w4(13) w4(14) [OF k] by (simp add: s4(2) woken_def)
  note same = only_tasks_simps [OF w5(4)]
  let ?s5 = "?s4\<lparr>sk_msgq := q\<rparr>"
  have ev: "w_next w5 (EvItem e) = w_next ?w1 (EvItem e)" for e using same(10) [of "EvItem e"] w5(5) w4(10) by simp
  have rest: "at_rest i ?s5 w5"
    by (rule dialing_at_rest [OF _ refl]) (simp_all add: same w4(2,9) k ev, simp add: routed_simps i_def)
  have "roomy (M(i := [m])) (dial_tasks i k T) w5" unfolding roomy_def
  proof (intro conjI allI impI)
    show "mail_are w5 (M(i := [m]))" using w5(2) no_mail_for_new [OF r(5,1)] by simp
    show "tasks_are w5 (dial_tasks i k T)" using w5(3) by (simp add: dial_tasks_def)
    show "pollers_ok w5" using w4(5) only_tasks_pollers [OF w5(4)] by (simp add: pollers_ok_def)
    show "device_up w5" using r(4) by (simp add: device_up_def same w4(6) routed_simps)
    show "w_socks w5 j = None" if "w_nsocks w5 \<le> j" for j
      using w that by (simp add: same w4(2,7) roomy_def i_def)
    show "j < w_nsocks w5" if "TaskItem j tt \<in> set (dial_tasks i k T l)" for l j tt
      using that r(6) by (auto simp: dial_tasks_def same w4(7) i_def less_Suc_eq split: if_splits)
  qed (use r(2,3) in \<open>simp_all add: same w4(9,12) next_worker_def\<close>)
  moreover have "sockbuf.truncate ?s5 = fresh_sock ?fd" "sk_s ?s5 = ?fd" "sk_state ?s5 = kNetSockStateConnecting" "sk_ip ?s5 = a" "sk_worker ?s5 = k"
    by (simp_all add: dialing_sock_def init_sock_def NetSocket_new_def fresh_sock_def sockbuf.defs Let_def)
  moreover have "wk_poller (w_workers w5 ! j) = wk_poller (w_workers w ! j) \<and> wk_efd (w_workers w5 ! j) = wk_efd (w_workers w ! j)"
    if "j < kNetWorkerNum" for j using same(11,12) [of j] w4(14) [OF that] w4(9) that by simp
  ultimately show ?thesis
    using SendMsg_route [OF route idle w4(1) w5(1)] rest tr5
    by (intro exI [of _ w5] exI [of _ ?s5]) (simp add: same w4(2,6-8,12))
qed

section \<open>The worker takes the tasks of the new socket\<close>

text \<open>The task that puts the connecting descriptor under watch for output.\<close>

lemma connecting_task_law:
  assumes a: "steady i s M w"
  shows "\<exists>w' s'. run_task E (Suc (Suc n)) i TkConnecting w = Inr w' \<and> steady i s' M w' \<and> beside i w w' \<and> synced i s' w' \<and>
     sockbuf.truncate s' = sockbuf.truncate s \<and> sk_state s' = sk_state s \<and> sk_worker s' = sk_worker s \<and>
     handle_of s' = \<lparr>h_fd = sk_s s, h_events = EPOLLOUT\<rparr>"
proof -
  from a have r: "at_rest i s w" and w: "pollers_ok w" "device_up w" "mail_are w M" by (simp_all add: steady_def)
  note rest = r [unfolded at_rest_def]
  let ?w1 = "in_section i s w" and ?p = "poller_of s w" and ?h = "\<lparr>h_fd = sk_s s, h_events = EPOLLOUT\<rparr>"
  obtain h tr where h: "NetPoller_Add ?p (sk_s s) (HSock i) (handle_of s) (w_trace w) = (h, tr)" by fastforce
  let ?s2 = "(locked s)\<lparr>sk_wfd := (sk_wfd s)\<lparr>wf_handle := h\<rparr>\<rparr>" and ?w2 = "polled i (locked s) ?p h tr ?w1"
  have add: "sock_AddFd i ?w1 = Inr ?w2" using AddFd_live [of ?w1 i "locked s" h tr] rest h by simp
  have e: "poller_of ?s2 ?w2 = ?p" using rest by (simp add: polled_def)
  obtain h2 tr2 where h2: "NetPoller_SetOut ?p (HSock i) h tr = (h2, tr2)" by fastforce
  have hh: "h2 = ?h" "in_sync (p_ep ?p) (HSock i) ?h tr2"
    using h h2 by (cases "handle_of s"; auto simp: NetPoller_Add_def NetPoller_SetOut_def in_sync_def)+
  let ?w3 = "polled i (locked s) ?p ?h tr2 ?w1"
  have "sock_SetOut i ?w2 = Inr ?w3"
    using SetOut_live [of ?w2 i ?s2 h2 tr2] h2 rest unfolding e by (simp add: polled_def same_worker hh)
  with add have "NetSocket_InternalTasks i (task_src TkConnecting) kNetWorkerTaskExecute ?w1 = Inr (True, ?w3)"
    by (simp add: NetSocket_InternalTasks_def)
  from internal_task_section [OF r this] have run: "run_task E (Suc (Suc n)) i TkConnecting w = Inr (polled i s ?p ?h tr2 w)" .
  let ?w4 = "polled i s ?p ?h tr2 w" and ?s4 = "s\<lparr>sk_wfd := (sk_wfd s)\<lparr>wf_handle := ?h\<rparr>\<rparr>"
  have "poller_ok ?p" using rest w(1) by (simp add: pollers_ok_def)
  moreover have "same_mail w ?w4" using rest by (simp add: same_mail_def polled_def)
  ultimately have "steady i ?s4 M ?w4" unfolding steady_def
    using at_rest_polled(1) [OF r] pollers_ok_polled [OF w(1)] w(2) same_mail_are [OF w(3)] by (simp add: device_up_def)
  moreover have "beside i w ?w4" using rest by (auto simp: beside_def polled_def same_worker)
  moreover have "synced i ?s4 ?w4" using hh(2) rest by (simp add: synced_def polled_def same_worker)
  ultimately show ?thesis using run by (intro exI [of _ ?w4] exI [of _ ?s4]) simp
qed

lemma beside_tasks:
  assumes b: "beside i w w'" and T: "tasks_are w T"
  shows "tasks_are w' T"
proof -
  have "wk_tasks (w_workers w' ! k) = wk_tasks (w_workers w ! k)" if "k < length (w_workers w)" for k
    using b that unfolding beside_def by (metis nth_map)
  moreover have "w_next w' x = w_next w x" if "x \<in> set (T k)" for x k
    using b T that is_msg_not_task unfolding beside_def tasks_are_def by blast
  moreover have "length (w_workers w') = length (w_workers w)" using b by (simp add: beside_def)
  ultimately show ?thesis
    using T queue_rep_frame [of _ "w_next w'" "w_next w"] unfolding tasks_are_def by (metis (no_types, lifting))
qed

text \<open>Taking the next task out of the worker's local queue.\<close>

lemma pop_task:
  assumes "queue_rep (w_next w) q (x # xs)" and "is_task x"
  shows "\<exists>q' w'. pop_local q w = Inr (Some x, q', w') \<and> queue_rep (w_next w') q' xs \<and> w' = w\<lparr>w_next := (w_next w)(x := NOT_IN_QUEUE)\<rparr> \<and>
     (\<forall>i s M. steady i s M w \<longrightarrow> steady i s M w') \<and> (\<forall>T. (\<forall>k. x \<notin> set (T k)) \<longrightarrow> tasks_are w T \<longrightarrow> tasks_are w' T)"
proof -
  from Pop_cons_frame [OF assms(1)] obtain q' where q: "NetQueue_Pop q (w_next w) = Inr (Some x, q', (w_next w)(x := NOT_IN_QUEUE))"
    "queue_rep ((w_next w)(x := NOT_IN_QUEUE)) q' xs" by blast
  let ?w = "w\<lparr>w_next := (w_next w)(x := NOT_IN_QUEUE)\<rparr>"
  have "same_mail w ?w" using assms(2) by (auto simp: same_mail_def)
  then have "steady i s M ?w" if "steady i s M w" for i s M
    using that assms(2) same_mail_are by (auto simp: steady_def at_rest_def)
  moreover have "tasks_are ?w T" if "\<forall>k. x \<notin> set (T k)" "tasks_are w T" for T
    using that(1) by (intro tasks_are_frame [OF that(2)]) auto
  ultimately show ?thesis using q by (intro exI [of _ q'] exI [of _ ?w]) (simp add: pop_local_def)
qed

lemma run_tasks_step:
  assumes "pop_local q w = Inr (Some (TaskItem i t), q', w1)" and "run_task E n i t w1 = Inr w2"
  shows "run_tasks E n (Suc m) k q w = run_tasks E n m k q' w2"
  using assms by simp

lemma run_tasks_end: "queue_rep (w_next w) q [] \<Longrightarrow> run_tasks E n (Suc m) k q w = Inr (False, w)"
  by (simp add: pop_local_def Pop_nil)

text \<open>The worker's queue is moved to a local variable before its tasks are run.\<close>

text \<open>A read of the worker's eventfd that would be made now returns its counter.\<close>

definition can_take :: "env \<Rightarrow> nat \<Rightarrow> world \<Rightarrow> bool" where
  "can_take E k w \<longleftrightarrow> (let f = wk_efd (w_workers w ! k) in 0 \<le> f \<longrightarrow> sr_ret (env_os E (Sys_read f 8 # w_trace w)) = 8)"

definition drained :: "world \<Rightarrow> nat \<Rightarrow> trace" where
  "drained w k = (let f = wk_efd (w_workers w ! k) in if f < 0 then [] else [Sys_read f 8])"

lemma can_take_signalled:
  assumes E: "can_signal E f" and o: "open_eventfd E f tr" and f: "f = wk_efd (w_workers w ! k)"
    and tr: "0 \<le> f \<Longrightarrow> w_trace w = Sys_write f (le_bytes 8 1) # new @ tr" and c: "Sys_close f \<notin> set new"
  shows "can_take E k w"
proof -
  have "sr_ret (env_os E (Sys_read f 8 # w_trace w)) = 8" if "0 \<le> f"
    using open_eventfdD [OF o, of "Sys_write f (le_bytes 8 1) # new"] c raised_signal [OF E] by (simp add: tr [OF that])
  then show ?thesis by (simp add: can_take_def f Let_def)
qed

lemma unsignal_law: "k < length (w_workers w) \<Longrightarrow> can_take E k w \<Longrightarrow> unsignal_worker E k w = Inr (w\<lparr>w_trace := drained w k @ w_trace w\<rparr>)"
  by (simp add: unsignal_worker_def live NetEventFd_Unsignal_def can_take_def drained_def Let_def)

definition emptied :: "nat \<Rightarrow> trace \<Rightarrow> world \<Rightarrow> world" where
  "emptied k tr w = w\<lparr>w_trace := tr, w_workers := (w_workers w)[k := (w_workers w ! k)\<lparr>wk_tasks := NetQueue_Init\<rparr>]\<rparr>"

lemma take_tasks_law:
  assumes k: "k < length (w_workers w)" and E: "can_take E k w"
  shows "take_tasks E n m k kNetPollerIn w = run_tasks E n m k (wk_tasks (w_workers w ! k)) (emptied k (drained w k @ w_trace w) w)"
  using k unsignal_law [OF k E] by (simp add: take_tasks_def get_tasks_def put_tasks_def live emptied_def)

lemma emptied_steady: "steady i s M w \<Longrightarrow> steady i s M (emptied k tr w)"
proof -
  assume a: "steady i s M w"
  have "wk_poller (w_workers (emptied k tr w) ! j) = wk_poller (w_workers w ! j)" if "j < length (w_workers w)" for j
    using that by (cases "j = k") (simp_all add: emptied_def)
  then have "pollers_ok (emptied k tr w)" using a by (simp add: steady_def pollers_ok_def emptied_def)
  moreover have "same_mail w (emptied k tr w)" by (simp add: same_mail_def emptied_def)
  ultimately show ?thesis using a same_mail_are by (auto simp: steady_def at_rest_def emptied_def device_up_def)
qed

lemma emptied_tasks:
  assumes "tasks_are w T" and "k < length (w_workers w)"
  shows "tasks_are (emptied k tr w) (T(k := []))"
  using assms by (auto simp: tasks_are_def emptied_def nth_list_update Init_rep)

lemma dial_tasks_law:
  assumes a: "steady i s M w" and T: "tasks_are w T" "T k = [TaskItem i TkConnecting, TaskItem i TkSend]" and k: "k < length (w_workers w)"
    and E: "can_take E k w"
  shows "\<exists>w' s'. take_tasks E (Suc (Suc n)) (Suc (Suc (Suc m))) k kNetPollerIn w = Inr (False, w') \<and> steady i s' M w' \<and>
     tasks_are w' (T(k := [])) \<and> synced i s' w' \<and> sockbuf.truncate s' = sockbuf.truncate s \<and> sk_state s' = sk_state s \<and>
     sk_worker s' = sk_worker s \<and> h_fd (handle_of s') = sk_s s \<and> h_events (handle_of s') = EPOLLOUT \<and>
     w_next w' (TaskItem i TkSend) = NOT_IN_QUEUE \<and> w_mem w' = w_mem w"
proof -
  let ?x = "TaskItem i TkConnecting" and ?y = "TaskItem i TkSend" and ?T = "T(k := [])"
  let ?tr = "drained w k @ w_trace w"
  have t: "take_tasks E (Suc (Suc n)) (Suc (Suc (Suc m))) k kNetPollerIn w =
      run_tasks E (Suc (Suc n)) (Suc (Suc (Suc m))) k (wk_tasks (w_workers w ! k)) (emptied k ?tr w)"
    by (rule take_tasks_law [OF k E])
  let ?w0 = "emptied k ?tr w" and ?q0 = "wk_tasks (w_workers w ! k)"
  have free: "z \<notin> set (?T j)" if "z \<in> set (T k)" for z j
    using T(1) that unfolding tasks_are_def by (cases "j = k") auto
  have q0: "queue_rep (w_next ?w0) ?q0 [?x, ?y]"
  proof -
    have "queue_rep (w_next w) ?q0 (T k)" using T(1) k by (simp add: tasks_are_def)
    then show ?thesis by (simp add: T(2) emptied_def)
  qed
  obtain q1 w1 where w1: "pop_local ?q0 ?w0 = Inr (Some ?x, q1, w1)" "queue_rep (w_next w1) q1 [?y]" "steady i s M w1" "tasks_are w1 ?T"
      "w_mem w1 = w_mem ?w0"
    using pop_task [OF q0] emptied_steady [OF a] emptied_tasks [OF T(1) k] free [of ?x] T(2) by fastforce
  obtain w2 s2 where w2: "run_task E (Suc (Suc n)) i TkConnecting w1 = Inr w2" "steady i s2 M w2" "beside i w1 w2" "synced i s2 w2"
     "sockbuf.truncate s2 = sockbuf.truncate s" "sk_state s2 = sk_state s" "sk_worker s2 = sk_worker s" "handle_of s2 = \<lparr>h_fd = sk_s s, h_events = EPOLLOUT\<rparr>"
    using connecting_task_law [OF w1(3), of E n] by blast
  have q2: "queue_rep (w_next w2) q1 [?y]" using w1(2) w2(3) queue_rep_frame [of "[?y]" "w_next w2" "w_next w1" q1] by (simp add: beside_def)
  obtain q3 w3 where w3: "pop_local q1 w2 = Inr (Some ?y, q3, w3)" "queue_rep (w_next w3) q3 []" "steady i s2 M w3" "tasks_are w3 ?T"
      "w3 = w2\<lparr>w_next := (w_next w2)(?y := NOT_IN_QUEUE)\<rparr>"
    using pop_task [OF q2] w2(2) beside_tasks [OF w2(3) w1(4)] free [of ?y] T(2) by fastforce
  have "synced i s2 w3" using w2(4) by (simp add: synced_def w3(5))
  from interest_task_law [OF w3(3) this, of TkSend E n] obtain w4 s4 where
    w4: "run_task E (Suc (Suc n)) i TkSend w3 = Inr w4" "steady i s4 M w4" "beside i w3 w4" "synced i s4 w4"
      "sockbuf.truncate s4 = sockbuf.truncate s2" "sk_state s4 = sk_state s2" "sk_worker s4 = sk_worker s2" "h_fd (handle_of s4) = h_fd (handle_of s2)"
      "h_events (handle_of s4) = h_events (handle_of s2) OR task_mask TkSend" by blast
  have "queue_rep (w_next w4) q3 []" using w3(2) by (simp add: queue_rep_def)
  from run_tasks_step [OF w1(1) w2(1)] run_tasks_step [OF w3(1) w4(1)] run_tasks_end [OF this]
  have "take_tasks E (Suc (Suc n)) (Suc (Suc (Suc m))) k kNetPollerIn w = Inr (False, w4)" by (simp only: t)
  moreover have "h_events (handle_of s4) = EPOLLOUT" by (simp add: w4(9) w2(8) task_mask_def)
  moreover have "w_next w4 ?y = NOT_IN_QUEUE" "w_mem w4 = w_mem w"
    using w4(3) w2(3) w1(5) by (simp_all add: beside_def w3(5) emptied_def)
  ultimately show ?thesis
    using w4 w2(5-8) beside_tasks [OF w4(3) w3(4)] by (intro exI [of _ w4] exI [of _ s4]) simp
qed

text \<open>The connection comes up, and the buffered messages are those of an active socket.\<close>

lemma connected_serving:
  assumes a: "steady i s M w" "sk_state s = kNetSockStateConnecting" and T: "tasks_are w T" and E: "grants E" "so_error E (sk_s s) 0"
  shows "\<exists>w' s'. run_fd E (Suc (Suc (Suc n))) i kNetPollerOut w = Inr w' \<and> serving i s' M w' \<and>
     sockbuf.truncate s' = sockbuf.truncate s \<and> tasks_are w' (queued w i TkSend (sk_worker s) T) \<and> w_mem w' = w_mem w"
proof -
  from a have r: "at_rest i s w" and w: "pollers_ok w" "device_up w" "mail_are w M" by (simp_all add: steady_def)
  obtain w' s' where w': "run_fd E (Suc (Suc (Suc n))) i kNetPollerOut w = Inr w'" "at_rest i s' w'" "sk_state s' = kNetSockStateActive"
     "sk_msgq s' = sk_msgq s" "sockbuf.truncate s' = sockbuf.truncate s" "tasks_are w' (queued w i TkSend (sk_worker s) T)" "pollers_ok w'"
     "w_dev w' = w_dev w" "\<And>j. j \<noteq> i \<Longrightarrow> w_socks w' j = w_socks w j" "w_wraps w' = w_wraps w" "w_nwraps w' = w_nwraps w" "w_mem w' = w_mem w"
     "\<And>x. \<not> is_task x \<Longrightarrow> w_next w' x = w_next w x"
    using connected_section [OF r a(2) w(1,2) T E, of n] by blast
  have "map_option sk_msgq (w_socks w' j) = map_option sk_msgq (w_socks w j)" for j
    using r w'(2,4,9) by (cases "j = i") (simp_all add: at_rest_def)
  then have "same_mail w w'" using w'(10,11,13) by (simp add: same_mail_def)
  then have "serving i s' M w'" using w' w(2) same_mail_are [OF w(3)] by (simp add: serving_def device_up_def)
  with w' show ?thesis by blast
qed

section \<open>Properties\<close>

text \<open>C15: The first message opens a connection. For a token of a machine that no socket is connected to,
  with a kernel that opens sockets and starts connections,
  SendMsg makes a socket, starts it, asks the kernel for a connection to that machine and
  names the socket by the token; the message is the only one buffered for it, and the tasks that
  watch the connection and send are queued in this order at the worker that was next in
  turn. The system calls made are, in order, the one that makes the socket's descriptor, those that set its flags,
  \<open>connect\<close> on that descriptor to that machine's address, and the two signals to the worker. The other sockets, the
  callbacks, the completion queue, the memory, the eventfds and pollers of the workers have not changed, the table of
  tokens and the set of sockets have the new socket besides what they had, and the process is ready for further messages.\<close>

theorem first_message_opens_connection:
  assumes "grants E" and "opens_sockets E" and "dials E" and "roomy M T w" and "table_ok E w" and "NetDevice_Token2Socket (m_dst m) w = None"
    and "entry_for w (u_Token2Ip (env_user E) (m_dst m)) = None"
  shows "\<exists>w' s'. NetDevice_SendMsg E (dispatch E) m w = Inr (0, w') \<and> at_rest (w_nsocks w) s' w' \<and>
     sk_state s' = kNetSockStateConnecting \<and> sk_ip s' = u_Token2Ip (env_user E) (m_dst m) \<and>
     sk_s s' = sr_ret (env_os E (socket_call # w_trace w)) \<and>
     roomy (M(w_nsocks w := [m])) (T(nat (w_cur_worker w) := T (nat (w_cur_worker w)) @
       [TaskItem (w_nsocks w) TkConnecting, TaskItem (w_nsocks w) TkSend])) w' \<and>
     w_trace w' = woken w (nat (w_cur_worker w)) @ woken w (nat (w_cur_worker w)) @
       Sys_connect (sk_s s') (u_Token2Ip (env_user E) (m_dst m)) # init_calls E (sk_s s') (socket_call # w_trace w) @ socket_call # w_trace w \<and>
     (\<forall>j. j \<noteq> w_nsocks w \<longrightarrow> w_socks w' j = w_socks w j) \<and> w_nsocks w' = Suc (w_nsocks w) \<and> w_mem w' = w_mem w \<and>
     w_dev w' = (w_dev w)\<lparr>dv_token2sock := dv_token2sock (w_dev w) @ [(m_dst m, w_nsocks w)],
                           dv_sock_sets := List.insert (w_nsocks w) (dv_sock_sets (w_dev w))\<rparr> \<and>
     (\<forall>j < kNetWorkerNum. wk_poller (w_workers w' ! j) = wk_poller (w_workers w ! j) \<and> wk_efd (w_workers w' ! j) = wk_efd (w_workers w ! j))"
proof -
  obtain w' s' where w': "NetDevice_SendMsg E (dispatch E) m w = Inr (0, w')" "at_rest (w_nsocks w) s' w'" "sk_state s' = kNetSockStateConnecting"
     "sk_ip s' = u_Token2Ip (env_user E) (m_dst m)" "sk_s s' = socket_fd E (w_trace w)"
     "roomy (M(w_nsocks w := [m])) (dial_tasks (w_nsocks w) (nat (w_cur_worker w)) T) w'"
     "\<forall>j. j \<noteq> w_nsocks w \<longrightarrow> w_socks w' j = w_socks w j" "w_mem w' = w_mem w" "w_dev w' = w_dev (routed_world E (m_dst m) w)"
     "w_nsocks w' = Suc (w_nsocks w)" "w_trace w' = woken w (nat (w_cur_worker w)) @ woken w (nat (w_cur_worker w)) @
        connect_calls E (u_Token2Ip (env_user E) (m_dst m)) (w_trace w) @ w_trace w"
     "\<forall>j < kNetWorkerNum. wk_poller (w_workers w' ! j) = wk_poller (w_workers w ! j) \<and> wk_efd (w_workers w' ! j) = wk_efd (w_workers w ! j)"
    using first_message_law [OF assms] by blast
  moreover have "w_dev (routed_world E (m_dst m) w) = (w_dev w)\<lparr>dv_token2sock := dv_token2sock (w_dev w) @ [(m_dst m, w_nsocks w)],
      dv_sock_sets := List.insert (w_nsocks w) (dv_sock_sets (w_dev w))\<rparr>" by (simp add: routed_world_def Let_def)
  moreover have "socket_fd E (w_trace w) = sr_ret (env_os E (socket_call # w_trace w))" by (simp add: socket_fd_def)
  moreover have "connect_calls E a tr = Sys_connect (socket_fd E tr) a # init_calls E (socket_fd E tr) (socket_call # tr) @ [socket_call]" for a tr
    by (simp add: connect_calls_def socket_calls_def)
  ultimately show ?thesis unfolding dial_tasks_def by (intro exI [of _ w'] exI [of _ s'] conjI) simp_all
qed

text \<open>A kernel that grants everything, starts connections and counts the wake-ups.\<close>

definition dialing_env :: env where
  "dialing_env = \<lparr>env_os = (\<lambda>tr. case tr of Sys_connect f a # _ \<Rightarrow> syserr EINPROGRESS | Sys_read f n # _ \<Rightarrow> sysret 8 | _ \<Rightarrow> kind_os tr),
     env_user = plain_user\<rparr>"

lemma dialing_env_ok: "grants dialing_env" "opens_sockets dialing_env" "dials dialing_env" "open_eventfd dialing_env f tr"
  "\<forall>f. so_error dialing_env f 0" "\<forall>f. writes_ok (env_os dialing_env) f"
  by (simp_all add: grants_def can_signal_def sets_flags_def opens_sockets_def socket_fd_def dials_def open_eventfd_def so_error_def
      writes_ok_def dialing_env_def sysret_def syserr_def le_bytes_def)

definition no_socks_world :: world where
  "no_socks_world = (ready_world (\<lambda>_. 0))\<lparr>w_socks := Map.empty\<rparr>"

lemma no_socks_ok:
  "roomy (\<lambda>_. []) (\<lambda>_. []) no_socks_world" "table_ok dialing_env no_socks_world" "NetDevice_Token2Socket t no_socks_world = None"
  "entry_for no_socks_world a = None" "w_nsocks no_socks_world = 2" "w_cur_worker no_socks_world = 0" "w_mem no_socks_world = (\<lambda>_. 0)"
proof -
  have "mail_are no_socks_world (\<lambda>_. [])"
    unfolding mail_are_def by (intro exI [of _ "\<lambda>_. []"] mail_keysI) (simp_all add: no_socks_world_def)
  moreover have "pollers_ok no_socks_world" "device_up no_socks_world" "tasks_are no_socks_world (\<lambda>_. [])"
    using ready_serving [of "\<lambda>_. 0"] ready_tasks [of "\<lambda>_. 0"] by (simp_all add: no_socks_world_def serving_def)
  moreover show n: "w_nsocks no_socks_world = 2" "w_cur_worker no_socks_world = 0" "w_mem no_socks_world = (\<lambda>_. 0)"
    by (simp_all add: no_socks_world_def ready_world_def device_set_up_def new_world_def)
  moreover have "length (w_workers no_socks_world) = kNetWorkerNum" by (simp add: no_socks_world_def ready_world_def)
  ultimately show "roomy (\<lambda>_. []) (\<lambda>_. []) no_socks_world" by (simp add: roomy_def) (simp add: no_socks_world_def)
  have "dv_token2sock (w_dev no_socks_world) = []"
    by (simp add: no_socks_world_def ready_world_def device_set_up_def new_world_def new_device_def)
  then show "table_ok dialing_env no_socks_world" "NetDevice_Token2Socket t no_socks_world = None" "entry_for no_socks_world a = None"
    by (simp_all add: table_ok_def NetDevice_Token2Socket_def entry_for_def)
qed

theorem first_message_opens_connection_witness:
  "\<exists>w' s'. NetDevice_SendMsg dialing_env (dispatch dialing_env) sample_cmd no_socks_world = Inr (0, w') \<and> at_rest 2 s' w' \<and>
     sk_state s' = kNetSockStateConnecting"
  using first_message_opens_connection [OF dialing_env_ok(1-3) no_socks_ok(1-4), of sample_cmd]
  unfolding no_socks_ok(5) by blast

text \<open>C14: The first message is sent. In a process whose next worker in turn has no tasks and an open eventfd, with a
  kernel that opens sockets and starts connections, let a message below 2 GiB be sent to a new
  machine. The worker, woken by the signal, takes the two tasks, after which the kernel polls the new
  socket's descriptor for output events; when the connection
  is up, the first output event makes the socket active and queues its send task
  again. From then on, over any number of output events nothing fails, and the bytes
  written are a prefix of the message's header and payload, in order, and all of them once nothing is left to send.\<close>

theorem first_message_is_sent:
  assumes "grants E" and "opens_sockets E" and "dials E" and "open_eventfd E (wk_efd (w_workers w ! nat (w_cur_worker w))) (w_trace w)"
    and "\<forall>f. so_error E f 0" and "\<forall>f. writes_ok (env_os E) f"
    and "roomy M T w" and "table_ok E w" and "NetDevice_Token2Socket (m_dst m) w = None"
    and "entry_for w (u_Token2Ip (env_user E) (m_dst m)) = None" and "T (nat (w_cur_worker w)) = []" and "msg_len m < 2 ^ 31"
  shows "\<exists>w1 w2 w3 s3. NetDevice_SendMsg E (dispatch E) m w = Inr (0, w1) \<and>
     take_tasks E 2 3 (nat (w_cur_worker w)) kNetPollerIn w1 = Inr (False, w2) \<and>
     interest (p_ep (wk_poller (w_workers w2 ! nat (w_cur_worker w)))) (w_trace w2) (sk_s s3) = Some (HSock (w_nsocks w), EPOLLOUT) \<and>
     run_fd E 3 (w_nsocks w) kNetPollerOut w2 = Inr w3 \<and> serving (w_nsocks w) s3 (M(w_nsocks w := [m])) w3 \<and>
     tasks_are w3 (T(nat (w_cur_worker w) := [TaskItem (w_nsocks w) TkSend])) \<and>
     (\<forall>n. \<exists>w4 s4 ms j. out_events E (w_nsocks w) n w3 = Inr w4 \<and> serving (w_nsocks w) s4 (M(w_nsocks w := ms)) w4 \<and>
        accepted (env_os E) (sk_s s3) (w_trace w4) = accepted (env_os E) (sk_s s3) (w_trace w3) @ take j (wire (w_mem w) m) \<and>
        (ms = [] \<and> \<not> sk_busy s4 \<longrightarrow> take j (wire (w_mem w) m) = wire (w_mem w) m))"
proof -
  let ?i = "w_nsocks w" and ?k = "nat (w_cur_worker w)" and ?a = "u_Token2Ip (env_user E) (m_dst m)"
  note T0 = assms(11)
  obtain w1 s1 where w1: "NetDevice_SendMsg E (dispatch E) m w = Inr (0, w1)" "at_rest ?i s1 w1" "sk_state s1 = kNetSockStateConnecting"
     "sk_worker s1 = ?k" "sockbuf.truncate s1 = fresh_sock (sk_s s1)" "roomy (M(?i := [m])) (dial_tasks ?i ?k T) w1" "w_mem w1 = w_mem w"
     "w_trace w1 = woken w ?k @ woken w ?k @ connect_calls E ?a (w_trace w) @ w_trace w"
     "\<And>j. j < kNetWorkerNum \<Longrightarrow> wk_efd (w_workers w1 ! j) = wk_efd (w_workers w ! j)"
    using first_message_law [OF assms(1-3,7-10)] by blast
  from w1(2,6) have a: "steady ?i s1 (M(?i := [m])) w1" "tasks_are w1 (dial_tasks ?i ?k T)" "?k < length (w_workers w1)" "?k < kNetWorkerNum"
    using w1(4) by (auto simp: roomy_def steady_def at_rest_def)
  have take: "can_take E ?k w1"
  proof (rule can_take_signalled [OF _ assms(4), of w1 ?k "woken w ?k @ connect_calls E ?a (w_trace w)"])
    show "can_signal E (wk_efd (w_workers w ! ?k))" using assms(1) by (simp add: grants_def)
    show "wk_efd (w_workers w ! ?k) = wk_efd (w_workers w1 ! ?k)" using w1(9) [OF a(4)] by simp
    show "Sys_close (wk_efd (w_workers w ! ?k)) \<notin> set (woken w ?k @ connect_calls E ?a (w_trace w))"
      using socket_calls_open by (simp add: woken_def connect_calls_def Let_def)
  qed (simp add: w1(8) woken_def Let_def)
  have "dial_tasks ?i ?k T ?k = [TaskItem ?i TkConnecting, TaskItem ?i TkSend]" using T0 by (simp add: dial_tasks_def)
  from dial_tasks_law [OF a(1,2) this a(3) take, of 0 0] obtain w2 s2 where
    w2: "take_tasks E 2 3 ?k kNetPollerIn w1 = Inr (False, w2)" "steady ?i s2 (M(?i := [m])) w2" "tasks_are w2 ((dial_tasks ?i ?k T)(?k := []))"
      "sockbuf.truncate s2 = sockbuf.truncate s1" "sk_state s2 = sk_state s1" "sk_worker s2 = sk_worker s1"
      "w_next w2 (TaskItem ?i TkSend) = NOT_IN_QUEUE" "w_mem w2 = w_mem w1"
      "synced ?i s2 w2" "h_fd (handle_of s2) = sk_s s1" "h_events (handle_of s2) = EPOLLOUT"
    unfolding numeral_2_eq_2 numeral_3_eq_3 by blast
  have watched: "interest (p_ep (wk_poller (w_workers w2 ! ?k))) (w_trace w2) (sk_s s1) = Some (HSock ?i, EPOLLOUT)"
    using w2(6,9-11) w1(4) by (simp add: synced_def in_sync_def)
  have st2: "sk_state s2 = kNetSockStateConnecting" using w2(5) w1(3) by simp
  obtain w3 s3 where w3: "run_fd E 3 ?i kNetPollerOut w2 = Inr w3" "serving ?i s3 (M(?i := [m])) w3" "sockbuf.truncate s3 = sockbuf.truncate s2"
     "tasks_are w3 (queued w2 ?i TkSend (sk_worker s2) ((dial_tasks ?i ?k T)(?k := [])))" "w_mem w3 = w_mem w2"
    using connected_serving [OF w2(2) st2 w2(3) assms(1), of 0] assms(5) unfolding numeral_3_eq_3 by blast
  have "queued w2 ?i TkSend (sk_worker s2) ((dial_tasks ?i ?k T)(?k := [])) = T(?k := [TaskItem ?i TkSend])"
    using w2(6,7) w1(4) by (auto simp: queued_def appended_def dial_tasks_def)
  with w3(4) have tasks: "tasks_are w3 (T(?k := [TaskItem ?i TkSend]))" by simp
  have buf: "sockbuf.truncate s3 = fresh_sock (sk_s s1)" using w1(5) w2(4) w3(3) by simp
  have idle: "\<not> sk_busy s3" "length (sk_out_buf s3) = 128"
    using arg_cong [OF buf, of sk_busy] arg_cong [OF buf, of sk_out_buf] by simp_all
  have mem: "w_mem w3 = w_mem w" using w1(7) w2(8) w3(5) by simp
  have "\<exists>w4 s4 ms j. out_events E ?i n w3 = Inr w4 \<and> serving ?i s4 (M(?i := ms)) w4 \<and>
        accepted (env_os E) (sk_s s3) (w_trace w4) = accepted (env_os E) (sk_s s3) (w_trace w3) @ take j (wire (w_mem w) m) \<and>
        (ms = [] \<and> \<not> sk_busy s4 \<longrightarrow> take j (wire (w_mem w) m) = wire (w_mem w) m)" for n
  proof -
    have "writes_ok (env_os E) (sk_s s3)" using assms(6) by blast
    moreover have "to_send (w_mem w3) ((M(?i := [m])) ?i) (sockbuf.truncate s3) (wire (w_mem w) m)"
      using idle assms(12) by (simp add: to_send_def mem)
    ultimately obtain w4 s4 ms j where "out_events E ?i n w3 = Inr w4" "serving ?i s4 ((M(?i := [m]))(?i := ms)) w4"
      "accepted (env_os E) (sk_s s3) (w_trace w4) = accepted (env_os E) (sk_s s3) (w_trace w3) @ take j (wire (w_mem w) m)"
      "to_send (w_mem w3) ms (sockbuf.truncate s4) (drop j (wire (w_mem w) m))"
      using out_events_law [OF w3(2), of "wire (w_mem w) m" E n] by blast
    then show ?thesis unfolding fun_upd_upd by (intro exI [of _ w4] exI [of _ s4] exI [of _ ms] exI [of _ j]) (auto simp: to_send_def)
  qed
  moreover have "sk_s s3 = sk_s s1" using arg_cong [OF buf, of sk_s] by (simp add: fresh_sock_def)
  ultimately show ?thesis using w1(1) w2(1) w3(1,2) tasks watched by (intro exI [of _ w1] exI [of _ w2] exI [of _ w3] exI [of _ s3]) simp
qed

theorem first_message_is_sent_witness:
  "\<exists>w1 w2 w3 w4 j. NetDevice_SendMsg dialing_env (dispatch dialing_env) sample_cmd no_socks_world = Inr (0, w1) \<and>
     take_tasks dialing_env 2 3 0 kNetPollerIn w1 = Inr (False, w2) \<and> run_fd dialing_env 3 2 kNetPollerOut w2 = Inr w3 \<and>
     out_events dialing_env 2 5 w3 = Inr w4"
  using first_message_is_sent [OF dialing_env_ok no_socks_ok(1-4), of sample_cmd] sample_len(1)
  unfolding no_socks_ok(5,6) by simp blast

end
