(* ===== verification/Netstop.thy ===== *)
theory Netstop
  imports Netconnect
begin

text \<open>
  How the workers end. The stop item is queued behind the tasks of a worker; the routine
  that pops it throws away what is queued behind it and returns. \<open>NetPool::Terminate\<close> does this to
  one worker after the other and closes what each of them had open. The last property ties the
  passes of the loop to the small steps of the threads.
\<close>

section \<open>The stop item\<close>

definition unlink :: "qitem set \<Rightarrow> qitem links \<Rightarrow> qitem links" where
  "unlink X nx = (\<lambda>x. if x \<in> X then NOT_IN_QUEUE else nx x)"

lemma unlink_step: "unlink X (nx(x := NOT_IN_QUEUE)) = unlink (insert x X) nx"
  by (auto simp: unlink_def)

lemma unlink_empty [simp]: "unlink {} nx = nx"
  by (simp add: unlink_def)

lemma discard_law:
  "queue_rep (w_next w) q ys \<Longrightarrow> length ys < m \<Longrightarrow> discard_tasks m q w = Inr (w\<lparr>w_next := unlink (set ys) (w_next w)\<rparr>)"
proof (induction ys arbitrary: m q w)
  case Nil
  then obtain m' where "m = Suc m'" by (cases m) auto
  with Nil show ?case by (simp add: pop_local_def Pop_nil)
next
  case (Cons y ys)
  then obtain m' where m: "m = Suc m'" "length ys < m'" by (cases m) auto
  let ?w = "w\<lparr>w_next := (w_next w)(y := NOT_IN_QUEUE)\<rparr>"
  from Pop_cons_frame [OF Cons.prems(1)] obtain q' where
    q: "NetQueue_Pop q (w_next w) = Inr (Some y, q', (w_next w)(y := NOT_IN_QUEUE))" "queue_rep (w_next ?w) q' ys" by auto
  from Cons.IH [OF q(2) m(2)] show ?case
    by (simp add: m(1) pop_local_def q(1) unlink_step del: fun_upd_apply)
qed

lemma stop_law:
  assumes "queue_rep (w_next w) q (StopItem k # ys)" and "Suc (length ys) < m"
  shows "run_tasks E n m k q w = Inr (True, w\<lparr>w_next := unlink (insert (StopItem k) (set ys)) (w_next w)\<rparr>)"
proof -
  obtain m' where m: "m = Suc m'" "length ys < m'" using assms(2) by (cases m) auto
  let ?w = "w\<lparr>w_next := (w_next w)(StopItem k := NOT_IN_QUEUE)\<rparr>"
  from Pop_cons_frame [OF assms(1)] obtain q' where
    q: "NetQueue_Pop q (w_next w) = Inr (Some (StopItem k), q', (w_next w)(StopItem k := NOT_IN_QUEUE))" "queue_rep (w_next ?w) q' ys" by auto
  show ?thesis by (simp add: m(1) pop_local_def q(1) discard_law [OF q(2) m(2)] unlink_step)
qed

text \<open>The state in which a worker's queue has been taken and thrown away.\<close>

definition discarded :: "nat \<Rightarrow> qitem list \<Rightarrow> trace \<Rightarrow> world \<Rightarrow> world" where
  "discarded k ys tr w = (emptied k tr w)\<lparr>w_next := unlink (set ys) (w_next w)\<rparr>"

lemma take_stop:
  assumes "k < length (w_workers w)" and "can_take E k w" and "queue_rep (w_next w) (wk_tasks (w_workers w ! k)) (StopItem k # ys)"
    and "Suc (length ys) < m"
  shows "take_tasks E n m k kNetPollerIn w = Inr (True, discarded k (StopItem k # ys) (drained w k @ w_trace w) w)"
proof -
  have "queue_rep (w_next (emptied k tr w)) (wk_tasks (w_workers w ! k)) (StopItem k # ys)" for tr
    using assms(3) by (simp add: emptied_def)
  from stop_law [OF this assms(4)] show ?thesis
    unfolding take_tasks_law [OF assms(1,2)] by (simp add: discarded_def emptied_def)
qed

lemma discarded_tasks:
  assumes T: "tasks_are w T" and k: "k < length (w_workers w)"
  shows "tasks_are (discarded k (T k) tr w) (T(k := []))"
proof -
  have "x \<notin> set (T k)" if "x \<in> set ((T(k := [])) j)" for x j
    using T that by (cases "j = k") (auto simp: tasks_are_def)
  then show ?thesis unfolding discarded_def
    by (intro tasks_are_frame [OF emptied_tasks [OF T k]]) (auto simp: unlink_def emptied_def)
qed

section \<open>A worker that is woken\<close>

text \<open>A wait on the poller of worker \<open>k\<close> that would be made now returns with the worker's eventfd and nothing else.\<close>

definition is_woken :: "env \<Rightarrow> nat \<Rightarrow> world \<Rightarrow> bool" where
  "is_woken E k w \<longleftrightarrow>
     (let r = env_os E (Sys_epoll_wait (p_ep (wk_poller (w_workers w ! k))) kNetPollerMaxEvents (- 1) # w_trace w)
      in sr_ret r = 1 \<and> sr_events r = [(HEfd k, EPOLLIN)])"

text \<open>Worker \<open>k\<close> with another poller and queue, after more system calls.\<close>

definition with_worker :: "nat \<Rightarrow> npoller \<Rightarrow> qitem netqueue \<Rightarrow> trace \<Rightarrow> world \<Rightarrow> world" where
  "with_worker k p q tr w = w\<lparr>w_workers := (w_workers w)[k := (w_workers w ! k)\<lparr>wk_poller := p, wk_tasks := q\<rparr>], w_trace := tr\<rparr>"

definition waited :: "world \<Rightarrow> nat \<Rightarrow> syscall" where
  "waited w k = Sys_epoll_wait (p_ep (wk_poller (w_workers w ! k))) kNetPollerMaxEvents (- 1)"

lemma wait_law:
  assumes "sr_ret (env_os E (Sys_epoll_wait (p_ep p) 32 (- 1) # tr)) = 1" and "sr_events (env_os E (Sys_epoll_wait (p_ep p) 32 (- 1) # tr)) = [(HEfd k, EPOLLIN)]"
  shows "NetPoller_Wait (env_os E) (- 1) p tr =
     Inr (0, p\<lparr>p_nevents := 1, p_index := 0, p_events := (HEfd k, EPOLLIN) # drop 1 (p_events p)\<rparr>, Sys_epoll_wait (p_ep p) 32 (- 1) # tr)"
  using assms by (simp add: NetPoller_Wait_def wait_loop.simps fill_events_def Let_def)

lemma first_event:
  assumes "length (p_events p) = 32" and "p_nevents p = 1" and "p_index p = 0" and "p_events p ! 0 = (x, EPOLLIN)"
  shows "NetPoller_Event p = Inr (0, Some (kNetPollerIn, x), set_mask (\<lambda>e. e AND NOT EPOLLIN) 0 p)"
  using assms by (simp add: NetPoller_Event_def skip_handled.simps [of p] in_bounds_def)

text \<open>The wait and the first event of such a worker, and its pass up to the tasks it takes.\<close>

lemma worker_wakes:
  assumes k: "k < length (w_workers w)" "length (p_events (wk_poller (w_workers w ! k))) = 32" and E: "is_woken E k w"
  shows "\<exists>w1 p. worker_wait E k w = Inr w1 \<and>
     poller_event k w1 = Inr (0, Some (kNetPollerIn, HEfd k), with_worker k p (wk_tasks (w_workers w ! k)) (waited w k # w_trace w) w) \<and>
     p_ep p = p_ep (wk_poller (w_workers w ! k)) \<and> length (p_events p) = 32"
proof -
  let ?wk = "w_workers w ! k" and ?tr = "waited w k # w_trace w"
  let ?p = "(wk_poller ?wk)\<lparr>p_nevents := 1, p_index := 0, p_events := (HEfd k, EPOLLIN) # drop 1 (p_events (wk_poller ?wk))\<rparr>"
  let ?p1 = "set_mask (\<lambda>e. e AND NOT EPOLLIN) 0 ?p"
  have "worker_wait E k w = Inr (with_worker k ?p (wk_tasks ?wk) ?tr w)"
    using k E wait_law [of E "wk_poller ?wk" "w_trace w" k]
    by (simp add: worker_wait_def live put_poller_def with_worker_def is_woken_def waited_def Let_def)
  moreover have "NetPoller_Event ?p = Inr (0, Some (kNetPollerIn, HEfd k), ?p1)"
    using k by (intro first_event) simp_all
  then have "poller_event k (with_worker k ?p (wk_tasks ?wk) ?tr w) =
      Inr (0, Some (kNetPollerIn, HEfd k), with_worker k ?p1 (wk_tasks ?wk) ?tr w)"
    using k by (simp add: poller_event_def live put_poller_def with_worker_def)
  moreover have "p_ep ?p1 = p_ep (wk_poller ?wk) \<and> length (p_events ?p1) = 32" using k by (simp add: set_mask_def)
  ultimately show ?thesis by blast
qed

text \<open>A pass of a worker whose queue starts with its stop item.\<close>

lemma pass_stops:
  assumes k: "k < length (w_workers w)" "length (p_events (wk_poller (w_workers w ! k))) = 32" and E: "is_woken E k w"
    and r: "can_take E k (w\<lparr>w_trace := waited w k # w_trace w\<rparr>)"
    and q: "queue_rep (w_next w) (wk_tasks (w_workers w ! k)) (StopItem k # ys)" "Suc (length ys) < m"
  shows "\<exists>p. NetWorkerRoutine_pass E n (Suc m) k w =
       Inr (True, (with_worker k p NetQueue_Init (drained w k @ waited w k # w_trace w) w)\<lparr>w_next := unlink (insert (StopItem k) (set ys)) (w_next w)\<rparr>) \<and>
     p_ep p = p_ep (wk_poller (w_workers w ! k))"
proof -
  obtain w1 p where w1: "worker_wait E k w = Inr w1"
    "poller_event k w1 = Inr (0, Some (kNetPollerIn, HEfd k), with_worker k p (wk_tasks (w_workers w ! k)) (waited w k # w_trace w) w)"
    "p_ep p = p_ep (wk_poller (w_workers w ! k))" using worker_wakes [OF k E] by blast
  let ?w = "with_worker k p (wk_tasks (w_workers w ! k)) (waited w k # w_trace w) w"
  have w: "k < length (w_workers ?w)" "can_take E k ?w" "queue_rep (w_next ?w) (wk_tasks (w_workers ?w ! k)) (StopItem k # ys)"
    "drained ?w k = drained w k"
    using k(1) q(1) r by (simp_all add: with_worker_def can_take_def drained_def)
  have "NetWorkerRoutine_pass E n (Suc m) k w = Inr (True, discarded k (StopItem k # ys) (drained w k @ waited w k # w_trace w) ?w)"
    using w1 take_stop [OF w(1-3) q(2), of n] w(4) by (simp add: NetWorkerRoutine_pass_def with_worker_def)
  moreover have "discarded k (StopItem k # ys) tr ?w = (with_worker k p NetQueue_Init tr w)\<lparr>w_next := unlink (insert (StopItem k) (set ys)) (w_next w)\<rparr>" for tr
    using k(1) by (simp add: discarded_def emptied_def with_worker_def)
  ultimately show ?thesis using w1(3) by auto
qed

section \<open>Idle workers\<close>

text \<open>
  What the manual page says of a poller that holds the worker's eventfd, while the sockets are quiet. As long as no other calls are
  made than writes, reads, waits and closes, and neither of the two descriptors is closed, a wait made while the
  counter of the eventfd is not zero returns with the eventfd and nothing else. Nothing is said of a wait while the counter is zero: it blocks.
\<close>

fun worker_call :: "syscall \<Rightarrow> bool" where
  "worker_call (Sys_write f bs) = True"
| "worker_call (Sys_read f n) = True"
| "worker_call (Sys_close f) = True"
| "worker_call (Sys_epoll_wait ep n t) = True"
| "worker_call _ = False"

definition reports_eventfd :: "env \<Rightarrow> nat \<Rightarrow> fd \<Rightarrow> fd \<Rightarrow> trace \<Rightarrow> bool" where
  "reports_eventfd E k ep f tr \<longleftrightarrow>
     (\<forall>new. (\<forall>c \<in> set new. worker_call c) \<longrightarrow> Sys_close f \<notin> set new \<longrightarrow> Sys_close ep \<notin> set new \<longrightarrow>
        interest ep (new @ tr) f = Some (HEfd k, EPOLLIN) \<longrightarrow> raised (env_os E) f (new @ tr) \<longrightarrow>
        sr_ret (env_os E (Sys_epoll_wait ep kNetPollerMaxEvents (- 1) # new @ tr)) = 1 \<and>
        sr_events (env_os E (Sys_epoll_wait ep kNetPollerMaxEvents (- 1) # new @ tr)) = [(HEfd k, EPOLLIN)])"

text \<open>A worker without tasks that waits: its poller holds its open eventfd.\<close>

definition idle_worker :: "env \<Rightarrow> nat \<Rightarrow> world \<Rightarrow> bool" where
  "idle_worker E k w \<longleftrightarrow>
     (let wk = w_workers w ! k; f = wk_efd wk; ep = p_ep (wk_poller wk) in
      k < length (w_workers w) \<and> wk_tasks wk = NetQueue_Init \<and> w_next w (StopItem k) = NOT_IN_QUEUE \<and>
      length (p_events (wk_poller wk)) = 32 \<and> 0 \<le> f \<and> 0 \<le> ep \<and> interest ep (w_trace w) f = Some (HEfd k, EPOLLIN) \<and>
      open_eventfd E f (w_trace w) \<and> reports_eventfd E k ep f (w_trace w))"

text \<open>The descriptors of the workers in \<open>K\<close> are different ones.\<close>

definition apart :: "nat set \<Rightarrow> world \<Rightarrow> bool" where
  "apart K w \<longleftrightarrow> (\<forall>j \<in> K. \<forall>k \<in> K. let a = w_workers w ! j; b = w_workers w ! k in
     wk_efd a \<noteq> p_ep (wk_poller b) \<and> (j \<noteq> k \<longrightarrow> wk_efd a \<noteq> wk_efd b \<and> p_ep (wk_poller a) \<noteq> p_ep (wk_poller b)))"

lemma interest_calls: "(\<forall>c \<in> set new. worker_call c) \<Longrightarrow> interest ep (new @ tr) f = interest ep tr f"
  by (induction new) (simp, case_tac a, simp_all)

lemma reports_eventfd_later:
  assumes "reports_eventfd E k ep f tr" and "\<forall>c \<in> set new. worker_call c" and "Sys_close f \<notin> set new" and "Sys_close ep \<notin> set new"
  shows "reports_eventfd E k ep f (new @ tr)"
  unfolding reports_eventfd_def
proof (intro allI impI)
  fix us
  assume "\<forall>c \<in> set us. worker_call c" "Sys_close f \<notin> set us" "Sys_close ep \<notin> set us"
    "interest ep (us @ new @ tr) f = Some (HEfd k, EPOLLIN)" "raised (env_os E) f (us @ new @ tr)"
  with assms spec [OF assms(1) [unfolded reports_eventfd_def], of "us @ new"]
  show "sr_ret (env_os E (Sys_epoll_wait ep kNetPollerMaxEvents (- 1) # us @ new @ tr)) = 1 \<and>
    sr_events (env_os E (Sys_epoll_wait ep kNetPollerMaxEvents (- 1) # us @ new @ tr)) = [(HEfd k, EPOLLIN)]" by auto
qed

section \<open>Terminating the workers\<close>

lemma CloseFd_law: "closes E \<Longrightarrow> NetCloseFd (env_os E) f tr = Inr (if f < 0 then tr else Sys_close f # tr)"
  by (simp add: NetCloseFd_def closes_def)

text \<open>
  From \<open>w\<close> to \<open>w'\<close> only workers have changed, those of \<open>K\<close> have been
  terminated, and the others are what they were but for the events their pollers have reported.
\<close>

definition terminated :: "nat \<Rightarrow> world \<Rightarrow> world \<Rightarrow> bool" where
  "terminated k w w' \<longleftrightarrow>
     wk_efd (w_workers w' ! k) = - 1 \<and> wk_tasks (w_workers w' ! k) = NetQueue_Init \<and>
     (\<forall>f \<in> {wk_efd (w_workers w ! k), p_ep (wk_poller (w_workers w ! k))}. 0 \<le> f \<longrightarrow> Sys_close f \<in> set (w_trace w'))"

definition alike :: "networker \<Rightarrow> networker \<Rightarrow> bool" where
  "alike a b \<longleftrightarrow> wk_tasks a = wk_tasks b \<and> wk_efd a = wk_efd b \<and> p_ep (wk_poller a) = p_ep (wk_poller b) \<and>
     length (p_events (wk_poller a)) = length (p_events (wk_poller b))"

lemma alike_refl [simp]: "alike a a"
  by (simp add: alike_def)

lemma alike_trans: "alike a b \<Longrightarrow> alike b c \<Longrightarrow> alike a c"
  by (simp add: alike_def)

definition workers_only :: "nat set \<Rightarrow> world \<Rightarrow> world \<Rightarrow> bool" where
  "workers_only K w w' \<longleftrightarrow>
     w_next w' = w_next w \<and> w_socks w' = w_socks w \<and> w_nsocks w' = w_nsocks w \<and> w_wraps w' = w_wraps w \<and> w_nwraps w' = w_nwraps w \<and>
     w_cur_worker w' = w_cur_worker w \<and> w_dev w' = w_dev w \<and> w_mem w' = w_mem w \<and> w_log w' = w_log w \<and>
     length (w_workers w') = length (w_workers w) \<and> set (w_trace w) \<subseteq> set (w_trace w') \<and>
     (\<forall>j < length (w_workers w). j \<notin> K \<longrightarrow> alike (w_workers w' ! j) (w_workers w ! j))"

lemma workers_only_refl [simp]: "workers_only K w w"
  by (simp add: workers_only_def)

lemma workers_only_trans:
  assumes a: "workers_only K u v" and b: "workers_only L v w"
  shows "workers_only (K \<union> L) u w"
proof -
  have "alike (w_workers w ! j) (w_workers u ! j)" if "j < length (w_workers u)" "j \<notin> K \<union> L" for j
    using that a b alike_trans unfolding workers_only_def by (metis UnCI)
  then show ?thesis using a b by (auto simp: workers_only_def)
qed

text \<open>The calls made in the termination of a worker, newest first.\<close>

definition stop_calls :: "networker \<Rightarrow> trace" where
  "stop_calls wk =
     (let f = wk_efd wk; ep = p_ep (wk_poller wk)
      in [Sys_close f, Sys_close ep, Sys_read f 8, Sys_epoll_wait ep kNetPollerMaxEvents (- 1), Sys_write f (le_bytes 8 1)])"

lemma stop_calls_alike: "alike a b \<Longrightarrow> stop_calls a = stop_calls b"
  by (simp add: alike_def stop_calls_def)

lemma idle_later:
  assumes i: "idle_worker E j w" and w': "workers_only {k} w w'" "w_trace w' = stop_calls (w_workers w ! k) @ w_trace w"
    and k: "k \<noteq> j" and d: "apart K w" "j \<in> K" "k \<in> K"
  shows "idle_worker E j w'"
proof -
  let ?j = "w_workers w ! j" and ?k = "w_workers w ! k"
  have j: "j < length (w_workers w)" using i by (simp add: idle_worker_def Let_def)
  have "wk_efd ?j \<noteq> wk_efd ?k" "p_ep (wk_poller ?j) \<noteq> p_ep (wk_poller ?k)" "wk_efd ?j \<noteq> p_ep (wk_poller ?k)" "wk_efd ?k \<noteq> p_ep (wk_poller ?j)"
    using d k unfolding apart_def Let_def by metis+
  then have new: "\<forall>c \<in> set (stop_calls ?k). worker_call c" "Sys_close (wk_efd ?j) \<notin> set (stop_calls ?k)"
    "Sys_close (p_ep (wk_poller ?j)) \<notin> set (stop_calls ?k)" by (auto simp: stop_calls_def Let_def)
  have a: "alike (w_workers w' ! j) ?j" "length (w_workers w') = length (w_workers w)" "w_next w' = w_next w"
    using w'(1) j k by (simp_all add: workers_only_def)
  show ?thesis using i open_eventfd_later [OF _ new(2)] reports_eventfd_later [OF _ new] a
    unfolding idle_worker_def Let_def w'(2) interest_calls [OF new(1)] by (simp add: alike_def)
qed

lemma request_law:
  assumes w: "idle_worker E k w" and E: "grants E"
  shows "\<exists>nx q. NetWorker_Terminate_request E k w =
       Inr (w\<lparr>w_next := nx, w_workers := (w_workers w)[k := (w_workers w ! k)\<lparr>wk_tasks := q\<rparr>], w_trace := Sys_write (wk_efd (w_workers w ! k)) (le_bytes 8 1) # w_trace w\<rparr>) \<and>
     queue_rep nx q [StopItem k] \<and> unlink {StopItem k} nx = w_next w"
proof -
  note i = w [unfolded idle_worker_def Let_def]
  from i have "queue_rep (w_next w) (wk_tasks (w_workers w ! k)) []" using Init_rep by metis
  from pushed_ex [OF this] obtain q nx where p: "pushed (w_next w) (wk_tasks (w_workers w ! k)) [] (StopItem k) nx q" by blast
  have rep: "queue_rep nx q [StopItem k]" using pushed_rep [OF p] i by (simp add: appended_def)
  have nx: "unlink {StopItem k} nx = w_next w" using p i by (auto simp: pushed_def unlink_def)
  let ?w = "w\<lparr>w_next := nx, w_workers := (w_workers w)[k := (w_workers w ! k)\<lparr>wk_tasks := q\<rparr>]\<rparr>"
  have "push_on (StopItem k) (get_tasks k) (put_tasks k) w = Inr ?w"
    using push_on_law [OF _ p, of "get_tasks k" "put_tasks k"] i by (simp add: get_tasks_def put_tasks_def live)
  moreover have "NetEventFd_Signal (env_os E) (wk_efd (w_workers w ! k)) (w_trace w) =
      Inr (Sys_write (wk_efd (w_workers w ! k)) (le_bytes 8 1) # w_trace w)" using E i by (intro Signal_law) (simp_all add: grants_def)
  ultimately show ?thesis using rep nx i
    by (intro exI [of _ nx] exI [of _ q]) (simp add: NetWorker_Terminate_request_def signal_worker_def live)
qed

lemma cleanup_law:
  assumes "k < length (w_workers w)" and "closes E" and "w_next w (StopItem k) = NOT_IN_QUEUE"
    and "0 \<le> wk_efd (w_workers w ! k)" and "0 \<le> p_ep (wk_poller (w_workers w ! k))"
  shows "\<exists>w'. NetWorker_Terminate_cleanup E k w = Inr w' \<and> workers_only {k} w w' \<and> terminated k w w' \<and>
     w_trace w' = Sys_close (wk_efd (w_workers w ! k)) # Sys_close (p_ep (wk_poller (w_workers w ! k))) # w_trace w"
  using assms
  by (auto simp: NetWorker_Terminate_cleanup_def live NetPoller_Terminate_def NetEventFd_Terminate_def CloseFd_law NetQueueItem_Terminate_def
      NetQueue_Terminate_def NetQueue_Init_def workers_only_def terminated_def)

text \<open>The pass that the request lets the worker make.\<close>

lemma requested_pass:
  assumes w: "idle_worker E k w" and d: "wk_efd (w_workers w ! k) \<noteq> p_ep (wk_poller (w_workers w ! k))" and E: "grants E"
  shows "\<exists>w1 w2. NetWorker_Terminate_request E k w = Inr w1 \<and> NetWorkerRoutine_pass E n (Suc (Suc (Suc m))) k w1 = Inr (True, w2) \<and>
     workers_only {k} w w2 \<and> w_next w2 = w_next w \<and> k < length (w_workers w2) \<and>
     wk_efd (w_workers w2 ! k) = wk_efd (w_workers w ! k) \<and> p_ep (wk_poller (w_workers w2 ! k)) = p_ep (wk_poller (w_workers w ! k)) \<and>
     Sys_close (wk_efd (w_workers w ! k)) # Sys_close (p_ep (wk_poller (w_workers w ! k))) # w_trace w2 = stop_calls (w_workers w ! k) @ w_trace w"
proof -
  note i = w [unfolded idle_worker_def Let_def]
  let ?f = "wk_efd (w_workers w ! k)" and ?ep = "p_ep (wk_poller (w_workers w ! k))"
  let ?tr1 = "Sys_write ?f (le_bytes 8 1) # w_trace w" and ?call = "Sys_epoll_wait ?ep kNetPollerMaxEvents (- 1)"
  obtain nx q where r: "queue_rep nx q [StopItem k]" "unlink {StopItem k} nx = w_next w" "NetWorker_Terminate_request E k w =
       Inr (w\<lparr>w_next := nx, w_workers := (w_workers w)[k := (w_workers w ! k)\<lparr>wk_tasks := q\<rparr>], w_trace := ?tr1\<rparr>)"
    using request_law [OF w E] by blast
  let ?w1 = "w\<lparr>w_next := nx, w_workers := (w_workers w)[k := (w_workers w ! k)\<lparr>wk_tasks := q\<rparr>], w_trace := ?tr1\<rparr>"
  have up: "raised (env_os E) ?f ?tr1" using E by (intro raised_signal) (simp add: grants_def)
  have k: "k < length (w_workers ?w1)" "length (p_events (wk_poller (w_workers ?w1 ! k))) = 32"
    "queue_rep (w_next ?w1) (wk_tasks (w_workers ?w1 ! k)) [StopItem k]" "waited ?w1 k = ?call" "drained ?w1 k = [Sys_read ?f 8]"
    using i r(1) by (simp_all add: waited_def drained_def)
  from i have "reports_eventfd E k ?ep ?f (w_trace w)" and "interest ?ep (w_trace w) ?f = Some (HEfd k, EPOLLIN)" by simp_all
  from spec [OF this(1) [unfolded reports_eventfd_def], of "[Sys_write ?f (le_bytes 8 1)]"] this(2) up
  have "sr_ret (env_os E (?call # ?tr1)) = 1 \<and> sr_events (env_os E (?call # ?tr1)) = [(HEfd k, EPOLLIN)]" by auto
  then have "is_woken E k ?w1" using i by (simp add: is_woken_def)
  moreover have "sr_ret (env_os E (Sys_read ?f 8 # ?call # ?tr1)) = 8"
    using open_eventfdD [of E ?f "w_trace w" "[?call, Sys_write ?f (le_bytes 8 1)]"] i up by simp
  then have "can_take E k (?w1\<lparr>w_trace := waited ?w1 k # w_trace ?w1\<rparr>)" using i by (simp add: can_take_def waited_def)
  ultimately obtain p where p: "NetWorkerRoutine_pass E n (Suc (Suc (Suc m))) k ?w1 =
       Inr (True, (with_worker k p NetQueue_Init (Sys_read ?f 8 # ?call # ?tr1) ?w1)\<lparr>w_next := w_next w\<rparr>)" "p_ep p = ?ep"
    using pass_stops [OF k(1,2) _ _ k(3), of E "Suc (Suc m)" n] r(2) i k(4,5) by auto
  let ?w2 = "(with_worker k p NetQueue_Init (Sys_read ?f 8 # ?call # ?tr1) ?w1)\<lparr>w_next := w_next w\<rparr>"
  have "workers_only {k} w ?w2 \<and> w_next ?w2 = w_next w \<and> k < length (w_workers ?w2) \<and>
      wk_efd (w_workers ?w2 ! k) = ?f \<and> p_ep (wk_poller (w_workers ?w2 ! k)) = ?ep \<and>
      Sys_close ?f # Sys_close ?ep # w_trace ?w2 = stop_calls (w_workers w ! k) @ w_trace w"
    using i p(2) by (auto simp: workers_only_def with_worker_def stop_calls_def Let_def)
  with r(3) p(1) show ?thesis by blast
qed

lemma Terminate_law:
  assumes w: "idle_worker E k w" and d: "wk_efd (w_workers w ! k) \<noteq> p_ep (wk_poller (w_workers w ! k))" and E: "grants E" "closes E"
  shows "\<exists>w'. NetWorker_Terminate E n (Suc (Suc (Suc m))) k (k # ls) w = Inr (ls, w') \<and> workers_only {k} w w' \<and> terminated k w w' \<and>
     w_trace w' = stop_calls (w_workers w ! k) @ w_trace w"
proof -
  from requested_pass [OF w d E(1), of n m] obtain w1 w2 where
    p: "NetWorker_Terminate_request E k w = Inr w1" "NetWorkerRoutine_pass E n (Suc (Suc (Suc m))) k w1 = Inr (True, w2)"
      "workers_only {k} w w2" "w_next w2 = w_next w" "k < length (w_workers w2)"
    and f: "wk_efd (w_workers w2 ! k) = wk_efd (w_workers w ! k)" "p_ep (wk_poller (w_workers w2 ! k)) = p_ep (wk_poller (w_workers w ! k))"
    and t: "Sys_close (wk_efd (w_workers w ! k)) # Sys_close (p_ep (wk_poller (w_workers w ! k))) # w_trace w2 = stop_calls (w_workers w ! k) @ w_trace w"
    by blast
  have i: "w_next w2 (StopItem k) = NOT_IN_QUEUE" "0 \<le> wk_efd (w_workers w2 ! k)" "0 \<le> p_ep (wk_poller (w_workers w2 ! k))"
    using w p(4) f by (simp_all add: idle_worker_def Let_def)
  from cleanup_law [OF p(5) E(2) i] obtain w4 where w4: "NetWorker_Terminate_cleanup E k w2 = Inr w4" "workers_only {k} w2 w4" "terminated k w2 w4"
     "w_trace w4 = Sys_close (wk_efd (w_workers w2 ! k)) # Sys_close (p_ep (wk_poller (w_workers w2 ! k))) # w_trace w2" by blast
  from workers_only_trans [OF p(3) w4(2)] have "workers_only {k} w w4" by simp
  moreover have "terminated k w w4" using w4(3) unfolding terminated_def f .
  moreover have "NetWorker_Terminate E n (Suc (Suc (Suc m))) k (k # ls) w = Inr (ls, w4)"
    using p(1,2) w4(1) by (simp add: NetWorker_Terminate_def)
  moreover have "w_trace w4 = stop_calls (w_workers w ! k) @ w_trace w" using w4(4) t f by simp
  ultimately show ?thesis by blast
qed

section \<open>The pool\<close>

lemma terminated_later:
  assumes "terminated k u v" and "workers_only K v w" and "k \<notin> K" and "k < length (w_workers v)"
  shows "terminated k u w"
  using assms by (auto simp: terminated_def workers_only_def alike_def)

lemma terminated_earlier:
  assumes "workers_only K u v" and "terminated k v w" and "k \<notin> K" and "k < length (w_workers u)"
  shows "terminated k u w"
  using assms by (auto simp: terminated_def workers_only_def alike_def)

lemma pool_law:
  assumes "\<forall>k. a \<le> k \<and> k < b \<longrightarrow> idle_worker E k w" and "apart {a..<b} w" and "grants E" "closes E"
  shows "\<exists>w'. pool_terminate_from E n (Suc (Suc (Suc m))) [a..<b] ([a..<b] @ ls) w = Inr (ls, w') \<and> workers_only {a..<b} w w' \<and>
     (\<forall>k. a \<le> k \<and> k < b \<longrightarrow> terminated k w w') \<and>
     w_trace w' = concat (map (\<lambda>k. stop_calls (w_workers w ! k)) (rev [a..<b])) @ w_trace w"
  using assms(1,2)
proof (induction "b - a" arbitrary: a w)
  case 0
  then have e: "[a..<b] = []" and "\<And>k. \<not> (a \<le> k \<and> k < b)" by auto
  then have "\<forall>k. a \<le> k \<and> k < b \<longrightarrow> terminated k w w" by blast
  then show ?case unfolding e by (intro exI [of _ w]) simp
next
  case (Suc d)
  then have ab: "a < b" "[a..<b] = a # [Suc a..<b]" by (simp_all add: upt_conv_Cons)
  have ia: "idle_worker E a w" using Suc.prems(1) ab(1) by blast
  have "wk_efd (w_workers w ! a) \<noteq> p_ep (wk_poller (w_workers w ! a))" using Suc.prems(2) ab(1) by (simp add: apart_def Let_def)
  from Terminate_law [OF ia this assms(3,4), of n m "[Suc a..<b] @ ls"] obtain w1 where
    w1: "NetWorker_Terminate E n (Suc (Suc (Suc m))) a ([a..<b] @ ls) w = Inr ([Suc a..<b] @ ls, w1)" "workers_only {a} w w1" "terminated a w w1"
      "w_trace w1 = stop_calls (w_workers w ! a) @ w_trace w" unfolding ab(2) by auto
  have len: "k < length (w_workers w)" "k < length (w_workers w1)" if "a \<le> k" "k < b" for k
    using Suc.prems(1) that w1(2) by (auto simp: idle_worker_def workers_only_def Let_def)
  have same: "alike (w_workers w1 ! k) (w_workers w ! k)" if "Suc a \<le> k" "k < b" for k
    using w1(2) that len(1) [of k] by (simp add: workers_only_def)
  have "idle_worker E k w1" if "Suc a \<le> k" "k < b" for k
    using idle_later [OF _ w1(2,4) _ Suc.prems(2), of E k] Suc.prems(1) that ab(1) by simp
  then have "\<forall>k. Suc a \<le> k \<and> k < b \<longrightarrow> idle_worker E k w1" by blast
  moreover have "apart {Suc a..<b} w1" using Suc.prems(2) same by (simp add: apart_def alike_def Let_def)
  moreover have "d = b - Suc a" using Suc.hyps(2) by simp
  ultimately obtain w2 where
    w2: "pool_terminate_from E n (Suc (Suc (Suc m))) [Suc a..<b] ([Suc a..<b] @ ls) w1 = Inr (ls, w2)" "workers_only {Suc a..<b} w1 w2"
      "\<forall>k. Suc a \<le> k \<and> k < b \<longrightarrow> terminated k w1 w2"
      "w_trace w2 = concat (map (\<lambda>k. stop_calls (w_workers w1 ! k)) (rev [Suc a..<b])) @ w_trace w1" using Suc.hyps(1) by blast
  have "pool_terminate_from E n (Suc (Suc (Suc m))) [a..<b] ([a..<b] @ ls) w = Inr (ls, w2)"
    using w1(1) w2(1) by (simp add: ab(2))
  moreover have "{a} \<union> {Suc a..<b} = {a..<b}" using ab(1) by auto
  with workers_only_trans [OF w1(2) w2(2)] have "workers_only {a..<b} w w2" by simp
  moreover have "terminated k w w2" if "a \<le> k" "k < b" for k
  proof (cases "k = a")
    case True
    then show ?thesis using terminated_later [OF w1(3) w2(2)] len that by auto
  next
    case False
    then show ?thesis using w2(3) terminated_earlier [OF w1(2)] len that by auto
  qed
  moreover have "map (\<lambda>k. stop_calls (w_workers w1 ! k)) (rev [Suc a..<b]) = map (\<lambda>k. stop_calls (w_workers w ! k)) (rev [Suc a..<b])"
    using stop_calls_alike [OF same] by simp
  with w2(4) w1(4) have "w_trace w2 = concat (map (\<lambda>k. stop_calls (w_workers w ! k)) (rev [a..<b])) @ w_trace w"
    by (simp add: ab(2) del: map_map)
  ultimately show ?case by blast
qed

section \<open>Properties\<close>

text \<open>C39: The stop item ends a worker. When the worker, woken by the signal that came with it, takes its tasks and the stop item is the first of
  them, its routine returns; the tasks queued behind the stop item are thrown away without being run: they
  are in no queue, and the queues of the other workers, sockets, device and memory are as before. The only system call made is the read of
  the eventfd.\<close>

theorem stop_item_discards_tasks:
  assumes "tasks_are w T" and "T k = StopItem k # ys" and "k < length (w_workers w)" and "0 \<le> wk_efd (w_workers w ! k)"
    and "open_eventfd E (wk_efd (w_workers w ! k)) (w_trace w)" and "raised (env_os E) (wk_efd (w_workers w ! k)) (w_trace w)"
    and "Suc (length ys) < m"
  shows "\<exists>w'. take_tasks E n m k kNetPollerIn w = Inr (True, w') \<and> tasks_are w' (T(k := [])) \<and>
     (\<forall>x \<in> set (T k). w_next w' x = NOT_IN_QUEUE) \<and> (\<forall>x. x \<notin> set (T k) \<longrightarrow> w_next w' x = w_next w x) \<and>
     w_socks w' = w_socks w \<and> w_dev w' = w_dev w \<and> w_mem w' = w_mem w \<and> w_trace w' = Sys_read (wk_efd (w_workers w ! k)) 8 # w_trace w"
proof -
  have "queue_rep (w_next w) (wk_tasks (w_workers w ! k)) (StopItem k # ys)" using assms(1-3) by (auto simp: tasks_are_def)
  moreover have "can_take E k w" using open_eventfdD [OF assms(5), of "[]"] assms(6) by (simp add: can_take_def Let_def)
  ultimately have "take_tasks E n m k kNetPollerIn w = Inr (True, discarded k (StopItem k # ys) (drained w k @ w_trace w) w)"
    using take_stop assms(3,7) by blast
  moreover have "drained w k = [Sys_read (wk_efd (w_workers w ! k)) 8]" using assms(4) by (simp add: drained_def)
  moreover note discarded_tasks [OF assms(1,3), of "drained w k @ w_trace w"]
  ultimately show ?thesis unfolding assms(2)
    by (intro exI [of _ "discarded k (StopItem k # ys) (drained w k @ w_trace w) w"]) (simp add: discarded_def emptied_def unlink_def)
qed

text \<open>A worker with a task behind its stop item.\<close>

definition stopping_world :: world where
  "stopping_world =
     (let w = ready_world (\<lambda>_. 0); q = \<lparr>q_head = At (StopItem 0), q_tail = At (TaskItem 1 TkSend)\<rparr>
      in w\<lparr>w_next := (\<lambda>_. NOT_IN_QUEUE)(StopItem 0 := At (TaskItem 1 TkSend), TaskItem 1 TkSend := NULL),
           w_workers := (w_workers w)[0 := (w_workers w ! 0)\<lparr>wk_tasks := q, wk_efd := 7\<rparr>], w_trace := [Sys_write 7 (le_bytes 8 1)]\<rparr>)"

lemma stopping_tasks: "tasks_are stopping_world ((\<lambda>_. [])(0 := [StopItem 0, TaskItem 1 TkSend]))"
  by (auto simp: tasks_are_def stopping_world_def ready_world_def nth_list_update queue_rep_def new_worker_def NetQueue_Init_def Let_def)

theorem stop_item_discards_tasks_witness:
  "\<exists>w'. take_tasks dialing_env 2 3 0 kNetPollerIn stopping_world = Inr (True, w') \<and> w_next w' (TaskItem 1 TkSend) = NOT_IN_QUEUE"
proof -
  have "0 < length (w_workers stopping_world)" "wk_efd (w_workers stopping_world ! 0) = 7" "w_trace stopping_world = [Sys_write 7 (le_bytes 8 1)]"
    by (simp_all add: stopping_world_def ready_world_def Let_def)
  moreover have "raised (env_os dialing_env) 7 [Sys_write 7 (le_bytes 8 1)]" using dialing_env_ok(1) by (simp add: grants_def can_signal_def)
  moreover note o = dialing_env_ok(4) [of 7 "[Sys_write 7 (le_bytes 8 1)]"]
  ultimately have "\<exists>w'. take_tasks dialing_env 2 3 0 kNetPollerIn stopping_world = Inr (True, w') \<and>
      (\<forall>x \<in> set (((\<lambda>_. [])(0 := [StopItem 0, TaskItem 1 TkSend])) (0::nat)). w_next w' x = NOT_IN_QUEUE)"
    using stop_item_discards_tasks [OF stopping_tasks, of 0 "[TaskItem 1 TkSend]" dialing_env 3 2] by force
  then show ?thesis by auto
qed

text \<open>C25: The pool terminates. Let every worker wait without tasks, its poller holding its open eventfd, the descriptors of
  all workers being different and the sockets quiet. Then \<open>NetPool::Terminate\<close> returns: for one worker after the other the stop item is
  queued and the eventfd signalled, which is what lets the worker's wait return: the kernel is assumed to
  report an eventfd that has been signalled since it was last read, and nothing is assumed of a wait on one that has not; the worker reads its eventfd, finds the stop item and returns, and its epoll descriptor and its
  eventfd are closed. These are all the system calls made, in this order; the queues are
  empty, and sockets, device, messages and memory are as before.\<close>

theorem pool_terminates:
  assumes "\<forall>k < kNetWorkerNum. idle_worker E k w" and "length (w_workers w) = kNetWorkerNum"
    and "distinct (map wk_efd (w_workers w) @ map (\<lambda>wk. p_ep (wk_poller wk)) (w_workers w))" and "grants E" and "closes E"
  shows "\<exists>w'. NetPool_Terminate E n (Suc (Suc (Suc m))) [0..<kNetWorkerNum] w = Inr ([], w') \<and> workers_only {0..<kNetWorkerNum} w w' \<and>
     (\<forall>k < kNetWorkerNum. terminated k w w') \<and>
     w_trace w' = concat (map (\<lambda>k. stop_calls (w_workers w ! k)) (rev [0..<kNetWorkerNum])) @ w_trace w"
proof -
  have d: "distinct (map wk_efd (w_workers w))" "distinct (map (\<lambda>wk. p_ep (wk_poller wk)) (w_workers w))"
    "wk_efd ` set (w_workers w) \<inter> (\<lambda>wk. p_ep (wk_poller wk)) ` set (w_workers w) = {}" using assms(3) by simp_all
  have "apart {0..<kNetWorkerNum} w" unfolding apart_def Let_def
  proof (intro ballI conjI impI)
    fix j k assume jk: "j \<in> {0..<kNetWorkerNum}" "k \<in> {0..<kNetWorkerNum}"
    with assms(2) have len: "j < length (w_workers w)" "k < length (w_workers w)" by simp_all
    have "wk_efd (w_workers w ! j) \<in> wk_efd ` set (w_workers w)" by (rule imageI [OF nth_mem [OF len(1)]])
    moreover have "p_ep (wk_poller (w_workers w ! k)) \<in> (\<lambda>wk. p_ep (wk_poller wk)) ` set (w_workers w)" by (rule imageI [OF nth_mem [OF len(2)]])
    ultimately show "wk_efd (w_workers w ! j) \<noteq> p_ep (wk_poller (w_workers w ! k))" by (metis d(3) IntI empty_iff)
    assume "j \<noteq> k"
    with d(1,2) len show "wk_efd (w_workers w ! j) \<noteq> wk_efd (w_workers w ! k)"
      "p_ep (wk_poller (w_workers w ! j)) \<noteq> p_ep (wk_poller (w_workers w ! k))" by (auto simp: distinct_conv_nth)
  qed
  moreover have "\<forall>k. 0 \<le> k \<and> k < kNetWorkerNum \<longrightarrow> idle_worker E k w" using assms(1) by simp
  ultimately show ?thesis
    using pool_law [of 0 kNetWorkerNum E w n m "[]"] assms(4,5) unfolding NetPool_Terminate_def by (simp only: append_Nil2 le0 simp_thms)
qed

text \<open>
  Four idle workers, and a kernel with eventfds 10 to 13 and epoll descriptors 20 to 23: it reports an eventfd, and lets it be read, if
  it has been signalled since it was last read.
\<close>

fun signalled :: "fd \<Rightarrow> trace \<Rightarrow> bool" where
  "signalled f [] \<longleftrightarrow> False"
| "signalled f (Sys_write g bs # tr) \<longleftrightarrow> g = f \<or> signalled f tr"
| "signalled f (Sys_read g n # tr) \<longleftrightarrow> g \<noteq> f \<and> signalled f tr"
| "signalled f (_ # tr) \<longleftrightarrow> signalled f tr"

definition pool_os :: os where
  "pool_os tr = (case tr of
       Sys_epoll_wait ep _ _ # t \<Rightarrow>
         if signalled (ep - 10) t then (sysret 1)\<lparr>sr_events := [(HEfd (nat (ep - 20)), EPOLLIN)]\<rparr> else sysret 0
     | Sys_read f _ # t \<Rightarrow> if signalled f t then sysret 8 else syserr EAGAIN
     | Sys_write _ _ # _ \<Rightarrow> sysret 8 | _ \<Rightarrow> sysret 0)"

definition pool_env :: env where
  "pool_env = \<lparr>env_os = pool_os, env_user = plain_user\<rparr>"

definition pool_world :: world where
  "pool_world = (new_world (\<lambda>_. 0))\<lparr>w_next := \<lambda>_. NOT_IN_QUEUE,
     w_workers := map (\<lambda>k. new_worker\<lparr>wk_efd := 10 + int k, wk_poller := (wk_poller new_worker)\<lparr>p_ep := 20 + int k\<rparr>\<rparr>) [0..<kNetWorkerNum],
     w_trace := map (\<lambda>k. Sys_epoll_ctl (20 + int k) EPOLL_CTL_MOD (10 + int k) (Some (HEfd k, EPOLLIN))) [0..<kNetWorkerNum]\<rparr>"

lemma raised_signalled: "raised os f tr \<Longrightarrow> signalled f tr"
  by (induction os f tr rule: raised.induct) auto

lemma pool_kernel: "open_eventfd pool_env f tr" "reports_eventfd pool_env k (20 + int k) (10 + int k) tr"
  using raised_signalled by (fastforce simp: open_eventfd_def reports_eventfd_def pool_env_def pool_os_def sysret_def)+

lemma pool_idle: "k < kNetWorkerNum \<Longrightarrow> idle_worker pool_env k pool_world"
proof -
  assume k: "k < kNetWorkerNum"
  then have "interest (20 + int k) (w_trace pool_world) (10 + int k) = Some (HEfd k, EPOLLIN)"
    by (auto simp: pool_world_def upt_rec less_Suc_eq numeral_eq_Suc)
  with k pool_kernel show ?thesis by (simp add: idle_worker_def pool_world_def new_worker_def)
qed

lemma pool_grants: "grants pool_env" "closes pool_env"
  by (simp_all add: grants_def can_signal_def sets_flags_def closes_def pool_env_def pool_os_def sysret_def)

theorem pool_terminates_witness:
  "\<exists>w'. NetPool_Terminate pool_env 2 3 [0, 1, 2, 3] pool_world = Inr ([], w') \<and> (\<forall>k < 4. wk_efd (w_workers w' ! k) = - 1)"
proof -
  have "length (w_workers pool_world) = kNetWorkerNum"
    "distinct (map wk_efd (w_workers pool_world) @ map (\<lambda>wk. p_ep (wk_poller wk)) (w_workers pool_world))"
    by (auto simp: pool_world_def upt_rec)
  moreover have "[0..<kNetWorkerNum] = [0, 1, 2, 3]" by (simp add: upt_rec)
  ultimately show ?thesis
    using pool_terminates [of pool_env pool_world 2 0] pool_idle pool_grants
    unfolding numeral_3_eq_3 terminated_def by auto
qed

text \<open>C26: An undisturbed pass is a run of the thread. A pass of a worker's loop, from the wait to the
  last event, is a run of the small steps of its thread, from the wait back to it (or to the
  return, when the stop item is found), and ends in the same state. So whole passes lead from
  reachable states to reachable states, and what holds under every interleaving of the
  small steps holds for the passes the other properties speak of.\<close>

theorem pass_is_thread_run:
  assumes "NetWorkerRoutine_pass E n m k w = Inr (stopped, w')"
  shows "thread_run E k Waiting w (if stopped then Returned else Waiting) w' \<and>
     (\<forall>mem ts. k < kNetWorkerNum \<and> ts k = Waiting \<and> reachable E mem (ts, w) \<longrightarrow>
        reachable E mem (ts(k := if stopped then Returned else Waiting), w'))"
  using pass_run [OF assms] reachable_pass [OF _ _ _ assms] by blast

theorem pass_is_thread_run_witness:
  "\<exists>w w'. NetWorker_Terminate_request pool_env 0 pool_world = Inr w \<and> NetWorkerRoutine_pass pool_env 2 3 0 w = Inr (True, w') \<and>
     thread_run pool_env 0 Waiting w Returned w'"
proof -
  have "wk_efd (w_workers pool_world ! 0) \<noteq> p_ep (wk_poller (w_workers pool_world ! 0))" by (simp add: pool_world_def)
  from requested_pass [OF pool_idle this pool_grants(1), of 2 0] obtain w w' where
    "NetWorker_Terminate_request pool_env 0 pool_world = Inr w" and p: "NetWorkerRoutine_pass pool_env 2 3 0 w = Inr (True, w')"
    by (auto simp: numeral_3_eq_3)
  moreover have "thread_run pool_env 0 Waiting w Returned w'" using pass_is_thread_run [OF p] by simp
  ultimately show ?thesis by blast
qed

end
