(* ===== verification/Netexchange.thy ===== *)
theory Netexchange
  imports Netstop
begin

text \<open>
  Two processes. What \<open>SendData\<close> promises its caller, and what the process at the
  other end of the connection makes of the bytes: the parts proved about sending, about
  the stream and about receiving are put together.
\<close>

section \<open>The user's calls\<close>

text \<open>The data message that \<open>SendData\<close> makes.\<close>

definition data_msg :: "user \<Rightarrow> 64 word \<Rightarrow> 64 word \<Rightarrow> netmsg" where
  "data_msg u src dst = \<lparr>msg_type = 1, m_src = u_Token2Dptr u src, m_dst = dst, m_extra = u_Token2DptrSize u src\<rparr>"

lemma SendData_known:
  assumes "u_Token2Dptr (env_user E) src \<noteq> 0" and "u_Token2DptrSize (env_user E) src \<noteq> 0"
    and "NetDevice_Token2Socket dst w = Some i" and "w_socks w i = Some s" and "f_state (sk_fsm s) \<noteq> kNetFsmStateIdle"
  shows "NetDevice_SendData E run src dst w =
     andThen (NetSocket_AsyncSendMsg E i (data_msg (env_user E) src dst) w) (\<lambda>w. Inr (0, w))"
proof -
  have "NetDevice_SendMsg E run (data_msg (env_user E) src dst) w =
      andThen (NetSocket_AsyncSendMsg E i (data_msg (env_user E) src dst) w) (\<lambda>w. Inr (0, w))"
    using assms(3-5) by (intro SendMsg_known) (simp_all add: data_msg_def)
  moreover have "NetMsg_new\<lparr>msg_type := 1, m_src := u_Token2Dptr (env_user E) src, m_dst := dst, m_extra := u_Token2DptrSize (env_user E) src\<rparr> =
      data_msg (env_user E) src dst"
    by (simp add: NetMsg_new_def data_msg_def)
  ultimately show ?thesis
    using assms(1,2) by (simp add: NetDevice_SendData_def NetMsg_new_def)
qed

section \<open>From memory to memory\<close>

text \<open>The bytes that the kernel took from descriptor \<open>f\<close> between two states.\<close>

definition sent_since :: "os \<Rightarrow> fd \<Rightarrow> trace \<Rightarrow> trace \<Rightarrow> byte list" where
  "sent_since os f tr tr' = drop (length (accepted os f tr)) (accepted os f tr')"

text \<open>The receiving process, when the stream is a prefix of the images of data messages.\<close>

lemma receive_law:
  assumes v: "serving k t L v" "sk_in_offset t = 0" "length (sk_in_buf t) = 128" "consumed (env_os F) (sk_s t) (w_trace v) = 0"
      "\<not> ch_send_closed (dv_cq (w_dev v))"
    and str: "reads_stream (env_os F) (sk_s t) (take j (wires mem ms))" and ms: "\<forall>m \<in> set ms. msg_type m = 1 \<and> msg_len m < 2 ^ 31"
  shows "\<exists>d v'. in_events F k n v = Inr v' \<and> d \<le> length ms \<and>
     ch_val (dv_cq (w_dev v')) = ch_val (dv_cq (w_dev v)) @ completions (take d ms) (dv_token2callback (w_dev v)) \<and>
     (consumed (env_os F) (sk_s t) (w_trace v') = length (wires mem ms) \<longrightarrow>
        d = length ms \<and> w_mem v' = deliver (env_user F) (map (with_payload mem) ms) (w_mem v))"
proof -
  let ?mps = "map (with_payload mem) ms" and ?b = "sockbuf.truncate t"
  from reads_stream_prefix [OF str] have s: "reads_stream (env_os F) (sk_s ?b) (images ?mps)" unfolding images_with_payload truncate_simps .
  have b: "consumed (env_os F) (sk_s ?b) (w_trace v) = 0" "sk_in_offset ?b = 0" "length (sk_in_buf ?b) = 128" using v(2-4) by simp_all
  have fits: "\<forall>(m, pay) \<in> set ?mps. fits m pay" using ms by (intro fits_with_payload) simp
  from recv_run_from_start [OF s b fits, of "env_user F" n "w_mem v"] obtain d c mem' tr where
    r: "recv_run (env_os F) (env_user F) n ?b (w_mem v) (w_trace v) = (map fst (take d ?mps), c, mem', tr)"
    and d: "d \<le> length ?mps" "d < length ?mps \<longrightarrow> consumed (env_os F) (sk_s t) tr < length (images (take (Suc d) ?mps))"
      "mem' = partly_delivered (env_user F) ?mps d (consumed (env_os F) (sk_s t) tr) (w_mem v)"
    unfolding truncate_simps by blast
  have got: "map fst (take d ?mps) = take d ms" unfolding take_map map_fst_with_payload ..
  have "\<forall>m \<in> set (take d ms). msg_type m = 1" using ms by (auto dest!: in_set_takeD)
  from in_events_law [OF v(1) r [unfolded got] this] obtain v' s' where
    v': "in_events F k n v = Inr v'" "v' = (after_read_of k s' mem' tr v)\<lparr>w_dev := fold finish_read (take d ms) (w_dev v)\<rparr>" by blast
  have "d = length ms \<and> w_mem v' = deliver (env_user F) ?mps (w_mem v)" if "consumed (env_os F) (sk_s t) (w_trace v') = length (wires mem ms)"
  proof -
    from that have c: "consumed (env_os F) (sk_s t) tr = length (images ?mps)" by (simp add: v'(2) after_read_of_def images_with_payload)
    then have "d = length ?mps" using d(1,2) by (intro all_received) simp_all
    then show ?thesis by (simp add: v'(2) after_read_of_def d(3) partly_delivered_def)
  qed
  moreover have "ch_val (dv_cq (w_dev v')) = ch_val (dv_cq (w_dev v)) @ completions (take d ms) (dv_token2callback (w_dev v))"
    using fold_finish_read [OF v(5)] by (simp add: v'(2) after_read_of_def)
  moreover have "d \<le> length ms" using d(1) by simp
  ultimately show ?thesis using v'(1) by blast
qed

text \<open>The sending process.\<close>

lemma send_law:
  assumes a: "serving i s M w" "f_state (sk_fsm s) \<noteq> kNetFsmStateIdle" "\<not> sk_busy s" "length (sk_out_buf s) = 128"
      "\<forall>m \<in> set (M i). msg_len m < 2 ^ 31"
    and m: "u_Token2Dptr (env_user E) src \<noteq> 0" "u_Token2DptrSize (env_user E) src \<noteq> 0" "msg_len (data_msg (env_user E) src dst) < 2 ^ 31"
      "NetDevice_Token2Socket dst w = Some i"
    and E: "tasks_are w T" "grants E" "writes_ok (env_os E) (sk_s s)"
  shows "\<exists>w1. NetDevice_SendData E run src dst w = Inr (0, w1) \<and>
     tasks_are w1 (T(sk_worker s := appended (w_next w) (TaskItem i TkSend) (T (sk_worker s)))) \<and>
     (\<forall>n. \<exists>w2 s2 left j. out_events E i n w1 = Inr w2 \<and> serving i s2 (M(i := left)) w2 \<and>
        sent_since (env_os E) (sk_s s) (w_trace w1) (w_trace w2) = take j (wires (w_mem w) (M i @ [data_msg (env_user E) src dst])) \<and>
        (left = [] \<and> \<not> sk_busy s2 \<longrightarrow> length (wires (w_mem w) (M i @ [data_msg (env_user E) src dst])) \<le> j))"
proof -
  let ?m = "data_msg (env_user E) src dst"
  obtain w1 s1 where w1: "NetSocket_AsyncSendMsg E i ?m w = Inr w1" "serving i s1 (M(i := M i @ [?m])) w1" "w_mem w1 = w_mem w"
    "sockbuf.truncate s1 = sockbuf.truncate s" "tasks_are w1 (T(sk_worker s := appended (w_next w) (TaskItem i TkSend) (T (sk_worker s))))"
    using send_to_serving [OF a(1) E(1,2), of ?m] by blast
  have "w_socks w i = Some s" using a(1) by (simp add: serving_def at_rest_def)
  with SendData_known [OF m(1,2,4) _ a(2)] w1(1) have call: "NetDevice_SendData E run src dst w = Inr (0, w1)" by simp
  have fd: "sk_s s1 = sk_s s" "\<not> sk_busy s1" "length (sk_out_buf s1) = 128"
    using arg_cong [OF w1(4), of sk_s] arg_cong [OF w1(4), of sk_busy] arg_cong [OF w1(4), of sk_out_buf] a(3,4) by simp_all
  have "to_send (w_mem w1) ((M(i := M i @ [?m])) i) (sockbuf.truncate s1) (wires (w_mem w) (M i @ [?m]))"
    using fd a(5) m(3) by (simp add: to_send_def w1(3))
  from out_events_law [OF w1(2) this, of E] E(3) fd(1)
  have "\<exists>w2 s2 left j. out_events E i n w1 = Inr w2 \<and> serving i s2 (M(i := left)) w2 \<and>
        accepted (env_os E) (sk_s s) (w_trace w2) = accepted (env_os E) (sk_s s) (w_trace w1) @ take j (wires (w_mem w) (M i @ [?m])) \<and>
        to_send (w_mem w1) left (sockbuf.truncate s2) (drop j (wires (w_mem w) (M i @ [?m])))" for n
    by (simp only: fun_upd_upd) blast
  then have "\<exists>w2 s2 left j. out_events E i n w1 = Inr w2 \<and> serving i s2 (M(i := left)) w2 \<and>
        sent_since (env_os E) (sk_s s) (w_trace w1) (w_trace w2) = take j (wires (w_mem w) (M i @ [?m])) \<and>
        (left = [] \<and> \<not> sk_busy s2 \<longrightarrow> length (wires (w_mem w) (M i @ [?m])) \<le> j)" for n
    by (fastforce simp: sent_since_def to_send_def)
  with call w1(5) show ?thesis by blast
qed

section \<open>Properties\<close>

text \<open>
  A socket whose sender is idle, with nothing but data messages below 2 GiB buffered for it, and
  one whose receiver stands at the start of a message in a process that takes completions.
\<close>

definition sender_ready :: "nat \<Rightarrow> netsock \<Rightarrow> (nat \<Rightarrow> netmsg list) \<Rightarrow> world \<Rightarrow> bool" where
  "sender_ready i s M w \<longleftrightarrow>
     serving i s M w \<and> f_state (sk_fsm s) = kNetFsmStateActive \<and> \<not> sk_busy s \<and> length (sk_out_buf s) = 128 \<and>
     (\<forall>m \<in> set (M i). msg_type m = 1 \<and> msg_len m < 2 ^ 31)"

definition receiver_ready :: "nat \<Rightarrow> netsock \<Rightarrow> (nat \<Rightarrow> netmsg list) \<Rightarrow> world \<Rightarrow> bool" where
  "receiver_ready k t L v \<longleftrightarrow>
     serving k t L v \<and> sk_in_offset t = 0 \<and> length (sk_in_buf t) = 128 \<and> \<not> ch_send_closed (dv_cq (w_dev v))"

text \<open>
  What process \<open>v\<close> makes on its socket \<open>k\<close> of the bytes \<open>sent\<close>, for every kernel \<open>F\<close> that delivers them in order and
  for every number \<open>n\<close> of input events: no event fails, and the callbacks queued are exactly those that
  wait for the tokens of the first \<open>d\<close> messages of \<open>ms\<close>, in order. If \<open>sent\<close> is \<open>all\<close> of
  them and has been read, then \<open>d\<close> is their number, and the memory is what it was with the data of each
  message, as \<open>mem\<close> has it, stored where the user keeps the message's token.
\<close>

definition arrives :: "nat \<Rightarrow> netsock \<Rightarrow> world \<Rightarrow> memory \<Rightarrow> netmsg list \<Rightarrow> byte list \<Rightarrow> bool \<Rightarrow> bool" where
  "arrives k t v mem ms sent all \<longleftrightarrow>
     (\<forall>F n. consumed (env_os F) (sk_s t) (w_trace v) = 0 \<longrightarrow> reads_stream (env_os F) (sk_s t) sent \<longrightarrow>
        (\<exists>d v'. in_events F k n v = Inr v' \<and> d \<le> length ms \<and>
           ch_val (dv_cq (w_dev v')) = ch_val (dv_cq (w_dev v)) @ completions (take d ms) (dv_token2callback (w_dev v)) \<and>
           (all \<and> consumed (env_os F) (sk_s t) (w_trace v') = length sent \<longrightarrow>
              d = length ms \<and> w_mem v' = deliver (env_user F) (map (with_payload mem) ms) (w_mem v))))"

lemma arrivesI:
  assumes v: "receiver_ready k t L v" and ms: "\<forall>m \<in> set ms. msg_type m = 1 \<and> msg_len m < 2 ^ 31"
    and sent: "sent = take j (wires mem ms)" and all: "all \<longrightarrow> length (wires mem ms) \<le> j"
  shows "arrives k t v mem ms sent all"
  unfolding arrives_def
proof (intro allI impI)
  fix F :: env and n :: nat
  assume c: "consumed (env_os F) (sk_s t) (w_trace v) = 0" and str: "reads_stream (env_os F) (sk_s t) sent"
  note r = v [unfolded receiver_ready_def]
  have len: "all \<longrightarrow> length sent = length (wires mem ms)" using sent all by simp
  from receive_law [OF _ _ _ c _ str [unfolded sent] ms, of k L n] r obtain d v' where
    "in_events F k n v = Inr v'" "d \<le> length ms"
    "ch_val (dv_cq (w_dev v')) = ch_val (dv_cq (w_dev v)) @ completions (take d ms) (dv_token2callback (w_dev v))"
    "consumed (env_os F) (sk_s t) (w_trace v') = length (wires mem ms) \<longrightarrow>
       d = length ms \<and> w_mem v' = deliver (env_user F) (map (with_payload mem) ms) (w_mem v)" by blast
  with len show "\<exists>d v'. in_events F k n v = Inr v' \<and> d \<le> length ms \<and>
     ch_val (dv_cq (w_dev v')) = ch_val (dv_cq (w_dev v)) @ completions (take d ms) (dv_token2callback (w_dev v)) \<and>
     (all \<and> consumed (env_os F) (sk_s t) (w_trace v') = length sent \<longrightarrow>
        d = length ms \<and> w_mem v' = deliver (env_user F) (map (with_payload mem) ms) (w_mem v))" by auto
qed

text \<open>C1: Data travels from memory to memory. Let a process send data to a token whose machine it is
  connected to, the user knowing the data's address (not null) and its size, which is neither 0 nor the -1 of an unknown size and
  is less than 2 GiB minus the 32 bytes of a header. No message is half sent, and what waits to be sent before are data
  messages of less than 2 GiB each, header included. SendData returns 0 and queues the send
  task; over any number of output events nothing fails on the sender's side. Let the other process stand at the start of a
  message and its completion queue be open. Whatever part of the
  messages has gone out, it arrives there as \<open>arrives\<close> says: the
  callbacks that wait there are queued in order, and when everything has been sent and
  read, the other process has the data of every message, and of this one as the last, in its memory.\<close>

theorem data_is_delivered:
  assumes "sender_ready i s M w" and "tasks_are w T" and "grants E" and "writes_ok (env_os E) (sk_s s)"
    and "NetDevice_Token2Socket dst w = Some i"
    and "u_Token2Dptr (env_user E) src \<noteq> 0" and "u_Token2DptrSize (env_user E) src \<noteq> 0"
    and "unat (u_Token2DptrSize (env_user E) src) < 2 ^ 31 - 32"
    and "receiver_ready k t L v"
    and "ms = M i @ [\<lparr>msg_type = 1, m_src = u_Token2Dptr (env_user E) src, m_dst = dst, m_extra = u_Token2DptrSize (env_user E) src\<rparr>]"
  shows "\<exists>w1. NetDevice_SendData E (dispatch E) src dst w = Inr (0, w1) \<and>
     tasks_are w1 (T(sk_worker s := appended (w_next w) (TaskItem i TkSend) (T (sk_worker s)))) \<and>
     (\<forall>n. \<exists>w2 s2 left. out_events E i n w1 = Inr w2 \<and> serving i s2 (M(i := left)) w2 \<and>
        arrives k t v (w_mem w) ms (sent_since (env_os E) (sk_s s) (w_trace w1) (w_trace w2)) (left = [] \<and> \<not> sk_busy s2))"
proof -
  note a = assms(1) [unfolded sender_ready_def]
  have m: "ms = M i @ [data_msg (env_user E) src dst]" "msg_len (data_msg (env_user E) src dst) < 2 ^ 31"
    using assms(8) by (simp_all add: assms(10) data_msg_def msg_len_def payload_len_def)
  have ms: "\<forall>m \<in> set ms. msg_type m = 1 \<and> msg_len m < 2 ^ 31" using a m by (auto simp: data_msg_def)
  have a2: "serving i s M w" "f_state (sk_fsm s) \<noteq> kNetFsmStateIdle" "\<not> sk_busy s" "length (sk_out_buf s) = 128"
     "\<forall>m \<in> set (M i). msg_len m < 2 ^ 31" using a by simp_all
  from send_law [OF a2 assms(6,7) m(2) assms(5,2-4), of "dispatch E"] show ?thesis
    unfolding m(1) [symmetric] using arrivesI [OF assms(9) ms] by metis
qed

text \<open>A process that has a connection to the machine of token 8192, and one that waits for the data of that token.\<close>

definition linked_world :: world where
  "linked_world = (ready_world (\<lambda>_. 7))\<lparr>w_dev := (w_dev (ready_world (\<lambda>_. 7)))\<lparr>dv_token2sock := [(8192, 1)]\<rparr>\<rparr>"

lemma linked_ready: "sender_ready 1 ready_sock (\<lambda>_. []) linked_world"
  using ready_serving [of "\<lambda>_. 7"]
  by (auto simp: sender_ready_def serving_def linked_world_def at_rest_def pollers_ok_def device_up_def ready_sock_def init_sock_def NetSocket_new_def Let_def
      intro: same_mail_are simp: same_mail_def)

lemma linked_tasks: "tasks_are linked_world (\<lambda>_. [])"
  using ready_tasks [of "\<lambda>_. 7"] by (simp add: tasks_are_def linked_world_def)

lemma waiting_ready: "receiver_ready 1 ready_sock (\<lambda>_. []) waiting_world"
  using waiting_serving
  by (simp add: receiver_ready_def waiting_world_def ready_world_def device_set_up_def new_world_def new_device_def Channel_new_def
      ready_sock_def init_sock_def NetSocket_new_def Let_def)

theorem data_is_delivered_witness:
  "\<exists>w1 w2 v' d. NetDevice_SendData kind_env (dispatch kind_env) 4096 8192 linked_world = Inr (0, w1) \<and> out_events kind_env 1 40 w1 = Inr w2 \<and>
     in_events (stream_env (sent_since kind_os 9 (w_trace w1) (w_trace w2))) 1 60 waiting_world = Inr v' \<and>
     ch_val (dv_cq (w_dev v')) = completions (take d [\<lparr>msg_type = 1, m_src = 4096, m_dst = 8192, m_extra = 2\<rparr>]) [8192 \<mapsto> 77]"
proof -
  have s: "sk_s ready_sock = 9" by (simp add: ready_sock_def Let_def)
  have E: "writes_ok (env_os kind_env) (sk_s ready_sock)" by (simp add: writes_ok_def kind_env_def sysret_def)
  have t: "NetDevice_Token2Socket 8192 linked_world = Some 1" by (simp add: NetDevice_Token2Socket_def linked_world_def)
  have os: "env_os kind_env = kind_os" by (simp add: kind_env_def)
  have u: "u_Token2Dptr (env_user kind_env) 4096 = 4096" "u_Token2DptrSize (env_user kind_env) 4096 = 2" by (simp_all add: kind_env_def plain_user_def)
  let ?ms = "[] @ [\<lparr>msg_type = 1, m_src = u_Token2Dptr (env_user kind_env) 4096, m_dst = 8192, m_extra = u_Token2DptrSize (env_user kind_env) 4096\<rparr>]"
  obtain w1 where w1: "NetDevice_SendData kind_env (dispatch kind_env) 4096 8192 linked_world = Inr (0, w1)"
    "\<forall>n. \<exists>w2 s2 left. out_events kind_env 1 n w1 = Inr w2 \<and> serving 1 s2 ((\<lambda>_. [])(1 := left)) w2 \<and>
        arrives 1 ready_sock waiting_world (w_mem linked_world) ?ms
          (sent_since (env_os kind_env) (sk_s ready_sock) (w_trace w1) (w_trace w2)) (left = [] \<and> \<not> sk_busy s2)"
    using data_is_delivered [OF linked_ready linked_tasks boots_grants(1) [OF kind_boots] E t _ _ _ waiting_ready refl, of 4096] unfolding u by auto
  then obtain w2 b where w2: "out_events kind_env 1 40 w1 = Inr w2"
    "arrives 1 ready_sock waiting_world (w_mem linked_world) ?ms (sent_since kind_os 9 (w_trace w1) (w_trace w2)) b"
    unfolding s os by blast
  let ?S = "sent_since kind_os 9 (w_trace w1) (w_trace w2)"
  have "consumed (env_os (stream_env ?S)) 9 (w_trace waiting_world) = 0"
    by (simp add: waiting_world_def ready_world_def)
  moreover have "reads_stream (env_os (stream_env ?S)) 9 ?S" using slow_os_reads [of 9 ?S] by (simp add: stream_env_def)
  moreover have "ch_val (dv_cq (w_dev waiting_world)) = []" "dv_token2callback (w_dev waiting_world) = [8192 \<mapsto> 77]"
    by (simp_all add: waiting_world_def ready_world_def device_set_up_def new_world_def new_device_def Channel_new_def)
  ultimately obtain v' d where "in_events (stream_env ?S) 1 60 waiting_world = Inr v'"
    "ch_val (dv_cq (w_dev v')) = completions (take d ?ms) [8192 \<mapsto> 77]"
    using w2(2) unfolding arrives_def s by (metis append_Nil)
  with w1(1) w2(1) show ?thesis unfolding u append_Nil by blast
qed

end
