(* ===== verification/Netrefuse.thy ===== *)
theory Netrefuse
  imports Netexchange
begin

text \<open>
  Messages that cannot arrive: to a machine that refuses the connection at once, from memory
  whose size the user does not know, for a token that is read twice; and events that a
  state of the socket does not expect.
\<close>

section \<open>A connection that is refused at once\<close>

definition refuses :: "env \<Rightarrow> int \<Rightarrow> bool" where
  "refuses E e \<longleftrightarrow> e \<noteq> EINPROGRESS \<and>
     (\<forall>tr f a. sr_ret (env_os E (Sys_connect f a # tr)) = - 1 \<and> sr_errno (env_os E (Sys_connect f a # tr)) = e)"

definition refused_sock :: "int \<Rightarrow> netsock \<Rightarrow> netsock" where
  "refused_sock e s = s\<lparr>sk_errnum := e, sk_s := - 1, sk_state := kNetSockStateDone\<rparr>"

lemma Handler_refused:
  assumes s: "w_socks w i = Some s" "running s" "sk_state s = kNetSockStateConnecting" and E: "closes E"
  shows "\<exists>tr. NetFsm_Action (dispatch E) (FSock i) kNetSockActionError w =
     raise_sock i EvError kNetSockEventTypeError (PSock i)
       (w\<lparr>w_trace := tr, w_socks := (w_socks w)(i \<mapsto> s\<lparr>sk_s := - 1, sk_state := kNetSockStateDone\<rparr>)\<rparr>)"
proof -
  obtain tr where "sock_close E i w = Inr (w\<lparr>w_trace := tr, w_socks := (w_socks w)(i \<mapsto> s\<lparr>sk_s := - 1\<rparr>)\<rparr>)"
    using close_live [OF s(1) E] by blast
  then show ?thesis using s
    by (intro exI [of _ tr]) (simp add: live NetSocketHandler_def NetSocket_InternalTasks_def from_connecting_def case_connecting_def Let_def)
qed

lemma Connect_refused:
  assumes s: "w_socks w i = Some s" "running s" "sk_state s = kNetSockStateStarting" and E: "closes E" "refuses E e"
  shows "\<exists>tr. NetSocket_Connect E (dispatch E) i w =
     raise_sock i EvError kNetSockEventTypeError (PSock i) (w\<lparr>w_trace := tr, w_socks := (w_socks w)(i \<mapsto> refused_sock e s)\<rparr>)"
proof -
  let ?s1 = "s\<lparr>sk_state := kNetSockStateConnecting, sk_errnum := e\<rparr>"
  let ?w1 = "w\<lparr>w_socks := (w_socks w)(i \<mapsto> ?s1), w_trace := Sys_connect (sk_s s) (sk_ip s) # w_trace w\<rparr>"
  have "NetSocket_Connect E (dispatch E) i w = NetFsm_Action (dispatch E) (FSock i) kNetSockActionError ?w1"
    using E(2) Handler_connect [OF s] by (simp add: NetSocket_Connect_def get_sock_live upd_sock_live sys_def refuses_def world_order)
  moreover have "running ?s1" using s(2) by (simp add: running_def)
  from Handler_refused [OF _ this _ E(1), of ?w1 i] obtain tr where "NetFsm_Action (dispatch E) (FSock i) kNetSockActionError ?w1 =
     raise_sock i EvError kNetSockEventTypeError (PSock i)
       (?w1\<lparr>w_trace := tr, w_socks := (w_socks ?w1)(i \<mapsto> ?s1\<lparr>sk_s := - 1, sk_state := kNetSockStateDone\<rparr>)\<rparr>)" by auto
  ultimately show ?thesis by (intro exI [of _ tr]) (simp add: refused_sock_def world_order)
qed

section \<open>A message to a machine that refuses\<close>

text \<open>
  The socket after a message has been buffered for a connection that was refused: it is closed and done, the
  error event waits in its context, the message in its queue.
\<close>

definition failed :: "nat \<Rightarrow> netsock \<Rightarrow> world \<Rightarrow> bool" where
  "failed i s w \<longleftrightarrow>
     w_socks w i = Some s \<and> attached i s \<and> sk_state s = kNetSockStateDone \<and> sk_s s = - 1 \<and> sk_worker s < length (w_workers w) \<and>
     \<not> cx_locked (sk_ctx s) \<and> sk_task s TkSend = \<lparr>t_src = kNetSockSrcTaskSend, t_owner = Some (FSock i)\<rparr> \<and> device_up w \<and>
     sk_event s EvError = event_for i (PSock i) kNetSockEventTypeError \<and> w_next w (EvItem (SockEv i EvError)) = NULL \<and>
     cx_events (sk_ctx s) = \<lparr>q_head = At (EvItem (SockEv i EvError)), q_tail = At (EvItem (SockEv i EvError))\<rparr>"

lemma pending_error_aborts:
  assumes "w_socks w i = Some s" and "attached i s" and "device_up w" and "w_next w (EvItem (SockEv i EvError)) = NULL"
    and "cx_events (sk_ctx s) = \<lparr>q_head = At (EvItem (SockEv i EvError)), q_tail = At (EvItem (SockEv i EvError))\<rparr>"
    and "sk_event s EvError = event_for i (PSock i) kNetSockEventTypeError"
  shows "process_events E (Suc n) i w = Inl (LogFatal ''Unexpected Run'')"
  using stopping_pop [OF assms(1,5,4,2,3), of "PSock i" kNetSockEventTypeError E n] assms(6)
  by (simp add: event_for_def device_error)

text \<open>The send task, the next time anyone enters the context, finds the error.\<close>

lemma failed_task_aborts:
  assumes f: "failed i s w"
  shows "run_task E (Suc (Suc n)) i TkSend w = Inl (LogFatal ''Unexpected Run'')"
proof -
  note a = f [unfolded failed_def]
  let ?s1 = "locked s" and ?w1 = "in_section i s w"
  have s1: "w_socks ?w1 i = Some ?s1" "running ?s1" using a by (simp_all add: attached_def)
  obtain h tr where h: "NetPoller_SetOut (poller_of ?s1 ?w1) (HSock i) (handle_of ?s1) (w_trace ?w1) = (h, tr)" by fastforce
  let ?w2 = "polled i ?s1 (poller_of ?s1 ?w1) h tr ?w1" and ?s2 = "?s1\<lparr>sk_wfd := (sk_wfd ?s1)\<lparr>wf_handle := h\<rparr>\<rparr>"
  have "sock_SetOut i ?w1 = Inr ?w2" using SetOut_live [OF s1(1) _ h] a by simp
  then have feed: "NetFsm_Feed (dispatch E) (FSock i) kNetSockSrcTaskSend kNetWorkerTaskExecute (PTask i TkSend) ?w1 = Inr ?w2"
    unfolding Feed_sock [OF s1] by (simp add: NetSocketHandler_def NetSocket_InternalTasks_def live)
  have "process_events E (Suc n) i ?w2 = Inl (LogFatal ''Unexpected Run'')"
    by (rule pending_error_aborts [where s = ?s2]) (use a in \<open>simp_all add: polled_def locked_def\<close>)
  moreover have "lock_ctx i w = Inr ?w1" using a by (simp add: live locked_def)
  moreover have "run_task E (Suc (Suc n)) i TkSend w = NetCtx_ExecuteCriticalSection E (Suc (Suc n)) i
      (NetFsm_Feed (dispatch E) (FSock i) kNetSockSrcTaskSend kNetWorkerTaskExecute (PTask i TkSend)) w"
    using a by (simp add: run_task_def live attached_def)
  ultimately show ?thesis using feed section_fails [of i w ?w1] by simp
qed

lemma refused_start:
  fixes t :: "64 word"
  assumes E: "grants E" "opens_sockets E" "closes E" "refuses E e" and w: "roomy M T w"
  defines "i \<equiv> w_nsocks w" and "k \<equiv> nat (w_cur_worker w)"
  shows "\<exists>w4 s4. andThen (NetSocket_Start E (dispatch E) i AF_INET SOCK_STREAM 0 (routed_world E t w)) (\<lambda>(_, w). NetSocket_Connect E (dispatch E) i w) = Inr w4 \<and>
     failed i s4 w4 \<and> sk_worker s4 = k \<and> tasks_are w4 T \<and> mail_are w4 M \<and> w_next w4 (TaskItem i TkSend) = NOT_IN_QUEUE \<and>
     (\<forall>j. j \<noteq> i \<longrightarrow> w_socks w4 j = w_socks w j) \<and> length (w_workers w4) = length (w_workers w)"
proof -
  let ?x = "EvItem (SockEv i EvError)" and ?w1 = "routed_world E t w"
  from w have new: "w_socks w (w_nsocks w) = None" "k < kNetWorkerNum" "length (w_workers w) = kNetWorkerNum" "mail_are w M" "tasks_are w T" "device_up w"
      "TaskItem (w_nsocks w) tt \<notin> set (T j)" for j tt
    unfolding roomy_def k_def by (auto simp: nat_less_iff)
  obtain tr s2 w2 where start: "NetSocket_Start E (dispatch E) i AF_INET SOCK_STREAM 0 ?w1 = Inr (0, w2)"
      "w2 = ?w1\<lparr>w_socks := (w_socks ?w1)(i \<mapsto> s2), w_trace := tr\<rparr>"
      "\<exists>s1. s1 = init_sock i kNetDeviceSrcSocketEvent FDevice (u_Token2Ip (env_user E) t) k NetSocket_new \<and>
         s2 = s1\<lparr>sk_s := socket_fd E (w_trace w), sk_state := kNetSockStateStarting, sk_fsm := (sk_fsm s1)\<lparr>f_state := kNetFsmStateActive\<rparr>\<rparr>"
    using routed_starts [OF E(1,2) new(1), of t] unfolding i_def k_def by blast
  from start(3) have s2: "attached i s2" "sk_state s2 = kNetSockStateStarting" "sk_worker s2 = k" "cx_events (sk_ctx s2) = NetQueue_Init"
      "\<not> cx_locked (sk_ctx s2)" "sk_task s2 TkSend = \<lparr>t_src = kNetSockSrcTaskSend, t_owner = Some (FSock i)\<rparr>" "sk_msgq s2 = NetQueue_Init"
    by (auto simp: init_sock_def attached_def running_def NetSocket_new_def Let_def)
  have i2: "w_socks w2 i = Some s2" by (simp add: start(2))
  obtain tr3 where c: "NetSocket_Connect E (dispatch E) i w2 =
     raise_sock i EvError kNetSockEventTypeError (PSock i) (w2\<lparr>w_trace := tr3, w_socks := (w_socks w2)(i \<mapsto> refused_sock e s2)\<rparr>)"
    using Connect_refused [OF i2 _ s2(2) E(3,4)] s2(1) by (auto simp: attached_def)
  let ?w3 = "w2\<lparr>w_trace := tr3, w_socks := (w_socks w2)(i \<mapsto> refused_sock e s2)\<rparr>"
  let ?s4 = "with_event i EvError (PSock i) kNetSockEventTypeError (refused_sock e s2)"
  let ?w4 = "?w3\<lparr>w_next := (w_next ?w3)(?x := NULL), w_socks := (w_socks ?w3)(i \<mapsto> ?s4)\<rparr>"
  have nx: "w_next w2 = w_next ?w1" by (simp add: start(2))
  have "w_next w2 ?x = NOT_IN_QUEUE" by (simp add: nx routed_simps i_def)
  then have r: "raise_sock i EvError kNetSockEventTypeError (PSock i) ?w3 = Inr ?w4"
    using raise_pending [of ?w3 i "refused_sock e s2" EvError "PSock i"] s2(1,4) by (simp add: refused_sock_def)
  have "failed i ?s4 ?w4"
    using s2 new(2,3,6) by (simp add: failed_def with_event_def refused_sock_def start(2) routed_simps device_up_def attached_def running_def Let_def)
  moreover have "tasks_are ?w4 T"
  proof (rule tasks_are_frame [OF routed_tasks [OF new(5)]])
    fix j x assume "x \<in> set (T j)"
    with new(5) have "is_task x" by (simp add: tasks_are_def)
    then show "w_next ?w4 x = w_next ?w1 x" by (auto simp: nx)
  qed (use new(7) in \<open>simp_all add: start(2)\<close>)
  moreover have "same_mail ?w1 ?w4"
    using s2(7) by (simp add: same_mail_def start(2) routed_simps i_def with_event_def refused_sock_def init_sock_def Let_def)
  with routed_mail [OF new(4,1)] have "mail_are ?w4 M" by (rule same_mail_are)
  moreover have "sk_worker ?s4 = k" using s2(3) by (simp add: with_event_def refused_sock_def Let_def)
  ultimately show ?thesis using start(1) c r
    by (intro exI [of _ ?w4] exI [of _ ?s4]) (simp add: start(2) routed_simps i_def)
qed

section \<open>Reading the same token twice\<close>

text \<open>Nothing but the callbacks of the device has changed.\<close>

lemma serving_callbacks:
  assumes "serving i s M w"
  shows "serving i s M (w\<lparr>w_dev := (w_dev w)\<lparr>dv_token2callback := c\<rparr>\<rparr>)"
  using assms by (auto simp: serving_def at_rest_def pollers_ok_def device_up_def same_mail_def intro: same_mail_are)

lemma emplaced_tasks: "tasks_are (w\<lparr>w_dev := d\<rparr>) T = tasks_are w T"
  by (simp add: tasks_are_def)

definition read_msg :: "64 word \<Rightarrow> 64 word \<Rightarrow> netmsg" where
  "read_msg src dst = \<lparr>msg_type = 0, m_src = dst, m_dst = src, m_extra = word_of_int kNetMsgCmdRead\<rparr>"

definition waits_for :: "64 word \<Rightarrow> nat \<Rightarrow> (64 word \<rightharpoonup> nat) \<Rightarrow> 64 word \<rightharpoonup> nat" where
  "waits_for t f c = (if c t = None then c(t \<mapsto> f) else c)"

lemma emplace_waits: "emplace_callback t f w = w\<lparr>w_dev := (w_dev w)\<lparr>dv_token2callback := waits_for t f (dv_token2callback (w_dev w))\<rparr>\<rparr>"
  by (cases "w_dev w") (simp add: emplace_callback_def upd_dev_def waits_for_def)

lemma ReadData_law:
  assumes a: "serving i s M w" "f_state (sk_fsm s) = kNetFsmStateActive" and t: "NetDevice_Token2Socket src w = Some i"
    and T: "tasks_are w T" and E: "grants E"
  shows "\<exists>w' s' T'. NetDevice_ReadData E run src dst f w = Inr (0, w') \<and> serving i s' (M(i := M i @ [read_msg src dst])) w' \<and>
     f_state (sk_fsm s') = kNetFsmStateActive \<and> tasks_are w' T' \<and> NetDevice_Token2Socket src w' = Some i \<and>
     dv_token2callback (w_dev w') = waits_for src f (dv_token2callback (w_dev w))"
proof -
  let ?w1 = "emplace_callback src f w"
  have w1: "serving i s M ?w1" "tasks_are ?w1 T" unfolding emplace_waits
    using serving_callbacks [OF a(1)] T by (simp_all add: emplaced_tasks)
  obtain w' s' where w': "NetSocket_AsyncSendMsg E i (read_msg src dst) ?w1 = Inr w'" "serving i s' (M(i := M i @ [read_msg src dst])) w'"
    "sk_fsm s' = sk_fsm s" "w_dev w' = w_dev ?w1"
    "tasks_are w' (T(sk_worker s := appended (w_next ?w1) (TaskItem i TkSend) (T (sk_worker s))))"
    using send_to_serving [OF w1 E, of "read_msg src dst"] by blast
  have tok: "NetDevice_Token2Socket src ?w1 = Some i" using t by (simp add: emplace_waits NetDevice_Token2Socket_def)
  have "w_socks ?w1 i = Some s" using w1(1) by (simp add: serving_def at_rest_def)
  then have "NetDevice_SendMsg E run (read_msg src dst) ?w1 = Inr (0, w')"
    using SendMsg_known [of "read_msg src dst" ?w1 i s E run] tok a(2) w'(1) by (simp add: read_msg_def)
  then have "NetDevice_ReadData E run src dst f w = Inr (0, w')"
    by (simp add: NetDevice_ReadData_def NetMsg_new_def read_msg_def)
  moreover have "NetDevice_Token2Socket src w' = Some i" using tok by (simp add: NetDevice_Token2Socket_def w'(4))
  moreover have "dv_token2callback (w_dev w') = waits_for src f (dv_token2callback (w_dev w))" by (simp add: w'(4) emplace_waits)
  ultimately show ?thesis using w'(2,3,5) a(2) by metis
qed

lemma completions_waiting: "set (completions ms c) \<subseteq> ran c"
proof (induction ms c rule: completions.induct)
  case (2 m ms c)
  have "ran (c(m_dst m := None)) \<subseteq> ran c" by (auto simp: ran_def)
  with 2 show ?case by (cases "c (m_dst m)") (auto intro: ranI simp del: fun_upd_apply)
qed simp

section \<open>Memory of unknown size\<close>

text \<open>For the size -1 the total size of the message is 31, less than its header.\<close>

definition sizeless :: "64 word \<Rightarrow> 64 word \<Rightarrow> netmsg" where
  "sizeless p dst = \<lparr>msg_type = 1, m_src = p, m_dst = dst, m_extra = - 1\<rparr>"

lemma sizeless_total: "total_msg_sz (sizeless p dst) = 31" "\<not> below_total 32 (total_msg_sz (sizeless p dst))"
  by (simp_all add: total_msg_sz_def sizeless_def below_total_def)

lemma sizeless_sent:
  fixes sk :: "'a sockbuf_scheme"
  assumes "length (sk_out_buf sk) = 128" and "\<forall>bs. sr_ret (os (Sys_write (sk_s sk) bs # tr)) = 32"
  shows "NetSocket_SendRaw os mem (load_msg (sizeless p dst) sk) tr =
     (0, (load_msg (sizeless p dst) sk)\<lparr>sk_out_offset := 32\<rparr>, Sys_write (sk_s sk) (NetMsg_bytes (sizeless p dst)) # tr)"
proof -
  let ?m = "sizeless p dst" and ?sk = "load_msg (sizeless p dst) sk"
  let ?tr = "Sys_write (sk_s sk) (NetMsg_bytes ?m) # tr"
  have out: "take 32 (sk_out_buf ?sk) = NetMsg_bytes ?m" "sk_out_offset ?sk = 0" "sk_s ?sk = sk_s sk"
    using assms(1) by (simp_all add: load_msg_def store_at_def)
  have h: "below_header 0" "\<not> below_header 32" by (simp_all add: below_header_def)
  have "send_header os ?sk 0 tr = (False, 32, ?tr)"
    using assms(2) h(1) out by (simp add: send_header_def write_some_def)
  moreover have "send_payload os mem ?sk ?m 32 ?tr = (False, 32, ?tr)"
    using h(2) sizeless_total(2) by (simp add: send_payload_def)
  ultimately show ?thesis
    using out of_bytes_header [OF out(1)] sizeless_total(2) by (simp add: NetSocket_SendRaw_def Let_def)
qed

text \<open>A header that announces no more than itself is a complete message.\<close>

lemma sizeless_received:
  assumes "sk_in_offset sk = 0" and "length (sk_in_buf sk) = 128"
    and "sr_ret (os (Sys_read (sk_s sk) 32 # tr)) = 32" and "sr_data (os (Sys_read (sk_s sk) 32 # tr)) = NetMsg_bytes (sizeless p dst)"
  shows "NetSocket_RecvRaw os u mem sk tr =
     (0, sk\<lparr>sk_in_buf := NetMsg_bytes (sizeless p dst) @ drop 32 (sk_in_buf sk), sk_in_offset := 0\<rparr>, mem, Sys_read (sk_s sk) 32 # tr)"
proof -
  have "\<not> below_header 32" "below_header 0" by (simp_all add: below_header_def)
  with assms sizeless_total(2) [of p dst] show ?thesis
    by (simp add: NetSocket_RecvRaw_def recv_header_def recv_payload_def read_some_def store_at_def NetMsg_of_bytes_append Let_def)
qed

section \<open>Properties\<close>

text \<open>C31: An unreachable machine ends the process. Let a message be sent to a machine that no socket is
  connected to and whose kernel refuses the connection at once, with whatever error. SendMsg
  returns 0: the socket has been closed, the message is buffered for it, and the send task is
  queued; the error event waits in the socket's context, which no thread is in. When
  the worker runs the task, it finds the event, and the device answers it with LOG(FATAL).\<close>

theorem refused_connection_ends_process:
  assumes "grants E" and "opens_sockets E" and "closes E" and "refuses E e" and "roomy M T w" and "table_ok E w"
    and "NetDevice_Token2Socket (m_dst m) w = None"
    and "entry_for w (u_Token2Ip (env_user E) (m_dst m)) = None"
  shows "\<exists>w' s'. NetDevice_SendMsg E (dispatch E) m w = Inr (0, w') \<and> w_socks w' (w_nsocks w) = Some s' \<and>
     sk_state s' = kNetSockStateDone \<and> sk_s s' = - 1 \<and> mail_are w' (M(w_nsocks w := [m])) \<and>
     tasks_are w' (T(nat (w_cur_worker w) := T (nat (w_cur_worker w)) @ [TaskItem (w_nsocks w) TkSend])) \<and>
     run_task E (Suc (Suc n)) (w_nsocks w) TkSend w' = Inl (LogFatal ''Unexpected Run'')"
proof -
  let ?i = "w_nsocks w" and ?k = "nat (w_cur_worker w)" and ?w1 = "routed_world E (m_dst m) w"
  from assms(5) have r: "w_socks w ?i = None" "0 \<le> w_cur_worker w" "w_cur_worker w < int kNetWorkerNum" "mail_are w M"
    "length (w_workers w) = kNetWorkerNum" unfolding roomy_def by blast+
  have route: "route E (m_dst m) w = Inr (?i, ?w1)" using route_fresh [OF assms(6-8) r(2,3)] by simp
  have idle: "NetSocket_IsIdle ?i ?w1 = Inr True"
    by (simp add: NetSocket_IsIdle_def IsIdle_live routed_simps init_sock_def)
  obtain w4 s4 where w4: "andThen (NetSocket_Start E (dispatch E) ?i AF_INET SOCK_STREAM 0 ?w1) (\<lambda>(_, w). NetSocket_Connect E (dispatch E) ?i w) = Inr w4"
     "failed ?i s4 w4" "sk_worker s4 = ?k" "tasks_are w4 T" "mail_are w4 M" "w_next w4 (TaskItem ?i TkSend) = NOT_IN_QUEUE"
     "length (w_workers w4) = length (w_workers w)"
    using refused_start [OF assms(1-5), of "m_dst m"] by blast
  note f = w4(2) [unfolded failed_def]
  obtain w5 nx q where w5: "NetSocket_AsyncSendMsg E ?i m w4 = Inr w5" "mail_are w5 (M(?i := M ?i @ [m]))"
     "tasks_are w5 (T(?k := T ?k @ [TaskItem ?i TkSend]))"
     "only_tasks (enqueued ?i s4 m nx q w4) w5" "\<And>x. \<not> is_msg x \<Longrightarrow> nx x = w_next w4 x"
    using AsyncSendMsg_law [OF _ _ w4(4,5) assms(1), of ?i s4 m] f w4(3,6) by (auto simp: appended_def)
  note same = only_tasks_simps [OF w5(4)]
  have ev: "w_next w5 (EvItem v) = w_next w4 (EvItem v)" for v using same(10) [of "EvItem v"] w5(5) by simp
  have "failed ?i (s4\<lparr>sk_msgq := q\<rparr>) w5" using f by (simp add: failed_def same ev device_up_def)
  moreover from this have "w_socks w5 ?i = Some (s4\<lparr>sk_msgq := q\<rparr>)" "sk_state (s4\<lparr>sk_msgq := q\<rparr>) = kNetSockStateDone" "sk_s (s4\<lparr>sk_msgq := q\<rparr>) = - 1"
    by (simp_all add: failed_def)
  ultimately show ?thesis
    using SendMsg_route [OF route idle w4(1) w5(1)] w5(2,3) no_mail_for_new [OF r(4,1)] failed_task_aborts
    by (intro exI [of _ w5] exI [of _ "s4\<lparr>sk_msgq := q\<rparr>"]) simp
qed

text \<open>A kernel that answers every attempt to connect with \<open>ENETUNREACH\<close>.\<close>

definition unreachable_env :: env where
  "unreachable_env = \<lparr>env_os = (\<lambda>tr. case tr of Sys_connect f a # _ \<Rightarrow> syserr 101 | _ \<Rightarrow> kind_os tr), env_user = plain_user\<rparr>"

lemma unreachable_ok: "grants unreachable_env" "opens_sockets unreachable_env" "closes unreachable_env" "refuses unreachable_env 101"
  by (simp_all add: grants_def can_signal_def sets_flags_def opens_sockets_def socket_fd_def closes_def refuses_def unreachable_env_def
      sysret_def syserr_def le_bytes_def)

theorem refused_connection_ends_process_witness:
  "\<exists>w'. NetDevice_SendMsg unreachable_env (dispatch unreachable_env) sample_cmd no_socks_world = Inr (0, w') \<and>
     run_task unreachable_env 2 2 TkSend w' = Inl (LogFatal ''Unexpected Run'')"
proof -
  have "table_ok unreachable_env no_socks_world" using no_socks_ok(2) by (simp add: table_ok_def dialing_env_def unreachable_env_def)
  from refused_connection_ends_process [OF unreachable_ok no_socks_ok(1) this no_socks_ok(3,4), of sample_cmd 0] show ?thesis
    unfolding no_socks_ok(5) numeral_2_eq_2 by blast
qed

text \<open>C33: The second reader of a token gets no answer. Two reads of the same token are made, the second
  before the first is complete. Both calls return 0 and both commands are buffered; but the callback of the
  second read is thrown away: only the first one waits for the token, so that whatever data
  arrives, the second callback is never queued, unless it waits for another token.\<close>

theorem second_reader_gets_no_answer:
  assumes "serving i s M w" and "f_state (sk_fsm s) = kNetFsmStateActive" and "NetDevice_Token2Socket src w = Some i"
    and "tasks_are w T" and "grants E" and "dv_token2callback (w_dev w) src = None"
    and "g \<noteq> f" and "g \<notin> ran (dv_token2callback (w_dev w))"
  shows "\<exists>w1 w2 s2. NetDevice_ReadData E (dispatch E) src dst f w = Inr (0, w1) \<and> NetDevice_ReadData E (dispatch E) src dst' g w1 = Inr (0, w2) \<and>
     serving i s2 (M(i := M i @ [\<lparr>msg_type = 0, m_src = dst, m_dst = src, m_extra = word_of_int kNetMsgCmdRead\<rparr>,
                                \<lparr>msg_type = 0, m_src = dst', m_dst = src, m_extra = word_of_int kNetMsgCmdRead\<rparr>])) w2 \<and>
     dv_token2callback (w_dev w2) = (dv_token2callback (w_dev w))(src \<mapsto> f) \<and>
     (\<forall>ms. g \<notin> set (completions ms (dv_token2callback (w_dev w2))))"
proof -
  let ?c = "dv_token2callback (w_dev w)"
  obtain w1 s1 T1 where w1: "NetDevice_ReadData E (dispatch E) src dst f w = Inr (0, w1)" "serving i s1 (M(i := M i @ [read_msg src dst])) w1"
    "f_state (sk_fsm s1) = kNetFsmStateActive" "tasks_are w1 T1" "NetDevice_Token2Socket src w1 = Some i"
    "dv_token2callback (w_dev w1) = waits_for src f ?c"
    using ReadData_law [OF assms(1-5)] by blast
  obtain w2 s2 where w2: "NetDevice_ReadData E (dispatch E) src dst' g w1 = Inr (0, w2)"
    "serving i s2 ((M(i := M i @ [read_msg src dst]))(i := (M(i := M i @ [read_msg src dst])) i @ [read_msg src dst'])) w2"
    "dv_token2callback (w_dev w2) = waits_for src g (waits_for src f ?c)"
    using ReadData_law [OF w1(2,3,5,4) assms(5)] w1(6) by metis
  have c: "dv_token2callback (w_dev w2) = ?c(src \<mapsto> f)" using assms(6) by (simp add: w2(3) waits_for_def)
  have "ran (?c(src \<mapsto> f)) = insert f (ran ?c)" using assms(6) by (simp add: ran_map_upd)
  then have "g \<notin> set (completions ms (?c(src \<mapsto> f)))" for ms
    using completions_waiting [of ms "?c(src \<mapsto> f)"] assms(7,8) by auto
  moreover have "serving i s2 (M(i := M i @ [read_msg src dst, read_msg src dst'])) w2" using w2(2) by simp
  ultimately show ?thesis using w1(1) w2(1) c unfolding read_msg_def by metis
qed

theorem second_reader_gets_no_answer_witness:
  "\<exists>w1 w2. NetDevice_ReadData kind_env (dispatch kind_env) 8192 5 1 linked_world = Inr (0, w1) \<and>
     NetDevice_ReadData kind_env (dispatch kind_env) 8192 6 2 w1 = Inr (0, w2) \<and> (\<forall>ms. 2 \<notin> set (completions ms (dv_token2callback (w_dev w2))))"
proof -
  note l = linked_ready [unfolded sender_ready_def]
  have c: "dv_token2callback (w_dev linked_world) = Map.empty"
    by (simp add: linked_world_def ready_world_def device_set_up_def new_world_def new_device_def)
  have t: "NetDevice_Token2Socket 8192 linked_world = Some 1" by (simp add: NetDevice_Token2Socket_def linked_world_def)
  from second_reader_gets_no_answer [OF _ _ t linked_tasks boots_grants(1) [OF kind_boots], of ready_sock "\<lambda>_. []" 2 1 5 6] l c show ?thesis by auto
qed

text \<open>C34: A size that is not known completes a read without data. \<open>device.h\<close> says that \<open>Token2DptrSize\<close> returns
  -1 for a token it does not know; SendData refuses only the size 0. It returns 0 and buffers a
  data message of size -1. When the message is sent, it is complete once its header is
  written (the total size is 31); and the receiving process, having read that header,
  queues the callback that waits for the data, though no byte of memory has changed.\<close>

theorem unknown_size_completes_read:
  assumes "serving i s M w" and "f_state (sk_fsm s) = kNetFsmStateActive" and "NetDevice_Token2Socket dst w = Some i"
    and "tasks_are w T" and "grants E" and "u_Token2Dptr (env_user E) src \<noteq> 0" and "u_Token2DptrSize (env_user E) src = - 1"
    and "m = \<lparr>msg_type = 1, m_src = u_Token2Dptr (env_user E) src, m_dst = dst, m_extra = - 1\<rparr>"
    and "length (sk_out_buf sk) = 128" and "\<forall>bs. sr_ret (os (Sys_write (sk_s sk) bs # tr)) = 32"
    and "receiver_ready k t L v" and "dv_token2callback (w_dev v) dst = Some f"
    and "sr_ret (env_os F (Sys_read (sk_s t) 32 # w_trace v)) = 32" and "sr_data (env_os F (Sys_read (sk_s t) 32 # w_trace v)) = NetMsg_bytes m"
  shows "(\<exists>w1 s1. NetDevice_SendData E (dispatch E) src dst w = Inr (0, w1) \<and> serving i s1 (M(i := M i @ [m])) w1) \<and>
     NetSocket_SendRaw os mem (load_msg m sk) tr = (0, (load_msg m sk)\<lparr>sk_out_offset := 32\<rparr>, Sys_write (sk_s sk) (NetMsg_bytes m) # tr) \<and>
     (\<exists>v'. run_fd F (Suc (Suc (Suc n))) k kNetPollerIn v = Inr v' \<and> w_mem v' = w_mem v \<and>
        ch_val (dv_cq (w_dev v')) = ch_val (dv_cq (w_dev v)) @ [f])"
proof (intro conjI)
  have m: "m = sizeless (u_Token2Dptr (env_user E) src) dst" "m = data_msg (env_user E) src dst"
    using assms(7,8) by (simp_all add: sizeless_def data_msg_def)
  note v = assms(11) [unfolded receiver_ready_def]
  have "w_socks w i = Some s" using assms(1) by (simp add: serving_def at_rest_def)
  with SendData_known [OF assms(6) _ assms(3)] assms(2,7)
  have "NetDevice_SendData E (dispatch E) src dst w = andThen (NetSocket_AsyncSendMsg E i m w) (\<lambda>w. Inr (0, w))" by (simp add: m(2))
  with send_to_serving [OF assms(1,4,5), of m]
  show "\<exists>w1 s1. NetDevice_SendData E (dispatch E) src dst w = Inr (0, w1) \<and> serving i s1 (M(i := M i @ [m])) w1" by auto
  show "NetSocket_SendRaw os mem (load_msg m sk) tr = (0, (load_msg m sk)\<lparr>sk_out_offset := 32\<rparr>, Sys_write (sk_s sk) (NetMsg_bytes m) # tr)"
    unfolding m(1) by (rule sizeless_sent [OF assms(9,10)])
  let ?b = "(sockbuf.truncate t)\<lparr>sk_in_buf := NetMsg_bytes m @ drop 32 (sk_in_buf t), sk_in_offset := 0\<rparr>"
  have raw: "NetSocket_RecvRaw (env_os F) (env_user F) (w_mem v) (sockbuf.truncate t) (w_trace v) = (0, ?b, w_mem v, Sys_read (sk_s t) 32 # w_trace v)"
    using sizeless_received [of "sockbuf.truncate t" "env_os F" "w_trace v"] v assms(13,14) unfolding m(1) by simp
  have x: "NetSocket_ExtractNetMsg ?b = m" by (rule header_extracted)
  obtain v' s' where v': "run_fd F (Suc (Suc (Suc n))) k kNetPollerIn v = Inr v'"
    "v' = (after_read_of k s' (w_mem v) (Sys_read (sk_s t) 32 # w_trace v) v)\<lparr>w_dev := read_done 0 m (w_dev v)\<rparr>"
    using in_event_section [OF _ raw, of k L n] v unfolding x by (auto simp: assms(8))
  have "ch_val (dv_cq (read_done 0 m (w_dev v))) = ch_val (dv_cq (w_dev v)) @ [f]"
    using v assms(8,12) by (simp add: read_done_def finish_read_def Channel_Send_def)
  with v' show "\<exists>v'. run_fd F (Suc (Suc (Suc n))) k kNetPollerIn v = Inr v' \<and> w_mem v' = w_mem v \<and>
        ch_val (dv_cq (w_dev v')) = ch_val (dv_cq (w_dev v)) @ [f]"
    by (intro exI [of _ v']) (simp add: after_read_of_def)
qed

definition sizeless_env :: env where
  "sizeless_env = \<lparr>env_os = kind_os, env_user = plain_user\<lparr>u_Token2DptrSize := (\<lambda>_. - 1)\<rparr>\<rparr>"

theorem unknown_size_completes_read_witness:
  "\<exists>w1 v'. NetDevice_SendData sizeless_env (dispatch sizeless_env) 4096 8192 linked_world = Inr (0, w1) \<and>
     run_fd (header_env (sizeless 4096 8192)) 3 1 kNetPollerIn waiting_world = Inr v' \<and> ch_val (dv_cq (w_dev v')) = [77]"
proof -
  note l = linked_ready [unfolded sender_ready_def]
  let ?F = "header_env (sizeless 4096 8192)"
  have E: "grants sizeless_env"
    using boots_grants(1) [OF kind_boots] by (simp add: grants_def can_signal_def sets_flags_def sizeless_env_def kind_env_def)
  have t: "NetDevice_Token2Socket 8192 linked_world = Some 1" by (simp add: NetDevice_Token2Socket_def linked_world_def)
  have u: "u_Token2Dptr (env_user sizeless_env) 4096 = 4096" "u_Token2Dptr (env_user sizeless_env) 4096 \<noteq> 0"
     "u_Token2DptrSize (env_user sizeless_env) 4096 = - 1" by (simp_all add: sizeless_env_def plain_user_def)
  have m: "sizeless 4096 8192 = \<lparr>msg_type = 1, m_src = u_Token2Dptr (env_user sizeless_env) 4096, m_dst = 8192, m_extra = - 1\<rparr>"
    by (simp add: sizeless_def u)
  have c: "dv_token2callback (w_dev waiting_world) 8192 = Some 77" "ch_val (dv_cq (w_dev waiting_world)) = []"
    by (simp_all add: waiting_world_def ready_world_def device_set_up_def new_world_def new_device_def Channel_new_def)
  have F: "sr_ret (env_os ?F (Sys_read (sk_s ready_sock) 32 # tr)) = 32" "sr_data (env_os ?F (Sys_read (sk_s ready_sock) 32 # tr)) = NetMsg_bytes (sizeless 4096 8192)" for tr
    by (simp_all add: header_env_def sysret_def)
  have o: "length (sk_out_buf (fresh_sock 9)) = 128" "\<forall>bs. sr_ret ((\<lambda>_. sysret 32) (Sys_write (sk_s (fresh_sock 9)) bs # [])) = 32"
    by (simp_all add: sysret_def)
  have s: "serving 1 ready_sock (\<lambda>_. []) linked_world" "f_state (sk_fsm ready_sock) = kNetFsmStateActive" using l by simp_all
  from unknown_size_completes_read [OF s t linked_tasks E u(2,3) m o waiting_ready c(1) F, where n = 0 and mem = "\<lambda>_. 0"]
  show ?thesis unfolding c(2) numeral_3_eq_3 append_Nil by blast
qed

section \<open>Events that a state does not expect\<close>

text \<open>C40: An unexpected event runs the next state's case. No case of the handler ends in a break, and
  \<open>kLibMsgFsmError\<close> only prints. An input event of a socket that is still connecting prints two lines and is
  then handled as that of an active socket, which reads a message; the action Connect on an idle
  socket prints two lines and is then handled as that of a socket that has been started. The labels of the
  printed lines are swapped: the state is printed as the source, the source as the state.\<close>

theorem unexpected_event_runs_next_case:
  assumes "w_socks w i = Some s"
  shows "(sk_state s = kNetSockStateConnecting \<longrightarrow> NetSocketHandler E run i kNetSockSrcFd kNetWorkerFdIn p w = active_in E i
      (w\<lparr>w_log := \<lparr>el_text = ''Unexpected source'', el_src = kNetSockStateConnecting, el_state = kNetSockSrcFd, el_type = kNetWorkerFdIn\<rparr> #
                  \<lparr>el_text = ''Unexpected action'', el_src = kNetSockStateConnecting, el_state = kNetSockSrcFd, el_type = kNetWorkerFdIn\<rparr> # w_log w\<rparr>)) \<and>
    (sk_state s = kNetSockStateIdle \<longrightarrow> NetSocketHandler E run i kNetFsmAction kNetSockActionConnect p w = set_state i kNetSockStateConnecting
      (w\<lparr>w_log := \<lparr>el_text = ''Unexpected source'', el_src = kNetSockStateIdle, el_state = kNetFsmAction, el_type = kNetSockActionConnect\<rparr> #
                  \<lparr>el_text = ''Unexpected action'', el_src = kNetSockStateIdle, el_state = kNetFsmAction, el_type = kNetSockActionConnect\<rparr> # w_log w\<rparr>))"
  using assms
  by (simp add: NetSocketHandler_def NetSocket_InternalTasks_def live from_connecting_def case_connecting_def from_active_def case_active_def
      from_idle_def case_idle_def from_starting_def case_starting_def unexpected_action_def unexpected_source_def NetFsmBadAction_def
      NetFsmBadSource_def kLibMsgFsmError_def Let_def)

definition early_world :: world where
  "early_world = (ready_world (\<lambda>_. 0))\<lparr>w_socks := [1 \<mapsto> ready_sock\<lparr>sk_state := kNetSockStateConnecting\<rparr>]\<rparr>"

theorem unexpected_event_runs_next_case_witness:
  "NetSocketHandler kind_env (dispatch kind_env) 1 kNetSockSrcFd kNetWorkerFdIn PNull early_world = active_in kind_env 1
     (early_world\<lparr>w_log := [\<lparr>el_text = ''Unexpected source'', el_src = 5, el_state = 1, el_type = 1\<rparr>,
                            \<lparr>el_text = ''Unexpected action'', el_src = 5, el_state = 1, el_type = 1\<rparr>]\<rparr>)"
proof -
  have "w_socks early_world 1 = Some (ready_sock\<lparr>sk_state := kNetSockStateConnecting\<rparr>)" "w_log early_world = []"
    by (simp_all add: early_world_def ready_world_def device_set_up_def new_world_def)
  with unexpected_event_runs_next_case [of early_world 1 "ready_sock\<lparr>sk_state := kNetSockStateConnecting\<rparr>" kind_env "dispatch kind_env" PNull]
  show ?thesis by simp
qed

end
