(* ===== verification/Netintact.thy ===== *)
theory Netintact
  imports Netsystem
begin

text \<open>
  The queues of all reachable states. \<open>sound\<close> puts consistency (\<open>world_ok\<close>) and intact queues together; it is the second instance
  of the interface of \<open>Netpreserve\<close>.
\<close>

section \<open>Making and removing objects\<close>

lemma intact_create:
  assumes w: "world_ok w" and i: "intact L w"
  shows "after (intact L) (NetSocket_Init (w_nsocks w) src owner a ((snd (new_sock w))\<lparr>w_dev := d\<rparr>))"
proof -
  let ?n = "w_nsocks w"
  from i obtain ls where ls: "lists_ok L w ls" by (auto simp: intact_def)
  have "w_next w x = NOT_IN_QUEUE" if "item_of ?n x" for x
    using lists_okD(4) [OF ls, of x] that by (cases "(?n, x)" rule: item_of.cases) auto
  then have nx: "(\<lambda>x. if item_of ?n x then NOT_IN_QUEUE else w_next w x) = w_next w" by auto
  have none: "w_socks w ?n = None" using w by (cases "w_socks w ?n") (auto simp: world_ok_def)
  let ?w = "w\<lparr>w_socks := (w_socks w)(?n \<mapsto> init_sock ?n src owner a (nat (w_cur_worker w)) NetSocket_new), w_nsocks := Suc ?n,
      w_dev := d, w_cur_worker := next_worker (w_cur_worker w), w_next := w_next w\<rparr>"
  have "place_queue ?w e = place_queue w e" for e
    by (cases e) (auto simp: none init_sock_def NetSocket_new_def NetQueue_Init_def)
  then have "intact L ?w" by (rule intact_frame [OF i]) simp_all
  then show ?thesis unfolding create_law [OF w] nx by (rule after_Inr)
qed

lemma NetQueue_Terminate_Init: "NetQueue_Terminate q = NetQueue_Init"
  by (cases q) (simp add: NetQueue_Terminate_def NetQueue_Init_def)

lemma intact_cleanup:
  assumes i: "intact L w" and len: "length (w_workers w) = kNetWorkerNum"
  shows "after (intact L) (NetWorker_Terminate_cleanup E k w)"
proof (rule afterI)
  fix w' assume "NetWorker_Terminate_cleanup E k w = Inr w'"
  then obtain tr where k: "k < length (w_workers w)" and w': "w' = w\<lparr>w_trace := tr,
      w_workers := (w_workers w)[k := (w_workers w ! k)\<lparr>wk_efd := - 1, wk_tasks := NetQueue_Init\<rparr>]\<rparr>"
    by (auto simp: NetWorker_Terminate_cleanup_def andThen_eq_Inr_iff upd_worker_def get_worker_def NetEventFd_Terminate_def
        NetQueueItem_Terminate_def NetQueue_Terminate_Init split: if_splits)
  from i obtain ls where ls: "lists_ok L w ls" by (auto simp: intact_def)
  have "\<not> staffed w'" using k by (auto simp: staffed_def w' image_iff in_set_conv_nth intro!: exI [of _ k] bexI)
  moreover have "queue_rep (w_next w') (queue_at L w' a) ((ls(In (Tasks k) := [])) a)" for a
  proof (cases "a = In (Tasks k)")
    case True
    then show ?thesis using k Init_rep by (simp add: w')
  next
    case False
    have "place_queue w' d = place_queue w d" if "d \<noteq> Tasks k" for d using that by (cases d) (auto simp: w')
    with False have "queue_at L w' a = queue_at L w a" by (cases a) auto
    with False lists_okD(1) [OF ls, of a] show ?thesis by (simp add: w')
  qed
  moreover have "known x w' = known x w" for x by (cases "(x, w)" rule: known.cases) (simp_all add: w')
  ultimately have "lists_ok L w' (ls(In (Tasks k) := []))"
    using ls by (auto simp: lists_ok_def w')
  then show "intact L w'" by (rule intactI)
qed

lemma intact_delete:
  assumes i: "intact L w"
  shows "intact L (w\<lparr>w_socks := (w_socks w)(i := None)\<rparr>)"
proof -
  let ?w = "w\<lparr>w_socks := (w_socks w)(i := None)\<rparr>" and ?gone = "{In (Events i), In (Eventsto i), In (Msgs i)}"
  from i obtain ls where ls: "lists_ok L w ls" by (auto simp: intact_def)
  let ?ls = "\<lambda>a. if a \<in> ?gone then [] else ls a"
  have "queue_rep (w_next ?w) (queue_at L ?w a) (?ls a)" for a
  proof (cases "a \<in> ?gone")
    case True
    then show ?thesis using Init_rep by auto
  next
    case False
    have "place_queue ?w d = place_queue w d" if "In d \<notin> ?gone" for d using that by (cases d) auto
    with False have "queue_at L ?w a = queue_at L w a" by (cases a) auto
    with False lists_okD(1) [OF ls, of a] show ?thesis by simp
  qed
  moreover have "\<exists>a. x \<in> set (?ls a)" if "staffed w" "is_task x" "w_next w x \<noteq> NOT_IN_QUEUE" for x
  proof -
    from lists_okD(5) [OF ls that] obtain a where a: "x \<in> set (ls a)" by blast
    with lists_okD(3) [OF ls a] that(2) have "a \<notin> ?gone" by (cases x) auto
    with a show ?thesis by (intro exI [of _ a]) simp
  qed
  moreover have "known x ?w = known x w" for x by (cases "(x, w)" rule: known.cases) simp_all
  moreover have "staffed ?w = staffed w" by (simp add: staffed_def)
  ultimately have "lists_ok L ?w ?ls" using ls by (auto simp: lists_ok_def)
  then show ?thesis by (rule intactI)
qed

text \<open>Both together are what the steps keep.\<close>

definition sound :: "held \<Rightarrow> world \<Rightarrow> bool" where
  "sound L w \<longleftrightarrow> world_ok w \<and> intact L w"

lemma after_sound:
  "after world_ok m \<Longrightarrow> after (intact L) m \<Longrightarrow> after (sound L) m"
  "after (\<lambda>(x, w). world_ok w) m1 \<Longrightarrow> after (\<lambda>(x, w). intact L w) m1 \<Longrightarrow> after (\<lambda>(x, w). sound L w) m1"
  by (auto simp: after_def sound_def split: prod.splits)

text \<open>Workers, sockets and links as before: so are the queues.\<close>

lemma place_queue_same: "w_workers w' = w_workers w \<Longrightarrow> w_socks w' = w_socks w \<Longrightarrow> place_queue w' d = place_queue w d"
  by (cases d) simp_all

lemma sound_same:
  "sound L w \<Longrightarrow> world_ok w' \<Longrightarrow> w_workers w' = w_workers w \<Longrightarrow> w_socks w' = w_socks w \<Longrightarrow> w_next w' = w_next w \<Longrightarrow>
   w_nsocks w' = w_nsocks w \<Longrightarrow> w_nwraps w \<le> w_nwraps w' \<Longrightarrow> sound L w'"
  using intact_frame [of L w w'] place_queue_same [of w' w] by (simp add: sound_def)

lemma sound_ok: "sound L w \<Longrightarrow> world_ok w" "sound L w \<Longrightarrow> intact L w"
  by (simp_all add: sound_def)

lemma sound_worker:
  assumes "sound L w" and "k < length (w_workers w)" and "wk_tasks wk = wk_tasks (w_workers w ! k)" and "wk_efd wk = wk_efd (w_workers w ! k)"
  shows "sound L (w\<lparr>w_workers := (w_workers w)[k := wk]\<rparr>)"
proof -
  have "place_queue (w\<lparr>w_workers := (w_workers w)[k := wk]\<rparr>) d = place_queue w d" for d
    using assms by (cases d) (auto simp: nth_list_update)
  then show ?thesis
    using inv.worker [of w k wk] intact_frame [of L w "w\<lparr>w_workers := (w_workers w)[k := wk]\<rparr>"] assms
    by (simp add: sound_def map_update list_update_same_conv)
qed

lemma sound_sock:
  assumes "sound L w" and "w_socks w i = Some s" and "calm s s'"
  shows "sound L (w\<lparr>w_socks := (w_socks w)(i \<mapsto> s')\<rparr>)"
proof -
  have "place_queue (w\<lparr>w_socks := (w_socks w)(i \<mapsto> s')\<rparr>) d = place_queue w d" for d
    using assms(2,3) by (cases d) (simp_all add: calm_def)
  then show ?thesis unfolding sound_def
    by (intro conjI inv.sock [OF sound_ok(1) [OF assms(1)] assms(2,3)] intact_frame [OF sound_ok(2) [OF assms(1)]]) simp_all
qed

lemma sound_order:
  assumes "sound L w" and "suits (Tasks k) x" and "known x w"
  shows "after (sound L) (order_task E k x w)"
proof -
  have push: "after (intact L) (push_on x (get_tasks k) (put_tasks k) w)"
    using intact_push [of L w "Tasks k" x] assms by (simp add: sound_def)
  have trace: "intact L v \<Longrightarrow> intact L (v\<lparr>w_trace := tr\<rparr>)" for v tr
    by (erule intact_frame) (rule place_queue_same | simp)+
  have "after (intact L) (order_task E k x w)"
    unfolding order_task_def by (rule after_andThen [OF push]) (auto simp: after_def dest!: signal_effect intro: trace)
  with world_ok_order [of w E k x] assms(1) show ?thesis by (intro after_sound) (simp_all add: sound_def)
qed

lemma sound_pop_held:
  assumes "sound L w" and "L j = Some (d, q)"
  shows "after (\<lambda>(x, q', w). sound (L(j := if x = None then None else Some (d, q'))) w) (pop_local q w)"
  using assms world_ok_queues(3) [of w q] intact_pop_held [of L w j d q]
  by (auto simp: sound_def after_def)

lemma sound_message:
  assumes "sound L w"
  shows "sound L (w\<lparr>w_wraps := ws, w_nwraps := Suc (w_nwraps w), w_next := (w_next w)(MsgItem (w_nwraps w) := NOT_IN_QUEUE)\<rparr>)"
proof -
  from assms obtain ls where ls: "lists_ok L w ls" by (auto simp: sound_def intact_def)
  have "w_next w (MsgItem (w_nwraps w)) = NOT_IN_QUEUE" using lists_okD(4) [OF ls, of "MsgItem (w_nwraps w)"] by auto
  then have "(w_next w)(MsgItem (w_nwraps w) := NOT_IN_QUEUE) = w_next w" by (simp add: fun_upd_idem)
  then show ?thesis using inv.message [of w ws] sound_ok(1) [OF assms] by (intro sound_same [OF assms]) simp_all
qed

lemma sound_world: "world_pred sound"
proof (unfold_locales, goal_cases)
  case (1 L w w') then show ?case using inv.frame [of w w'] by (intro sound_same [OF 1(1)]) (simp_all add: sound_def)
next
  case (2 L w k wk) then show ?case by (rule sound_worker)
next
  case (3 L w i s s') then show ?case by (rule sound_sock)
next
  case (4 L w g) then show ?case using inv.machine [of w g] by (intro sound_same [OF 4]) (simp_all add: sound_def upd_dev_def)
next
  case (5 L w c) then show ?case using inv.cur [of w c] by (intro sound_same [OF 5(1)]) (simp_all add: sound_def)
next
  case (6 L w i s) then show ?case using inv.made by (auto simp: sound_def)
next
  case (7 L w d x) then show ?case by (intro after_sound inv.push intact_push) (auto simp: sound_def)
next
  case (8 L w k x E) then show ?case by (rule sound_order)
next
  case (9 L w d) then show ?case by (intro after_sound inv.pop intact_pop) (auto simp: sound_def)
next
  case (10 L w d j q) then show ?case by (intro after_sound world_ok_put intact_take) (auto simp: sound_def)
next
  case (11 L w d j q) then show ?case by (intro sound_pop_held)
next
  case (12 L w E k) then show ?case
    by (intro after_sound world_ok_cleanup intact_cleanup) (auto simp: sound_def world_ok_def)
next
  case (13 L w ws) then show ?case by (rule sound_message)
qed

lemma sound_device: "device_pred sound"
proof (intro device_pred.intro sound_world, unfold_locales, goal_cases)
  case (1 L w d src owner a)
  then show ?case using world_ok_create [of w d src owner a] intact_create [of w L src owner a d]
    by (auto simp: sound_def after_def)
next
  case (2 L w i)
  then show ?case using inv.own [of w i] by (intro sound_same [OF 2(1)]) (simp_all add: sound_def insert_sock_def upd_dev_def)
next
  case (3 L w t i) then show ?case using inv.token_owned by (auto simp: sound_def)
next
  case (4 L w i t)
  then show ?case using inv.name_sock [of w i t] by (intro sound_same [OF 4(1)]) (simp_all add: sound_def emplace_sock_def upd_dev_def)
next
  case (5 L w i) then show ?case using inv.delete intact_delete by (auto simp: sound_def)
next
  case (6 L w f)
  then show ?case using inv.other_dev [of w f] by (intro sound_same [OF 6(1)]) (simp_all add: sound_def upd_dev_def)
qed

interpretation whole: thread_pred sound UNIV UNIV
proof (intro thread_pred.intro sound_device, unfold_locales)
  fix L w k j q
  assume "sound L w" "L j = None" "get_tasks k w = Inr q"
  then show "after (sound (L(j \<mapsto> (Tasks k, q)))) (put_tasks k NetQueue_Init w)"
    using intact_take [of L w j "Tasks k" q] world_ok_put [of w "Tasks k" NetQueue_Init] by (intro after_sound) (simp_all add: sound_def)
qed (rule sound_pop_held)

lemma sound_first:
  assumes u: "unused w"
  shows "sound Map.empty (w\<lparr>w_cur_worker := next_worker (w_cur_worker w), w_next := (\<lambda>_. NOT_IN_QUEUE),
      w_socks := [0 \<mapsto> init_sock 0 kNetDeviceSrcSocketEvent FDevice a (nat (w_cur_worker w)) NetSocket_new]\<rparr>)" (is "sound _ ?w")
proof -
  have "world_ok ?w" using u next_worker_range [of "w_cur_worker w"] by (auto simp: world_ok_def unused_def init_sock_def)
  moreover have "place_queue ?w d = NetQueue_Init" for d
    using u by (cases d) (auto simp: unused_def init_sock_def NetSocket_new_def NetQueue_Init_def)
  then have "queue_at Map.empty ?w a = NetQueue_Init" for a by (cases a) simp_all
  then have "lists_ok Map.empty ?w (\<lambda>_. [])" using Init_rep by (simp add: lists_ok_def)
  ultimately show ?thesis by (auto simp: sound_def intact_def)
qed

lemma sound_init:
  "after (\<lambda>(l, w). sound Map.empty w \<and> (\<forall>k < kNetWorkerNum. wk_tasks (w_workers w ! k) = NetQueue_Init)) (init_objects E (new_world mem))"
  by (rule init_objects_law) (simp add: sound_first, simp add: unused_def)

lemma reachable_sound: "reachable E mem s \<Longrightarrow> sound (held_by (fst s)) (snd s)"
  using sound_init by (intro whole.reachable_keeps) (auto simp: after_def)

end
