(* ===== verification/Netkept.thy ===== *)
theory Netkept
  imports Netintact
begin

text \<open>
  A queued task stays queued. That the queues are sound and a given task is marked as queued is
  kept by every step of the process but those in which a thread pops one of the tasks it has
  taken: the fourth instance of the interface of \<open>Netpreserve\<close>.
\<close>

section \<open>Marks of tasks\<close>

definition stays :: "qitem \<Rightarrow> held \<Rightarrow> world \<Rightarrow> bool" where
  "stays x L w \<longleftrightarrow> sound L w \<and> is_task x \<and> w_next w x \<noteq> NOT_IN_QUEUE"

lemma staysD: "stays x L w \<Longrightarrow> sound L w"
  by (simp add: stays_def)

lemma after_stays:
  "stays x L0 w0 \<Longrightarrow> after (sound L) m \<Longrightarrow> (\<And>w. m = Inr w \<Longrightarrow> w_next w x \<noteq> NOT_IN_QUEUE) \<Longrightarrow> after (stays x L) m"
  "stays x L0 w0 \<Longrightarrow> after (\<lambda>(y, w). sound L w) m1 \<Longrightarrow> (\<And>y w. m1 = Inr (y, w) \<Longrightarrow> w_next w x \<noteq> NOT_IN_QUEUE) \<Longrightarrow>
   after (\<lambda>(y, w). stays x L w) m1"
  by (auto simp: after_def stays_def)

lemma stays_same: "stays x L w \<Longrightarrow> sound L w' \<Longrightarrow> w_next w' x = w_next w x \<Longrightarrow> stays x L w'"
  by (simp add: stays_def)

lemma push_marks: "NetQueue_Push y q nx = Inr (q', nx') \<Longrightarrow> nx x \<noteq> NOT_IN_QUEUE \<Longrightarrow> nx' x \<noteq> NOT_IN_QUEUE"
  by (auto simp: NetQueue_Push_def Let_def split: if_splits nptr.splits)

lemma push_on_marks:
  "push_on y (get_place d) (put_place d) w = Inr w' \<Longrightarrow> w_next w x \<noteq> NOT_IN_QUEUE \<Longrightarrow> w_next w' x \<noteq> NOT_IN_QUEUE"
  by (auto simp: push_on_def andThen_eq_Inr_iff put_place_law(2) dest: push_marks)

lemma order_marks: "order_task E k y w = Inr w' \<Longrightarrow> w_next w x \<noteq> NOT_IN_QUEUE \<Longrightarrow> w_next w' x \<noteq> NOT_IN_QUEUE"
  using push_on_marks [of y "Tasks k" w _ x] by (auto simp: order_task_def andThen_eq_Inr_iff dest!: signal_effect)

text \<open>A pop takes the mark only from what it returns, which is an item of the queue.\<close>

lemma Pop_marks:
  assumes "queue_rep nx q ys" and "NetQueue_Pop q nx = Inr (y, q', nx')"
  shows "nx' x = nx x \<or> y = Some x \<and> x \<in> set ys"
proof (cases ys)
  case Nil
  with Pop_nil [of nx q] assms show ?thesis by simp
next
  case (Cons z zs)
  with Pop_cons_frame [of nx q z zs] assms show ?thesis by auto
qed

lemma local_suits: "local d \<Longrightarrow> suits d x \<Longrightarrow> \<not> is_task x"
  by (cases d; cases x) auto

lemma pop_from_marks:
  assumes "intact L w" and "local d" and "is_task x" and r: "pop_from (get_place d) (put_place d) w = Inr (y, w')"
  shows "w_next w' x = w_next w x"
proof -
  from assms(1) obtain ls where ls: "lists_ok L w ls" by (auto simp: intact_def)
  from r obtain q q' nx where "get_place d w = Inr q" and p: "NetQueue_Pop q (w_next w) = Inr (y, q', nx)"
    and "put_place d q' (w\<lparr>w_next := nx\<rparr>) = Inr w'" by (auto simp: pop_from_def andThen_eq_Inr_iff)
  then have "q = queue_at L w (In d)" "w_next w' = nx" using put_place_law(2) by (auto dest: get_place_queue)
  with Pop_marks [OF lists_okD(1) [OF ls, of "In d"], of y q' nx x] p lists_okD(3) [OF ls, of x "In d"] assms(2,3) local_suits
  show ?thesis by auto
qed

lemma pop_held_marks:
  assumes "intact L w" and "local d" and "is_task x" and j: "L j = Some (d, q)" and r: "pop_local q w = Inr (y, q', w')"
  shows "w_next w' x = w_next w x"
proof -
  from assms(1) obtain ls where ls: "lists_ok L w ls" by (auto simp: intact_def)
  from r obtain nx where p: "NetQueue_Pop q (w_next w) = Inr (y, q', nx)" "w_next w' = nx" by (auto simp: pop_local_def andThen_eq_Inr_iff)
  with Pop_marks [OF lists_okD(1) [OF ls, of "Var j"], of y q' nx x] j lists_okD(3) [OF ls, of x "Var j"] assms(2,3) local_suits
  show ?thesis by auto
qed

lemma cleanup_marks: "NetWorker_Terminate_cleanup E k w = Inr w' \<Longrightarrow> w_next w' = w_next w"
  by (auto simp: NetWorker_Terminate_cleanup_def andThen_eq_Inr_iff upd_worker_def get_worker_def NetQueueItem_Terminate_def split: if_splits)

section \<open>The instance\<close>

lemma stays_world: "world_pred (stays x)"
proof (unfold_locales, goal_cases)
  case (1 L w w')
  then show ?case using whole.frame [of L w w'] by (simp add: stays_def)
next
  case (2 L w k wk)
  from whole.worker [OF staysD [OF 2(1)] 2(2-4)] show ?case by (rule stays_same [OF 2(1)]) simp
next
  case (3 L w i s s')
  from whole.sock [OF staysD [OF 3(1)] 3(2,3)] show ?case by (rule stays_same [OF 3(1)]) simp
next
  case (4 L w g)
  from whole.machine [OF staysD [OF 4]] show ?case by (rule stays_same [OF 4]) (simp add: upd_dev_def)
next
  case (5 L w c)
  from whole.cur [OF staysD [OF 5(1)] 5(2,3)] show ?case by (rule stays_same [OF 5(1)]) simp
next
  case (6 L w i s) then show ?case using whole.made staysD by blast
next
  case (7 L w d y)
  from whole.push [OF staysD [OF 7(1)] 7(2-4)] show ?case
    by (rule after_stays(1) [OF 7(1)]) (use 7(1) push_on_marks in \<open>auto simp: stays_def\<close>)
next
  case (8 L w k y E)
  from whole.order [OF staysD [OF 8(1)] 8(2,3)] show ?case
    by (rule after_stays(1) [OF 8(1)]) (use 8(1) order_marks in \<open>auto simp: stays_def\<close>)
next
  case (9 L w d)
  have "w_next w' x = w_next w x" if "pop_from (get_place d) (put_place d) w = Inr (y, w')" for y w'
    using pop_from_marks [of L w d x y w'] that 9 by (simp add: stays_def sound_def)
  with 9(1) show ?case by (intro after_stays(2) [OF 9(1) whole.pop [OF staysD [OF 9(1)] 9(2)]]) (simp add: stays_def)
next
  case (10 L w d j q)
  from whole.take [OF staysD [OF 10(1)] 10(2-4)] show ?case
    by (rule after_stays(1) [OF 10(1)]) (use 10(1) in \<open>simp add: put_place_law(2) stays_def\<close>)
next
  case (11 L w d j q)
  have "w_next w' x = w_next w x" if "pop_local q w = Inr (y, q', w')" for y q' w'
    using pop_held_marks [of L w d x j q y q' w'] that 11 by (simp add: stays_def sound_def)
  with whole.pop_held [OF staysD [OF 11(1)] 11(2,3)] 11(1) show ?case by (auto simp: after_def stays_def)
next
  case (12 L w E k)
  from whole.cleanup [OF staysD [OF 12]] show ?case
    by (rule after_stays(1) [OF 12]) (use 12 cleanup_marks in \<open>auto simp: stays_def\<close>)
next
  case (13 L w ws)
  then have "x \<noteq> MsgItem (w_nwraps w)" by (auto simp: stays_def)
  with whole.message [OF staysD [OF 13]] show ?case by (intro stays_same [OF 13]) simp_all
qed

lemma stays_device: "device_pred (stays x)"
proof (intro device_pred.intro stays_world, unfold_locales, goal_cases)
  case (1 L w d src owner a)
  note s = staysD [OF 1(1)]
  from s obtain ls where "lists_ok L w ls" by (auto simp: sound_def intact_def)
  then have "known x w" using 1(1) lists_okD(4) by (auto simp: stays_def)
  then have "\<not> item_of (w_nsocks w) x" using 1(1) by (cases "(x, w)" rule: known.cases) (auto simp: stays_def)
  then have "w_next w' x = w_next w x" if "NetSocket_Init (w_nsocks w) src owner a ((snd (new_sock w))\<lparr>w_dev := d\<rparr>) = Inr w'" for w'
    using that unfolding create_law [OF sound_ok(1) [OF s]] by auto
  with whole.create [OF s 1(2), of src owner a] 1(1) show ?case by (auto simp: after_def stays_def)
next
  case (2 L w i)
  from whole.own [OF staysD [OF 2(1)] 2(2)] show ?case by (rule stays_same [OF 2(1)]) (simp add: insert_sock_def upd_dev_def)
next
  case (3 L w t i) then show ?case using whole.token_owned staysD by blast
next
  case (4 L w i t)
  from whole.name_sock [OF staysD [OF 4(1)] 4(2)] show ?case by (rule stays_same [OF 4(1)]) (simp add: emplace_sock_def upd_dev_def)
next
  case (5 L w i)
  from whole.delete [OF staysD [OF 5]] show ?case by (rule stays_same [OF 5]) simp
next
  case (6 L w f)
  from whole.other_dev [of L w f, OF staysD [OF 6(1)] 6(2,3)] show ?case by (rule stays_same [OF 6(1)]) (simp add: upd_dev_def)
qed

text \<open>Every worker may take its tasks, but none may pop one of them.\<close>

interpretation kept: thread_pred "stays x" UNIV "{}" for x
proof (intro thread_pred.intro stays_device, unfold_locales)
  fix L w k j q
  assume s: "stays x L w" and "L j = None" "get_tasks k w = Inr q"
  with whole.exchange [OF staysD [OF s] UNIV_I] have "after (sound (L(j \<mapsto> (Tasks k, q)))) (put_tasks k NetQueue_Init w)" by blast
  moreover have "w_next w' = w_next w" if "put_tasks k NetQueue_Init w = Inr w'" for w'
    using put_place_law(2) [of "Tasks k" NetQueue_Init w w'] that by simp
  ultimately show "after (stays x (L(j \<mapsto> (Tasks k, q)))) (put_tasks k NetQueue_Init w)"
    using s by (intro after_stays(1) [OF s]) (simp_all add: stays_def)
qed simp

section \<open>Where a task leaves its queue\<close>

text \<open>The thread \<open>u\<close> pops task \<open>t\<close> of socket \<open>i\<close>, in order to run it or to throw it away.\<close>

definition leaves :: "nat \<Rightarrow> tk \<Rightarrow> thread \<Rightarrow> world \<Rightarrow> thread \<Rightarrow> world \<Rightarrow> bool" where
  "leaves i t u w u' w' \<longleftrightarrow> (\<exists>q q'. pop_local q w = Inr (Some (TaskItem i t), q', w') \<and>
     (u = Taking q \<and> u' = Running i t q' \<or> u = Discarding q \<and> u' = Discarding q'))"

lemma pop_local_marks: "pop_local q w = Inr (y, q', w') \<Longrightarrow> w_next w' x = w_next w x \<or> y = Some x"
  by (auto simp: pop_local_def NetQueue_Pop_def andThen_eq_Inr_iff Let_def split: nptr.splits if_splits)

lemma popping_step:
  assumes "thread_step E k u w u' w'" and "pops u" and "w_next w (TaskItem i t) \<noteq> NOT_IN_QUEUE"
  shows "w_next w' (TaskItem i t) \<noteq> NOT_IN_QUEUE \<or> leaves i t u w u' w'"
  using assms by (cases rule: thread_step.cases) (auto simp: leaves_def dest: pop_local_marks [where x = "TaskItem i t"])

lemma linked_step:
  assumes r: "reachable E mem (ts, w)" and s: "proc_step E (ts, w) (ts', w')" and x: "w_next w (TaskItem i t) \<noteq> NOT_IN_QUEUE"
  shows "w_next w' (TaskItem i t) \<noteq> NOT_IN_QUEUE \<or> (\<exists>k < kNetWorkerNum. leaves i t (ts k) w (ts' k) w')"
proof (cases "\<exists>k < kNetWorkerNum. pops (ts k) \<and> thread_step E k (ts k) w (ts' k) w'")
  case True
  then show ?thesis using popping_step [OF _ _ x] by blast
next
  case False
  have "stays (TaskItem i t) (held_by ts) w" using reachable_sound [OF r] x by (simp add: stays_def)
  then have "stays (TaskItem i t) (held_by ts') w'" by (rule kept.proc_step_keeps [OF s UNIV_I, rotated]) (use False in blast)
  then show ?thesis by (simp add: stays_def)
qed

text \<open>A thread throws tasks away only after it has popped its stop item.\<close>

lemma discards_after_stop:
  assumes r: "reachable E mem (ts, w)" and s: "proc_step E (ts, w) (ts', w')" and k: "ts k = Taking q" "ts' k = Discarding q'"
  shows "w_next w (StopItem k) \<noteq> NOT_IN_QUEUE \<and> w_next w' (StopItem k) = NOT_IN_QUEUE"
proof -
  from s k have "k < kNetWorkerNum \<and> thread_step E k (Taking q) w (Discarding q') w'"
    by (auto elim!: proc_stepE split: if_splits)
  then have "k < kNetWorkerNum" and p: "pop_local q w = Inr (Some (StopItem k), q', w')" by (auto elim: thread_stepE)
  with k(1) have h: "held_by ts k = Some (Tasks k, q)" by (simp add: held_by_def)
  from reachable_sound [OF r] obtain ls where ls: "lists_ok (held_by ts) w ls" by (auto simp: sound_def intact_def)
  have rep: "queue_rep (w_next w) q (ls (Var k))" using lists_okD(1) [OF ls, of "Var k"] h by simp
  show ?thesis
  proof (cases "ls (Var k)")
    case Nil
    with rep p Pop_nil [of "w_next w" q] show ?thesis by (simp add: pop_local_def)
  next
    case (Cons x xs)
    with rep p Pop_cons_frame [of "w_next w" q x xs] queue_rep_linked [OF rep] show ?thesis by (auto simp: pop_local_def)
  qed
qed

end
