(* ===== verification/Netqueued.thy ===== *)
theory Netqueued
  imports Netstop Netkept
begin

text \<open>
  What the invariant of \<open>Netplaces\<close> means for the running process: no queue is ever
  corrupted, a task that is marked as queued stays queued until a worker pops it, and a worker finds in its queue nothing but tasks and its
  own stop item.
\<close>

section \<open>A worker in the middle of its tasks\<close>

lemma swap_law:
  assumes "k < length (w_workers w)" and "can_take E k w"
  shows "swap_tasks E k kNetPollerIn w = Inr (wk_tasks (w_workers w ! k), emptied k (drained w k @ w_trace w) w)"
  using assms unsignal_law [OF assms] by (simp add: swap_tasks_def get_tasks_def put_tasks_def live emptied_def)

lemma taking_run:
  assumes k: "k < length (w_workers w)" "length (p_events (wk_poller (w_workers w ! k))) = 32" and E: "is_woken E k w"
    and r: "can_take E k (w\<lparr>w_trace := waited w k # w_trace w\<rparr>)"
  shows "\<exists>w'. thread_run E k Waiting w (Taking (wk_tasks (w_workers w ! k))) w' \<and> w_next w' = w_next w \<and>
     map wk_efd (w_workers w') = map wk_efd (w_workers w)"
proof -
  let ?q = "wk_tasks (w_workers w ! k)"
  obtain w1 p where w1: "worker_wait E k w = Inr w1"
    and ev: "poller_event k w1 = Inr (0, Some (kNetPollerIn, HEfd k), with_worker k p ?q (waited w k # w_trace w) w)"
    using worker_wakes [OF k E] by blast
  let ?w2 = "with_worker k p ?q (waited w k # w_trace w) w"
  have w2: "k < length (w_workers ?w2)" "can_take E k ?w2" "wk_tasks (w_workers ?w2 ! k) = ?q"
    using k(1) r by (simp_all add: with_worker_def can_take_def)
  note sw = swap_law [OF w2(1,2), unfolded w2(3)]
  have "thread_run E k Waiting w (Taking ?q) (emptied k (drained ?w2 k @ w_trace ?w2) ?w2)"
    by (rule thread_run.More [OF thread_step.Wait [OF w1] thread_run.More [OF thread_step.Wake [OF ev]
          thread_run.More [OF thread_step.Swap [OF sw] thread_run.Here]]])
  moreover have "map wk_efd (w_workers (emptied k tr ?w2)) = map wk_efd (w_workers w)" for tr
    using k(1) by (simp add: emptied_def with_worker_def map_update list_update_same_conv)
  moreover have "w_next (emptied k tr ?w2) = w_next w" for tr by (simp add: emptied_def with_worker_def)
  ultimately show ?thesis by blast
qed

text \<open>A kernel that starts the device and then reports the eventfd of worker 0, which \<open>Init\<close> has signalled.\<close>

definition waking_env :: env where
  "waking_env = \<lparr>env_os = (\<lambda>tr. case tr of Sys_epoll_wait ep n t # _ \<Rightarrow> (sysret 1)\<lparr>sr_events := [(HEfd 0, EPOLLIN)]\<rparr>
     | Sys_read f n # _ \<Rightarrow> sysret 8 | _ \<Rightarrow> kind_os tr), env_user = plain_user\<rparr>"

lemma waking_boots: "boots waking_env"
  by (simp_all add: boots_def opens_sockets_def socket_fd_def waking_env_def sysret_def le_bytes_def)

lemma taking_reachable:
  "\<exists>w q. reachable waking_env mem ((\<lambda>_. Waiting)(0 := Taking q), w) \<and> staffed w \<and> queue_rep (w_next w) q [TaskItem 0 TkAccept]"
proof -
  from Init_law [OF waking_boots] obtain w where i: "NetDevice_Init waking_env (dispatch waking_env) (new_world mem) = Inr w"
    and r: "accept_ready 0 1 first_tasks w" and efd: "\<forall>k < kNetWorkerNum. wired k (w_workers w ! k) (w_trace w)" by blast
  from r have len: "length (w_workers w) = kNetWorkerNum" and po: "length (p_events (wk_poller (w_workers w ! 0))) = 32"
    by (auto simp: accept_ready_def pollers_ok_def poller_ok_def)
  from r have "\<forall>k < length (w_workers w). queue_rep (w_next w) (wk_tasks (w_workers w ! k)) (first_tasks k)"
    by (simp add: accept_ready_def tasks_are_def)
  then have q: "queue_rep (w_next w) (wk_tasks (w_workers w ! 0)) [TaskItem 0 TkAccept]"
    using len by (auto simp: first_tasks_def dest: spec [of _ 0])
  have st: "staffed w" using efd len by (force simp: staffed_def in_set_conv_nth wired_def)
  have "is_woken waking_env 0 w" "can_take waking_env 0 v" for v by (simp_all add: is_woken_def can_take_def waking_env_def sysret_def)
  with taking_run [of 0 w waking_env] len po obtain w' where
    w': "thread_run waking_env 0 Waiting w (Taking (wk_tasks (w_workers w ! 0))) w'" "w_next w' = w_next w"
      "map wk_efd (w_workers w') = map wk_efd (w_workers w)" by auto
  from reachable_run [OF w'(1) _ reachable.Init [OF i]]
  have "reachable waking_env mem ((\<lambda>_. Waiting)(0 := Taking (wk_tasks (w_workers w ! 0))), w')" by simp
  moreover from arg_cong [OF w'(3), of set] have "wk_efd ` set (w_workers w') = wk_efd ` set (w_workers w)" by (simp only: set_map)
  with st have "staffed w'" by (simp only: staffed_def simp_thms)
  moreover have "queue_rep (w_next w') (wk_tasks (w_workers w ! 0)) [TaskItem 0 TkAccept]" using q w'(2) by simp
  ultimately show ?thesis by blast
qed

text \<open>Where a task is that is marked as queued.\<close>

lemma linked_held:
  assumes "reachable E mem (ts, w)" and "staffed w" and "NetQueueItem_IsInQueue (TaskItem i t) (w_next w)"
  shows "\<exists>k < kNetWorkerNum. \<exists>q xs.
     (q = wk_tasks (w_workers w ! k) \<or> ts k = Taking q \<or> (\<exists>j u. ts k = Running j u q) \<or> ts k = Discarding q) \<and>
     queue_rep (w_next w) q xs \<and> TaskItem i t \<in> set xs"
proof -
  from reachable_sound [OF assms(1)] obtain ls where ok: "world_ok w" and ls: "lists_ok (held_by ts) w ls"
    by (auto simp: sound_def intact_def)
  from assms(2) lists_okD(5) [OF ls, of "TaskItem i t"] assms(3) obtain a where a: "TaskItem i t \<in> set (ls a)"
    by (auto simp: NetQueueItem_IsInQueue_def split: if_splits)
  note rep = lists_okD(1) [OF ls, of a]
  from lists_okD(3) [OF ls a] obtain d where d: "origin (held_by ts) a = Some d" "suits d (TaskItem i t)" by blast
  show ?thesis
  proof (cases a)
    case (In e)
    with d obtain k where k: "a = In (Tasks k)" by (cases e) auto
    have "k < length (w_workers w)"
    proof (rule ccontr)
      assume "\<not> k < length (w_workers w)"
      with rep k have "queue_rep (w_next w) NetQueue_Init (ls a)" by simp
      from queue_rep_unique [OF this Init_rep] a show False by simp
    qed
    moreover from this rep k have "queue_rep (w_next w) (wk_tasks (w_workers w ! k)) (ls a)" by simp
    moreover have "length (w_workers w) = kNetWorkerNum" using ok by (simp add: world_ok_def)
    ultimately show ?thesis using a by (intro exI [of _ k]) auto
  next
    case (Var j)
    with d(1) obtain q where "held_by ts j = Some (d, q)" by auto
    moreover then have "j < kNetWorkerNum" "holds_queue j (ts j) = Some (d, q)" by (auto simp: held_by_def split: if_splits)
    moreover then have "ts j = Taking q \<or> (\<exists>i u. ts j = Running i u q) \<or> ts j = Discarding q" by (cases "ts j") auto
    ultimately show ?thesis using rep a Var by (intro exI [of _ j]) auto
  qed
qed

section \<open>Properties\<close>

text \<open>C3: The queues stay intact. In every reachable state the queues of the process (the workers' tasks,
  the two event queues of every context, the messages of every socket, and the queues that the
  workers hold in local variables) hold lists of items, linked front to back with the tail
  at the last one, although all of them share the next pointers of the items; no item is in two
  queues or twice in one. A queue of tasks holds tasks and the stop item of its worker,
  a queue of events events, a queue of messages wrappers; and nothing that has not been made yet is linked.\<close>

theorem queues_stay_intact:
  assumes "reachable E mem (ts, w)"
  shows "\<exists>ls. (\<forall>a. queue_rep (w_next w) (queue_at (held_by ts) w a) (ls a)) \<and>
     (\<forall>a b. a \<noteq> b \<longrightarrow> set (ls a) \<inter> set (ls b) = {}) \<and>
     (\<forall>a x. x \<in> set (ls a) \<longrightarrow> (\<exists>d. origin (held_by ts) a = Some d \<and> suits d x)) \<and>
     (\<forall>x. NetQueueItem_IsInQueue x (w_next w) \<longrightarrow> known x w)"
  using reachable_sound [OF assms]
  by (auto simp: sound_def intact_def lists_ok_def NetQueueItem_IsInQueue_def)

theorem queues_stay_intact_witness:
  "\<exists>ts w ls. reachable waking_env (\<lambda>_. 0) (ts, w) \<and> (\<forall>a. queue_rep (w_next w) (queue_at (held_by ts) w a) (ls a))"
proof -
  obtain w q where "reachable waking_env (\<lambda>_. 0) ((\<lambda>_. Waiting)(0 := Taking q), w)" using taking_reachable by blast
  with queues_stay_intact [OF this] show ?thesis by blast
qed



text \<open>C6: A worker finds only tasks. In every reachable state a worker that is working through the tasks
  it has taken can pop the next one, and what it pops is a task of a socket that has been made
  or its own stop item: the conversion of the queue item to a task
  (\<open>container_of\<close>) is never applied to anything else, and the thread is never stuck between its tasks.\<close>

theorem worker_finds_only_tasks:
  assumes "reachable E mem (ts, w)" and "k < kNetWorkerNum" and "ts k = Taking q"
  shows "\<exists>x q' w'. pop_local q w = Inr (x, q', w') \<and>
     (x = None \<or> (\<exists>i t. x = Some (TaskItem i t) \<and> i < w_nsocks w) \<or> x = Some (StopItem k)) \<and>
     (\<exists>t'. thread_step E k (Taking q) w t' w')"
proof -
  from reachable_sound [OF assms(1)] obtain ls where ls: "lists_ok (held_by ts) w ls" by (auto simp: sound_def intact_def)
  have h: "held_by ts k = Some (Tasks k, q)" using assms(2,3) by (simp add: held_by_def)
  then have rep: "queue_rep (w_next w) q (ls (Var k))" using lists_okD(1) [OF ls, of "Var k"] by simp
  show ?thesis
  proof (cases "ls (Var k)")
    case Nil
    with nq.pop_nil [of "w_next w" q] rep have "pop_local q w = Inr (None, q, w)" by (simp add: pop_local_def)
    then show ?thesis by (blast intro: thread_step.NoTask)
  next
    case (Cons x xs)
    with nq.pop_cons [of "w_next w" q x xs] rep obtain q' nx where p: "pop_local q w = Inr (Some x, q', w\<lparr>w_next := nx\<rparr>)"
      by (auto simp: pop_local_def)
    have x: "x \<in> set (ls (Var k))" by (simp add: Cons)
    then have "suits (Tasks k) x" using lists_okD(3) [OF ls x] h by simp
    moreover have "known x w" using lists_okD(4) [OF ls, of x] queue_rep_linked [OF rep] x by auto
    ultimately consider i t where "x = TaskItem i t" "i < w_nsocks w" | "x = StopItem k" by (cases x) auto
    then show ?thesis
    proof cases
      case 1
      with p show ?thesis by (blast intro: thread_step.Task)
    next
      case 2
      with p show ?thesis by (blast intro: thread_step.Stop)
    qed
  qed
qed

theorem worker_finds_only_tasks_witness:
  "\<exists>w q x q' w'. reachable waking_env (\<lambda>_. 0) ((\<lambda>_. Waiting)(0 := Taking q), w) \<and> pop_local q w = Inr (x, q', w')"
proof -
  obtain w q where w: "reachable waking_env (\<lambda>_. 0) ((\<lambda>_. Waiting)(0 := Taking q), w)" using taking_reachable by blast
  from worker_finds_only_tasks [OF w, of 0 q] w show ?thesis by fastforce
qed

end
