(* ===== verification/Netsignal.thy ===== *)
theory Netsignal
  imports Netintact Netstart
begin

text \<open>
  No wake-up is lost. Between two states of the process, as long as the thread of a worker does not take its tasks,
  the worker's queue changes only together with a write to its eventfd: this relation to a fixed earlier state is the third
  instance of the interface of \<open>Netpreserve\<close>.
\<close>

section \<open>A queue changes with a signal\<close>

definition signal_of :: "nat \<Rightarrow> world \<Rightarrow> syscall" where
  "signal_of k w = Sys_write (wk_efd (w_workers w ! k)) (le_bytes 8 1)"

definition announced :: "nat \<Rightarrow> world \<Rightarrow> world \<Rightarrow> bool" where
  "announced k w0 w \<longleftrightarrow> suffix (w_trace w0) (w_trace w) \<and>
     (0 \<le> wk_efd (w_workers w ! k) \<longrightarrow>
        wk_efd (w_workers w ! k) = wk_efd (w_workers w0 ! k) \<and>
        (wk_tasks (w_workers w ! k) = wk_tasks (w_workers w0 ! k) \<or>
         (\<exists>new. w_trace w = new @ w_trace w0 \<and> signal_of k w \<in> set new)))"

lemma announced_refl: "announced k w w"
  by (simp add: announced_def)

text \<open>The worker as before, the trace longer.\<close>

lemma announced_same:
  assumes "announced k w0 w" and "suffix (w_trace w) (w_trace w')"
    and "wk_efd (w_workers w' ! k) = wk_efd (w_workers w ! k)" and "wk_tasks (w_workers w' ! k) = wk_tasks (w_workers w ! k)"
  shows "announced k w0 w'"
proof -
  from assms(2) obtain us where us: "w_trace w' = us @ w_trace w" by (auto simp: suffix_def)
  have "\<exists>new. w_trace w' = new @ w_trace w0 \<and> signal_of k w' \<in> set new"
    if "w_trace w = new @ w_trace w0" "signal_of k w \<in> set new" for new
    using that us assms(3) by (intro exI [of _ "us @ new"]) (simp add: signal_of_def)
  with assms suffix_order.trans [OF _ assms(2), of "w_trace w0"] show ?thesis by (auto simp: announced_def)
qed

lemma announced_closed: "suffix (w_trace w0) (w_trace w) \<Longrightarrow> wk_efd (w_workers w ! k) < 0 \<Longrightarrow> announced k w0 w"
  by (simp add: announced_def)

lemma put_place_worker:
  "put_place d q w = Inr w' \<Longrightarrow> d \<noteq> Tasks k \<Longrightarrow>
   w_trace w' = w_trace w \<and> wk_efd (w_workers w' ! k) = wk_efd (w_workers w ! k) \<and> wk_tasks (w_workers w' ! k) = wk_tasks (w_workers w ! k)"
  by (cases d) (auto simp: put_tasks_def put_events_def put_eventsto_def put_msgq_def upd_worker_def upd_sock_def get_worker_def
      get_sock_def nth_list_update split: option.splits if_splits)

lemma announced_put:
  "put_place d q v = Inr w' \<Longrightarrow> d \<noteq> Tasks k \<Longrightarrow> announced k w0 w \<Longrightarrow> w_trace v = w_trace w \<Longrightarrow> w_workers v = w_workers w \<Longrightarrow> announced k w0 w'"
  by (drule (1) put_place_worker, erule announced_same) simp_all

lemma signal_up:
  "signal_worker E k w = Inr w' \<Longrightarrow> 0 \<le> wk_efd (w_workers w ! k) \<Longrightarrow> w' = w\<lparr>w_trace := signal_of k w # w_trace w\<rparr>"
  by (auto simp: signal_worker_def NetEventFd_Signal_def get_worker_def andThen_eq_Inr_iff signal_of_def Let_def CHECK_def
      split: if_splits)

lemma announced_order:
  assumes "announced k w0 w" and r: "order_task E j x w = Inr w'"
  shows "announced k w0 w'"
proof -
  from r obtain q nx w1 where put: "put_tasks j q (w\<lparr>w_next := nx\<rparr>) = Inr w1" and sig: "signal_worker E j w1 = Inr w'"
    by (auto simp: order_task_def push_on_def andThen_eq_Inr_iff)
  from sig obtain tr where w': "w' = w1\<lparr>w_trace := tr\<rparr>" "suffix (w_trace w1) tr" using signal_effect by blast
  show ?thesis
  proof (cases "j = k")
    case False
    with put have "announced k w0 w1" using announced_put [of "Tasks j" q "w\<lparr>w_next := nx\<rparr>" w1 k w0 w] assms(1) by simp
    then show ?thesis by (rule announced_same) (simp_all add: w')
  next
    case True
    from put True have w1: "w_trace w1 = w_trace w" "wk_efd (w_workers w1 ! k) = wk_efd (w_workers w ! k)"
      by (auto simp: put_tasks_def upd_worker_def get_worker_def split: if_splits)
    show ?thesis
    proof (cases "wk_efd (w_workers w1 ! k) < 0")
      case True
      with w' w1 assms(1) show ?thesis by (intro announced_closed) (auto simp: announced_def intro: suffix_order.trans)
    next
      case up: False
      with signal_up [of E k w1 w'] sig True have "w_trace w' = signal_of k w1 # w_trace w" by (simp add: w1(1))
      then have "w_trace w' = signal_of k w' # w_trace w" by (simp add: signal_of_def w'(1))
      moreover from assms(1) obtain us where "w_trace w = us @ w_trace w0" by (auto simp: announced_def suffix_def)
      ultimately show ?thesis using assms(1) w1 w' up
        by (auto simp: announced_def suffix_def intro!: exI [of _ "signal_of k w' # us"])
    qed
  qed
qed

lemma announced_cleanup:
  assumes "announced k w0 w" and "NetWorker_Terminate_cleanup E j w = Inr w'"
  shows "announced k w0 w'"
proof -
  from assms(2) obtain tr where j: "j < length (w_workers w)" and tr: "suffix (w_trace w) tr" and w': "w' = w\<lparr>w_trace := tr, w_next := w_next w,
      w_workers := (w_workers w)[j := (w_workers w ! j)\<lparr>wk_efd := - 1, wk_tasks := NetQueue_Terminate (wk_tasks (w_workers w ! j))\<rparr>]\<rparr>"
    by (auto simp: NetWorker_Terminate_cleanup_def andThen_eq_Inr_iff upd_worker_def get_worker_def NetEventFd_Terminate_def
        NetQueueItem_Terminate_def NetPoller_Terminate_def dest!: descriptor_grows(1) intro: suffix_order.trans split: if_splits)
  show ?thesis
  proof (cases "j = k")
    case True
    with j tr assms(1) show ?thesis by (intro announced_closed) (auto simp: w' announced_def intro: suffix_order.trans)
  next
    case False
    with tr show ?thesis by (intro announced_same [OF assms(1)]) (simp_all add: w')
  qed
qed

definition follows :: "nat \<Rightarrow> world \<Rightarrow> held \<Rightarrow> world \<Rightarrow> bool" where
  "follows k w0 L w \<longleftrightarrow> sound L w \<and> announced k w0 w"

lemma followsD: "follows k w0 L w \<Longrightarrow> sound L w" "follows k w0 L w \<Longrightarrow> announced k w0 w"
  by (simp_all add: follows_def)

lemma after_follows:
  "after (sound L) m \<Longrightarrow> (\<And>w. m = Inr w \<Longrightarrow> announced k w0 w) \<Longrightarrow> after (follows k w0 L) m"
  "after (\<lambda>(x, w). sound L w) m1 \<Longrightarrow> (\<And>x w. m1 = Inr (x, w) \<Longrightarrow> announced k w0 w) \<Longrightarrow> after (\<lambda>(x, w). follows k w0 L w) m1"
  by (auto simp: after_def follows_def)

lemma follows_same:
  "follows k w0 L w \<Longrightarrow> sound L w' \<Longrightarrow> w_trace w' = w_trace w \<Longrightarrow> w_workers w' = w_workers w \<Longrightarrow> follows k w0 L w'"
  unfolding follows_def by (auto intro: announced_same)

lemma announced_queues:
  assumes "announced k w0 w" and "local d"
  shows "push_on x (get_place d) (put_place d) w = Inr w' \<Longrightarrow> announced k w0 w'"
    and "pop_from (get_place d) (put_place d) w = Inr (y, w') \<Longrightarrow> announced k w0 w'"
    and "put_place d q w = Inr w' \<Longrightarrow> announced k w0 w'"
proof -
  have d: "d \<noteq> Tasks k" using assms(2) by auto
  show "push_on x (get_place d) (put_place d) w = Inr w' \<Longrightarrow> announced k w0 w'"
    using announced_put [OF _ d assms(1)] by (auto simp: push_on_def andThen_eq_Inr_iff)
  show "pop_from (get_place d) (put_place d) w = Inr (y, w') \<Longrightarrow> announced k w0 w'"
    using announced_put [OF _ d assms(1)] by (auto simp: pop_from_def andThen_eq_Inr_iff)
  show "put_place d q w = Inr w' \<Longrightarrow> announced k w0 w'"
    by (erule announced_put [OF _ d assms(1)]) simp_all
qed

lemma follows_world: "world_pred (follows k w0)"
proof (unfold_locales, goal_cases)
  case (1 L w w')
  then show ?case using whole.frame [of L w w'] by (auto simp: follows_def intro: announced_same)
next
  case (2 L w j wk)
  then have "announced k w0 (w\<lparr>w_workers := (w_workers w)[j := wk]\<rparr>)"
    by (intro announced_same [OF followsD(2) [OF 2(1)]]) (simp_all add: nth_list_update)
  with 2 whole.worker show ?case by (simp add: follows_def)
next
  case (3 L w i s s')
  from whole.sock [OF followsD(1) [OF 3(1)] 3(2,3)] show ?case by (rule follows_same [OF 3(1)]) simp_all
next
  case (4 L w g)
  from whole.machine [OF followsD(1) [OF 4]] show ?case by (rule follows_same [OF 4]) (simp_all add: upd_dev_def)
next
  case (5 L w c)
  from whole.cur [OF followsD(1) [OF 5(1)] 5(2,3)] show ?case by (rule follows_same [OF 5(1)]) simp_all
next
  case (6 L w i s) then show ?case using whole.made followsD(1) by blast
next
  case (7 L w d x) then show ?case
    by (intro after_follows whole.push followsD(1)) (auto intro: announced_queues(1) followsD(2))
next
  case (8 L w j x E) then show ?case
    by (intro after_follows whole.order followsD(1)) (auto intro: announced_order followsD(2))
next
  case (9 L w d) then show ?case
    by (intro after_follows whole.pop followsD(1)) (auto intro: announced_queues(2) followsD(2))
next
  case (10 L w d j q) then show ?case
    by (intro after_follows whole.take followsD(1)) (auto intro: announced_queues(3) followsD(2))
next
  case (11 L w d j q)
  have "announced k w0 w'" if "pop_local q w = Inr (x, q', w')" for x q' w'
    using that by (intro announced_same [OF followsD(2) [OF 11(1)]]) (auto simp: pop_local_def andThen_eq_Inr_iff)
  with whole.pop_held [OF followsD(1) [OF 11(1)] 11(2,3)] show ?case by (auto simp: after_def follows_def)
next
  case (12 L w E j) then show ?case
    by (intro after_follows whole.cleanup followsD(1)) (auto intro: announced_cleanup followsD(2))
next
  case (13 L w ws)
  from whole.message [OF followsD(1) [OF 13]] show ?case by (rule follows_same [OF 13]) simp_all
qed

lemma follows_device: "device_pred (follows k w0)"
proof (intro device_pred.intro follows_world, unfold_locales, goal_cases)
  case (1 L w d src owner a)
  note ok = sound_ok(1) [OF followsD(1) [OF 1(1)]]
  have "announced k w0 w'" if "NetSocket_Init (w_nsocks w) src owner a ((snd (new_sock w))\<lparr>w_dev := d\<rparr>) = Inr w'" for w'
    using that unfolding create_law [OF ok] by (intro announced_same [OF followsD(2) [OF 1(1)]]) auto
  with whole.create [OF followsD(1) [OF 1(1)] 1(2), of src owner a] show ?case by (auto simp: after_def follows_def)
next
  case (2 L w i)
  from whole.own [OF followsD(1) [OF 2(1)] 2(2)] show ?case by (rule follows_same [OF 2(1)]) (simp_all add: insert_sock_def upd_dev_def)
next
  case (3 L w t i) then show ?case using whole.token_owned followsD(1) by blast
next
  case (4 L w i t)
  from whole.name_sock [OF followsD(1) [OF 4(1)] 4(2)] show ?case by (rule follows_same [OF 4(1)]) (simp_all add: emplace_sock_def upd_dev_def)
next
  case (5 L w i)
  from whole.delete [OF followsD(1) [OF 5]] show ?case by (rule follows_same [OF 5]) simp_all
next
  case (6 L w f)
  from whole.other_dev [of L w f, OF followsD(1) [OF 6(1)] 6(2,3)] show ?case by (rule follows_same [OF 6(1)]) (simp_all add: upd_dev_def)
qed

text \<open>The other workers may take their tasks.\<close>

interpretation ann: thread_pred "follows k w0" "- {k}" UNIV for k w0
proof (intro thread_pred.intro follows_device, unfold_locales)
  fix L w i j q
  assume f: "follows k w0 L w" and i: "i \<in> - {k}" and "L j = None" "get_tasks i w = Inr q"
  with whole.exchange [of L w i j q] have "after (sound (L(j \<mapsto> (Tasks i, q)))) (put_tasks i NetQueue_Init w)" by (simp add: followsD(1))
  moreover have "announced k w0 w'" if "put_tasks i NetQueue_Init w = Inr w'" for w'
    using announced_put [of "Tasks i" NetQueue_Init w w' k w0 w] that i followsD(2) [OF f] by simp
  ultimately show "after (follows k w0 (L(j \<mapsto> (Tasks i, q)))) (put_tasks i NetQueue_Init w)" by (rule after_follows)
next
  fix L w i j q
  assume f: "follows k w0 L w" and "L j = Some (Tasks i, q)"
  have "announced k w0 w'" if "pop_local q w = Inr (x, q', w')" for x q' w'
    using that by (intro announced_same [OF followsD(2) [OF f]]) (auto simp: pop_local_def andThen_eq_Inr_iff)
  with whole.pop_task [OF followsD(1) [OF f] UNIV_I \<open>L j = Some (Tasks i, q)\<close>]
  show "after (\<lambda>(x, q', w). follows k w0 (L(j := if x = None then None else Some (Tasks i, q'))) w) (pop_local q w)"
    by (auto simp: after_def follows_def)
qed

section \<open>From one exchange to the next\<close>

text \<open>
  \<open>since E mem k w0 s\<close>: the process has come from the world \<open>w0\<close>, in which the queue of worker \<open>k\<close> was empty (or which
  was there before \<open>Init\<close>), to the state \<open>s\<close>, and the thread of the worker has not taken its tasks, nor read its eventfd, on the way.
\<close>

inductive since :: "env \<Rightarrow> memory \<Rightarrow> nat \<Rightarrow> world \<Rightarrow> threads \<times> world \<Rightarrow> bool" for E mem k where
  Begin: "NetDevice_Init E (dispatch E) (new_world mem) = Inr w \<Longrightarrow> since E mem k (new_world mem) (\<lambda>_. Waiting, w)"
| Empty: "reachable E mem (ts, w) \<Longrightarrow> NetQueue_Empty (wk_tasks (w_workers w ! k)) = 1 \<Longrightarrow> since E mem k w (ts, w)"
| Step: "since E mem k w0 (ts, w) \<Longrightarrow> proc_step E (ts, w) (ts', w') \<Longrightarrow> \<not> exchanges (ts k) (ts' k) \<Longrightarrow> since E mem k w0 (ts', w')"

lemma announced_step:
  assumes "reachable E mem (ts, w)" and "proc_step E (ts, w) (ts', w')" and "\<not> exchanges (ts k) (ts' k)"
  shows "announced k w w'"
proof -
  have "follows k w (held_by ts) w" using reachable_sound [OF assms(1)] announced_refl by (simp add: follows_def)
  from ann.proc_step_keeps [OF assms(2) _ UNIV_I this] assms(3) show ?thesis by (auto dest: followsD(2))
qed

lemma exchange_empties:
  assumes "proc_step E (ts, w) (ts', w')" and "exchanges (ts k) (ts' k)"
  shows "wk_tasks (w_workers w' ! k) = NetQueue_Init"
proof -
  from assms(2) obtain p q where ts: "ts k = Waking p" "ts' k = Taking q" by (cases "(ts k, ts' k)" rule: exchanges.cases) auto
  with assms(1) have "thread_step E k (Waking p) w (Taking q) w'" by (auto elim!: proc_stepE split: if_splits)
  then have "swap_tasks E k p w = Inr (q, w')" by (auto elim: thread_stepE)
  then show ?thesis
    by (auto simp: swap_tasks_def andThen_eq_Inr_iff put_tasks_def upd_worker_def get_worker_def split: if_splits)
qed

text \<open>The worlds of \<open>Init\<close>: the queues are empty until the listener is started.\<close>

lemma announced_Init:
  assumes "NetDevice_Init E (dispatch E) (new_world mem) = Inr w" and "k < kNetWorkerNum"
    and "0 \<le> wk_efd (w_workers w ! k)" and "wk_tasks (w_workers w ! k) \<noteq> NetQueue_Init"
  shows "signal_of k w \<in> set (w_trace w)"
proof -
  from assms(1) obtain l w1 where i: "init_objects E (new_world mem) = Inr (l, w1)"
    by (auto simp: Init_split andThen_eq_Inr_iff)
  from afterD [OF sound_init i] assms(2) have w1: "sound Map.empty w1" "wk_tasks (w_workers w1 ! k) = NetQueue_Init" by simp_all
  then have "after (\<lambda>(l, w). follows k w1 Map.empty w) (init_objects E (new_world mem))"
    using i announced_refl by (simp add: after_def follows_def)
  from afterD [OF ann.Init_keeps [OF this] assms(1)] have "announced k w1 w" by (rule followsD)
  with assms(3,4) w1(2) show ?thesis by (auto simp: announced_def)
qed



end
