(* ===== verification/Netserve.thy ===== *)
theory Netserve
  imports Netconnect
begin

text \<open>
  A listener that serves one connection after the other: its worker takes its queue and runs the
  tasks in it, the kernel reports a connection if it has been asked to, and the section of the
  listener hands it over and queues the next task.
\<close>

section \<open>One round\<close>

text \<open>
  \<open>work\<close> is what the worker does with its queue (\<open>take_tasks\<close> after the read of the eventfd). \<open>input_arrives\<close> is the event of a
  connection: the kernel reports it only if its poller holds the listener's descriptor with input and nothing else,
  as \<open>epoll_ctl\<close> has left it; otherwise nothing more happens, which is the failure here.
\<close>

definition work :: "env \<Rightarrow> nat \<Rightarrow> nat \<Rightarrow> nat \<Rightarrow> world \<Rightarrow> (bool \<times> world) res" where
  "work E n m k w = andThen (get_tasks k w) (\<lambda>q. andThen (put_tasks k NetQueue_Init w) (run_tasks E n m k q))"

definition input_arrives :: "env \<Rightarrow> nat \<Rightarrow> nat \<Rightarrow> world \<Rightarrow> world res" where
  "input_arrives E n l w =
     andThen (get_sock l w) (\<lambda>s. andThen (get_worker (sk_worker s) w) (\<lambda>wk.
     if interest (p_ep (wk_poller wk)) (w_trace w) (sk_s s) = Some (HSock l, EPOLLIN) then run_fd E n l kNetPollerIn w
     else Inl FuelExhausted))"

primrec serve :: "env \<Rightarrow> nat \<Rightarrow> nat \<Rightarrow> nat \<Rightarrow> world \<Rightarrow> world res" where
  "serve E l k 0 w = Inr w"
| "serve E l k (Suc n) w =
     andThen (work E 3 3 k w) (\<lambda>(stopped, w). andThen (input_arrives E 3 l w) (serve E l k n))"

definition is_active :: "world \<Rightarrow> nat \<Rightarrow> bool" where
  "is_active w a \<longleftrightarrow> (\<exists>s. w_socks w a = Some s \<and> sk_state s = kNetSockStateActive \<and> sk_asock s = None)"

definition grants_accepts :: "env \<Rightarrow> int \<Rightarrow> bool" where
  "grants_accepts E f \<longleftrightarrow> (\<forall>tr. 0 < sr_ret (env_os E (Sys_accept4 f # tr)))"

section \<open>The worker's part\<close>

lemma ready_emptied:
  assumes r: "accept_ready l a T w" and k: "k < length (w_workers w)"
  shows "accept_ready l a (T(k := [])) (emptied k tr w)"
proof -
  have "wk_poller (w_workers (emptied k tr w) ! j) = wk_poller (w_workers w ! j)" if "j < length (w_workers w)" for j
    using that by (cases "j = k") (simp_all add: emptied_def)
  then have "pollers_ok (emptied k tr w)" using r by (simp add: accept_ready_def pollers_ok_def emptied_def)
  moreover have "at_rest i s (emptied k tr w) = at_rest i s w" for i s by (simp add: at_rest_def emptied_def)
  moreover have "tasks_are (emptied k tr w) (T(k := []))" using r k by (intro emptied_tasks) (simp_all add: accept_ready_def)
  ultimately show ?thesis using r by (auto simp: accept_ready_def emptied_def device_up_def split: if_splits)
qed

lemma ready_popped:
  assumes r: "accept_ready l a T w" and x: "is_task x" "\<And>k. x \<notin> set (T k)"
  shows "accept_ready l a T (w\<lparr>w_next := (w_next w)(x := NOT_IN_QUEUE)\<rparr>)" (is "accept_ready l a T ?w")
proof -
  have "at_rest i s ?w = at_rest i s w" for i s using x(1) by (auto simp: at_rest_def)
  moreover have T: "tasks_are w T" using r by (simp add: accept_ready_def)
  then have "tasks_are ?w T" by (rule tasks_are_frame) (use x(2) in auto)
  ultimately show ?thesis using r by (simp add: accept_ready_def)
qed

lemma ready_polled:
  assumes r: "accept_ready l a T w" and b: "at_rest b s w" "b \<noteq> l" "b \<noteq> a" and p: "poller_ok p"
  shows "accept_ready l a T (polled b s p h tr w)" (is "accept_ready l a T ?w")
proof -
  have "at_rest i s' ?w" if "at_rest i s' w" "i \<noteq> b" for i s' by (rule at_rest_polled(2) [OF that(1)]) (use that(2) in simp)
  moreover have "pollers_ok ?w" using r pollers_ok_polled [OF _ p] by (simp add: accept_ready_def)
  ultimately show ?thesis using r b(2,3)
    unfolding accept_ready_def device_up_def polled_simps polled_tasks by blast
qed

text \<open>The receive task of an accepted socket puts its descriptor under watch.\<close>

lemma recv_task:
  assumes r: "at_rest b s w"
  shows "\<exists>h tr. run_task E (Suc (Suc n)) b TkRecv w = Inr (polled b s (poller_of s w) h tr w)"
proof -
  obtain h tr where h: "NetPoller_SetIn (poller_of s w) (HSock b) (handle_of s) (w_trace w) = (h, tr)" by fastforce
  have "NetSocket_InternalTasks b (task_src TkRecv) kNetWorkerTaskExecute (w\<lparr>w_socks := (w_socks w)(b \<mapsto> locked s)\<rparr>) =
      Inr (True, polled b (locked s) (poller_of s w) h tr (w\<lparr>w_socks := (w_socks w)(b \<mapsto> locked s)\<rparr>))"
    using r SetIn_live [of "w\<lparr>w_socks := (w_socks w)(b \<mapsto> locked s)\<rparr>" b "locked s" h tr] h
    by (simp add: NetSocket_InternalTasks_def at_rest_def)
  from internal_task_section [OF r this] show ?thesis by blast
qed

text \<open>What a worker of the listener finds in its queue: the accept task, behind the receive task of a socket accepted before.\<close>

definition due :: "nat \<Rightarrow> nat \<Rightarrow> world \<Rightarrow> qitem list \<Rightarrow> bool" where
  "due l a w xs \<longleftrightarrow> xs = [TaskItem l TkAccept] \<or>
     (\<exists>b s. xs = [TaskItem b TkRecv, TaskItem l TkAccept] \<and> b \<noteq> l \<and> b \<noteq> a \<and> at_rest b s w)"

text \<open>Apart from the listener, sockets keep their states.\<close>

definition kept :: "nat \<Rightarrow> world \<Rightarrow> world \<Rightarrow> bool" where
  "kept l w w' \<longleftrightarrow> (\<forall>j. j \<noteq> l \<longrightarrow> is_active w j \<longrightarrow> is_active w' j)"

lemma last_task:
  assumes r: "accept_ready l a T w" and ls: "w_socks w l = Some ls"
    and q: "queue_rep (w_next w) q [TaskItem l TkAccept]" and T: "\<And>k. TaskItem l TkAccept \<notin> set (T k)"
  shows "\<exists>w' ls'. run_tasks E (Suc (Suc n)) (Suc (Suc m)) k q w = Inr (False, w') \<and> accept_ready l a T w' \<and> w_socks w' = (w_socks w)(l \<mapsto> ls') \<and>
     sk_s ls' = sk_s ls \<and> sk_worker ls' = sk_worker ls \<and> w_nsocks w' = w_nsocks w \<and> w_next w' (TaskItem l TkAccept) = NOT_IN_QUEUE \<and>
     interest (p_ep (wk_poller (w_workers w' ! sk_worker ls))) (w_trace w') (sk_s ls) = Some (HSock l, EPOLLIN)"
proof -
  let ?x = "TaskItem l TkAccept" and ?w = "w\<lparr>w_next := (w_next w)(TaskItem l TkAccept := NOT_IN_QUEUE)\<rparr>"
  from Pop_cons_frame [OF q] obtain q' where q': "NetQueue_Pop q (w_next w) = Inr (Some ?x, q', w_next ?w)" "queue_rep (w_next ?w) q' []" by auto
  have pop: "pop_local q w = Inr (Some ?x, q', ?w)" by (simp add: pop_local_def q'(1))
  have "accept_ready l a T ?w" using T by (intro ready_popped [OF r]) simp_all
  from accept_task_law [OF this, of ls E n] ls obtain w' ls' where
    w': "run_task E (Suc (Suc n)) l TkAccept ?w = Inr w'" "accept_ready l a T w'" "w_socks w' = (w_socks w)(l \<mapsto> ls')"
      "sk_s ls' = sk_s ls" "sk_worker ls' = sk_worker ls" "w_nsocks w' = w_nsocks w" "w_next w' = w_next ?w"
      "interest (p_ep (wk_poller (w_workers w' ! sk_worker ls))) (w_trace w') (sk_s ls) = Some (HSock l, EPOLLIN)" by auto
  have "run_tasks E (Suc (Suc n)) (Suc (Suc m)) k q w = Inr (False, w')"
    unfolding run_tasks_step [OF pop w'(1)] using q'(2) w'(7) by (intro run_tasks_end) simp
  with w' show ?thesis by (intro exI [of _ w'] exI [of _ ls']) simp
qed

lemma work_law:
  assumes r: "accept_ready l a T w" and ls: "w_socks w l = Some ls" and d: "due l a w (T (sk_worker ls))"
  shows "\<exists>w' ls'. work E (Suc (Suc n)) (Suc (Suc (Suc m))) (sk_worker ls) w = Inr (False, w') \<and> accept_ready l a (T(sk_worker ls := [])) w' \<and>
     w_socks w' l = Some ls' \<and> sk_s ls' = sk_s ls \<and> sk_worker ls' = sk_worker ls \<and> w_nsocks w' = w_nsocks w \<and>
     w_next w' (TaskItem l TkAccept) = NOT_IN_QUEUE \<and> kept l w w' \<and>
     interest (p_ep (wk_poller (w_workers w' ! sk_worker ls))) (w_trace w') (sk_s ls) = Some (HSock l, EPOLLIN)"
proof -
  let ?k = "sk_worker ls" and ?T = "T(sk_worker ls := [])" and ?w0 = "emptied (sk_worker ls) (w_trace w) w"
    and ?x = "TaskItem l TkAccept" and ?q = "wk_tasks (w_workers w ! sk_worker ls)"
  from r ls have k: "?k < length (w_workers w)" and T: "tasks_are w T" by (auto simp: accept_ready_def at_rest_def)
  have r0: "accept_ready l a ?T ?w0" by (rule ready_emptied [OF r k])
  have free: "y \<notin> set (?T j)" if "y \<in> set (T ?k)" for y j
    using T that unfolding tasks_are_def by (cases "j = ?k") auto
  have q: "queue_rep (w_next ?w0) ?q (T ?k)" using T k by (simp add: tasks_are_def emptied_def)
  have go: "work E (Suc (Suc n)) (Suc (Suc (Suc m))) ?k w = run_tasks E (Suc (Suc n)) (Suc (Suc (Suc m))) ?k ?q ?w0"
    using k by (simp add: work_def get_tasks_def put_tasks_def live emptied_def)
  have socks: "w_socks ?w0 = w_socks w" "w_nsocks ?w0 = w_nsocks w" by (simp_all add: emptied_def)
  from d consider "T ?k = [?x]" | b s where "T ?k = [TaskItem b TkRecv, ?x]" "b \<noteq> l" "b \<noteq> a" "at_rest b s w"
    unfolding due_def by blast
  then show ?thesis
  proof cases
    case 1
    then have x: "\<And>j. ?x \<notin> set (?T j)" using free by simp
    have l0: "w_socks ?w0 l = Some ls" by (simp only: socks ls)
    from last_task [OF r0 l0 q [unfolded 1] x, of E n "Suc m" ?k] obtain w' ls' where
      w': "run_tasks E (Suc (Suc n)) (Suc (Suc (Suc m))) ?k ?q ?w0 = Inr (False, w')" "accept_ready l a ?T w'" "w_socks w' = (w_socks w)(l \<mapsto> ls')"
        "sk_s ls' = sk_s ls" "sk_worker ls' = ?k" "w_nsocks w' = w_nsocks w" "w_next w' ?x = NOT_IN_QUEUE"
        "interest (p_ep (wk_poller (w_workers w' ! ?k))) (w_trace w') (sk_s ls) = Some (HSock l, EPOLLIN)" unfolding socks by blast
    moreover have "kept l w w'" by (simp add: kept_def is_active_def w'(3))
    ultimately show ?thesis unfolding go by (intro exI [of _ w'] exI [of _ ls']) simp
  next
    case 2
    let ?b = "TaskItem b TkRecv" and ?w1 = "?w0\<lparr>w_next := (w_next ?w0)(TaskItem b TkRecv := NOT_IN_QUEUE)\<rparr>"
    from Pop_cons_frame [OF q [unfolded 2(1)]] obtain q1 where
      q1: "NetQueue_Pop ?q (w_next ?w0) = Inr (Some ?b, q1, w_next ?w1)" "queue_rep (w_next ?w1) q1 [?x]" by auto
    have pop: "pop_local ?q ?w0 = Inr (Some ?b, q1, ?w1)" by (simp add: pop_local_def q1(1))
    have r1: "accept_ready l a ?T ?w1" using free [of ?b] 2(1) by (intro ready_popped [OF r0]) simp_all
    have b: "at_rest b s ?w1" using 2(4) by (simp add: at_rest_def emptied_def)
    obtain h tr where run: "run_task E (Suc (Suc n)) b TkRecv ?w1 = Inr (polled b s (poller_of s ?w1) h tr ?w1)" using recv_task [OF b] by blast
    let ?w2 = "polled b s (poller_of s ?w1) h tr ?w1"
    have "poller_ok (poller_of s ?w1)" using r1 b by (simp add: accept_ready_def pollers_ok_def at_rest_def)
    from ready_polled [OF r1 b 2(2,3) this] have r2: "accept_ready l a ?T ?w2" .
    have l2: "w_socks ?w2 l = Some ls" "queue_rep (w_next ?w2) q1 [?x]" using ls 2(2) q1(2) by (simp_all add: emptied_def)
    have x: "\<And>j. ?x \<notin> set (?T j)" using free [of ?x] 2(1) by simp
    from last_task [OF r2 l2 x, of E n m ?k] obtain w' ls' where
      w': "run_tasks E (Suc (Suc n)) (Suc (Suc m)) ?k q1 ?w2 = Inr (False, w')" "accept_ready l a ?T w'" "w_socks w' = (w_socks ?w2)(l \<mapsto> ls')"
        "sk_s ls' = sk_s ls" "sk_worker ls' = ?k" "w_nsocks w' = w_nsocks ?w2" "w_next w' ?x = NOT_IN_QUEUE"
        "interest (p_ep (wk_poller (w_workers w' ! ?k))) (w_trace w') (sk_s ls) = Some (HSock l, EPOLLIN)" by blast
    have "kept l w w'" using 2(4) by (auto simp: kept_def is_active_def w'(3) emptied_def at_rest_def)
    then show ?thesis unfolding go run_tasks_step [OF pop run] using w' by (intro exI [of _ w'] exI [of _ ls']) (simp add: emptied_def)
  qed
qed

section \<open>Any number of rounds\<close>

lemma serve_law:
  assumes "accept_ready l a T w" and "w_socks w l = Some ls" and "sk_worker ls = k" and "due l a w (T k)"
    and "grants E" and "grants_accepts E (sk_s ls)"
  shows "\<exists>w' a' T' as. serve E l k n w = Inr w' \<and> accept_ready l a' T' w' \<and> due l a' w' (T' k) \<and> length as = n \<and> distinct as \<and>
     (\<forall>i \<in> set as. is_active w' i \<and> (i = a \<or> w_nsocks w \<le> i)) \<and>
     (\<forall>j < w_nsocks w. j \<noteq> a \<longrightarrow> j \<noteq> l \<longrightarrow> is_active w j \<longrightarrow> is_active w' j)"
  using assms
proof (induction n arbitrary: a T w ls)
  case 0
  then show ?case by (intro exI [of _ w] exI [of _ a] exI [of _ T] exI [of _ "[]"]) simp
next
  case (Suc n)
  let ?T = "T(k := [])" and ?n = "w_nsocks w"
  obtain w1 l1 where w1: "work E 3 3 k w = Inr (False, w1)" "accept_ready l a ?T w1" "w_socks w1 l = Some l1"
      "sk_s l1 = sk_s ls" "sk_worker l1 = k" "w_nsocks w1 = ?n" "w_next w1 (TaskItem l TkAccept) = NOT_IN_QUEUE" "kept l w w1"
      "interest (p_ep (wk_poller (w_workers w1 ! k))) (w_trace w1) (sk_s ls) = Some (HSock l, EPOLLIN)"
    using work_law [OF Suc.prems(1,2), of E 1 0] Suc.prems(3,4) by (auto simp: numeral_3_eq_3 numeral_2_eq_2)
  from w1(2) obtain s where a: "w_socks w1 a = Some s" "at_rest a s w1" "a < ?n" "a \<noteq> l" "l < ?n"
    by (auto simp: accept_ready_def at_rest_def w1(6))
  define fd where "fd = sr_ret (env_os E (Sys_accept4 (sk_s l1) # w_trace w1))"
  have "accepts E (sk_s l1) fd (w_trace w1)" using Suc.prems(6) by (simp add: accepts_def grants_accepts_def fd_def w1(4))
  from accept_section [OF w1(2,3) a(1) Suc.prems(5) this, of 0] obtain w2 l2 s2 where
    w2: "run_fd E 3 l kNetPollerIn w1 = Inr w2" "w_nsocks w2 = Suc ?n" "w_socks w2 l = Some l2" "sk_s l2 = sk_s l1" "sk_worker l2 = k"
      "accept_ready l ?n (queued w1 l TkAccept k (queued w1 a TkRecv (sk_worker s) ?T)) w2"
      "\<And>j. j \<notin> {a, l, ?n} \<Longrightarrow> w_socks w2 j = w_socks w1 j" "at_rest a s2 w2" "sk_state s2 = kNetSockStateActive" "sk_asock s2 = None"
    unfolding numeral_3_eq_3 w1(5,6) by (auto simp: w1(5))
  let ?U = "queued w1 l TkAccept k (queued w1 a TkRecv (sk_worker s) ?T)"
  have "due l ?n w2 (?U k)" using w1(7) w2(8) a(3,4) by (auto simp: due_def queued_def appended_def)
  moreover have "grants_accepts E (sk_s l2)" using Suc.prems(6) by (simp add: w2(4) w1(4))
  ultimately obtain w' a' T' as where
    w': "serve E l k n w2 = Inr w'" "accept_ready l a' T' w'" "due l a' w' (T' k)" "length as = n" "distinct as"
      "\<And>i. i \<in> set as \<Longrightarrow> is_active w' i \<and> (i = ?n \<or> Suc ?n \<le> i)"
      "\<And>j. j < Suc ?n \<Longrightarrow> j \<noteq> ?n \<Longrightarrow> j \<noteq> l \<Longrightarrow> is_active w2 j \<Longrightarrow> is_active w' j"
    using Suc.IH [OF w2(6,3,5) _ Suc.prems(5)] unfolding w2(2) by blast
  have "k < length (w_workers w1)" using w1(2,3,5) by (auto simp: accept_ready_def at_rest_def)
  then have "input_arrives E 3 l w1 = Inr w2" using w1(3-5,9) w2(1) by (simp add: input_arrives_def live)
  then have "serve E l k (Suc n) w = Inr w'" using w1(1) w'(1) by simp
  moreover have "is_active w2 a" using w2(8-10) by (auto simp: is_active_def at_rest_def)
  then have "is_active w' a" using w'(7) [of a] a(3,4) by simp
  moreover have "a \<notin> set as" using w'(6) a(3) by fastforce
  moreover have "is_active w' j" if "j < ?n" "j \<noteq> a" "j \<noteq> l" "is_active w j" for j
  proof -
    have "is_active w1 j" using w1(8) that by (simp add: kept_def)
    then have "is_active w2 j" using w2(7) [of j] that by (simp add: is_active_def)
    then show ?thesis using w'(7) [of j] that by simp
  qed
  moreover have "?n \<le> i" if "i \<in> set as" for i using w'(6) [OF that] by auto
  ultimately show ?case
    using w'(2-6) by (intro exI [of _ w'] exI [of _ a'] exI [of _ T'] exI [of _ "a # as"]) auto
qed

section \<open>Properties\<close>

text \<open>C17: The listener serves any number of connections. Let the accept task be the only one queued for the
  listener's worker. In each round the worker takes its queue and runs what is in it, and then a connection arrives, which the
  kernel reports only if the worker's poller holds the listener's descriptor, with input, for the listener: each round puts the
  descriptor under watch and queues the accept task again. After \<open>n\<close> rounds nothing has failed, \<open>n\<close> different sockets
  are active, and the device is ready for the next connection.\<close>

theorem listener_serves_any_number:
  assumes "accept_ready l a T w" and "w_socks w l = Some ls" and "T (sk_worker ls) = [TaskItem l TkAccept]"
    and "grants E" and "grants_accepts E (sk_s ls)"
  shows "\<exists>w' a' T' as. serve E l (sk_worker ls) n w = Inr w' \<and> accept_ready l a' T' w' \<and>
     length as = n \<and> distinct as \<and> (\<forall>i \<in> set as. is_active w' i)"
proof -
  have "due l a w (T (sk_worker ls))" by (simp add: due_def assms(3))
  from serve_law [OF assms(1,2) refl this assms(4,5), of n] show ?thesis by blast
qed

theorem listener_serves_any_number_witness:
  "\<exists>w w' as. accept_ready 0 1 first_tasks w \<and> serve kind_env 0 0 50 w = Inr w' \<and> length as = 50 \<and> distinct as \<and>
     (\<forall>i \<in> set as. is_active w' i)"
proof -
  obtain w ls where w: "accept_ready 0 1 first_tasks w" "w_socks w 0 = Some ls" "sk_worker ls = 0" using kind_start by blast
  have "grants_accepts kind_env (sk_s ls)" by (simp add: grants_accepts_def kind_accepts)
  with listener_serves_any_number [OF w(1,2) _ boots_grants(1) [OF kind_boots], of 50] w(1,3) show ?thesis
    by (simp add: first_tasks_def) blast
qed

end
